(* ===== verification/Prelude.thy ===== *)
theory Prelude
  imports
    Main
    "HOL-Library.Word"
    "HOL-Library.List_Lexorder"
    "HOL-Library.Char_ord"
begin

text \<open>
  What the components share: the widths of the machine integers, the result type of fallible
  code and the \<open>?\<close> operator, stateful fallible code (\<open>io\<close>) with a Hoare-style
  judgement and its rules, the parts of Rust's \<open>str\<close> and \<open>fmt\<close> library the source uses
  (strings are their UTF-8 bytes, as in Rust), and ordered maps as sorted association lists.
\<close>

section \<open>Collections of facts\<close>

named_theorems io_rules \<open>introduction rules of the Hoare-style judgement for stateful code\<close>
named_theorems display_defs \<open>definitions of the Display implementations\<close>

section \<open>Machine integers\<close>

type_synonym u8 = "8 word"
type_synonym u32 = "32 word"
type_synonym u64 = "64 word"

text \<open>Rust's \<open>saturating_add\<close>, \<open>saturating_sub\<close> and \<open>checked_add\<close> on words.\<close>

definition saturating_add :: "'a::len word \<Rightarrow> 'a word \<Rightarrow> 'a word" where
  "saturating_add a b = (if unat a + unat b < 2 ^ LENGTH('a) then a + b else - 1)"

definition checked_add :: "'a::len word \<Rightarrow> 'a word \<Rightarrow> 'a word option" where
  "checked_add a b = (if unat a + unat b < 2 ^ LENGTH('a) then Some (a + b) else None)"

section \<open>Results and the question-mark operator\<close>

type_synonym ('e, 'a) result = "'e + 'a"

definition and_then :: "('e, 'a) result \<Rightarrow> ('a \<Rightarrow> ('e, 'b) result) \<Rightarrow> ('e, 'b) result" where
  "and_then r f = (case r of Inl e \<Rightarrow> Inl e | Inr x \<Rightarrow> f x)"

definition map_err :: "('e \<Rightarrow> 'f) \<Rightarrow> ('e, 'a) result \<Rightarrow> ('f, 'a) result" where
  "map_err g r = (case r of Inl e \<Rightarrow> Inl (g e) | Inr x \<Rightarrow> Inr x)"

definition ok_or :: "'e \<Rightarrow> 'a option \<Rightarrow> ('e, 'a) result" where
  "ok_or e r = (case r of None \<Rightarrow> Inl e | Some x \<Rightarrow> Inr x)"

fun is_ok :: "('e, 'a) result \<Rightarrow> bool" where
  "is_ok (Inl e) = False"
| "is_ok (Inr x) = True"

lemma and_then_Inr: "and_then r f = Inr y \<longleftrightarrow> (\<exists>x. r = Inr x \<and> f x = Inr y)"
  by (simp add: and_then_def split: sum.splits)

lemma map_err_Inr: "map_err g r = Inr y \<longleftrightarrow> r = Inr y"
  by (simp add: map_err_def split: sum.splits)

lemma ok_or_Inr: "ok_or e r = Inr y \<longleftrightarrow> r = Some y"
  by (simp add: ok_or_def split: option.splits)

lemma if_error_Inr: "(if b then Inl e else r) = Inr y \<longleftrightarrow> \<not> b \<and> r = Inr y"
  by simp

text \<open>A successful run of fallible code is the success of each of its steps.\<close>

lemmas success_simps = and_then_Inr map_err_Inr ok_or_Inr if_error_Inr

section \<open>Stateful fallible code\<close>

text \<open>
  A fallible operation on a state returns its result and the state it leaves, in the error case
  too: an early return keeps the effects made before it.
\<close>

type_synonym ('s, 'e, 'a) io = "'s \<Rightarrow> ('e, 'a) result \<times> 's"

definition io_ok :: "'a \<Rightarrow> ('s, 'e, 'a) io" where
  "io_ok x s = (Inr x, s)"

definition io_err :: "'e \<Rightarrow> ('s, 'e, 'a) io" where
  "io_err e s = (Inl e, s)"

definition io_bind :: "('s, 'e, 'a) io \<Rightarrow> ('a \<Rightarrow> ('s, 'e, 'b) io) \<Rightarrow> ('s, 'e, 'b) io" where
  "io_bind m f s = (case m s of (Inl e, t) \<Rightarrow> (Inl e, t) | (Inr x, t) \<Rightarrow> f x t)"

definition io_then :: "('s, 'e, 'a) io \<Rightarrow> ('s, 'e, 'b) io \<Rightarrow> ('s, 'e, 'b) io" where
  "io_then m n = io_bind m (\<lambda>_. n)"

definition io_lift :: "('e, 'a) result \<Rightarrow> ('s, 'e, 'a) io" where
  "io_lift r s = (r, s)"

definition io_map_err :: "('e \<Rightarrow> 'f) \<Rightarrow> ('s, 'e, 'a) io \<Rightarrow> ('s, 'f, 'a) io" where
  "io_map_err g m s = (case m s of (r, t) \<Rightarrow> (map_err g r, t))"

text \<open>Matching on the result of a call instead of propagating its error.\<close>

definition io_match ::
  "('s, 'e, 'a) io \<Rightarrow> ('e \<Rightarrow> ('s, 'f, 'b) io) \<Rightarrow> ('a \<Rightarrow> ('s, 'f, 'b) io) \<Rightarrow> ('s, 'f, 'b) io" where
  "io_match m h f s = (case m s of (Inl e, t) \<Rightarrow> h e t | (Inr x, t) \<Rightarrow> f x t)"

text \<open>A loop over the items of a list that stops at the first error.\<close>

fun io_for :: "'x list \<Rightarrow> ('x \<Rightarrow> ('s, 'e, unit) io) \<Rightarrow> ('s, 'e, unit) io" where
  "io_for [] f = io_ok ()"
| "io_for (x # xs) f = io_then (f x) (io_for xs f)"

text \<open>
  \<open>io_valid P m Q R\<close>: from a state in \<open>P\<close>, \<open>m\<close> ends in \<open>Q\<close> with its value, or in \<open>R\<close> with
  its error.
\<close>

definition io_valid ::
  "('s \<Rightarrow> bool) \<Rightarrow> ('s, 'e, 'a) io \<Rightarrow> ('a \<Rightarrow> 's \<Rightarrow> bool) \<Rightarrow> ('e \<Rightarrow> 's \<Rightarrow> bool) \<Rightarrow> bool" where
  "io_valid P m Q R \<longleftrightarrow> (\<forall>s. P s \<longrightarrow> (case m s of (Inl e, t) \<Rightarrow> R e t | (Inr x, t) \<Rightarrow> Q x t))"

lemma io_validI:
  assumes "\<And>s e t. P s \<Longrightarrow> m s = (Inl e, t) \<Longrightarrow> R e t"
    and "\<And>s x t. P s \<Longrightarrow> m s = (Inr x, t) \<Longrightarrow> Q x t"
  shows "io_valid P m Q R"
  using assms by (auto simp: io_valid_def split: prod.splits sum.splits)

lemma io_valid_ok: "io_valid P m Q R \<Longrightarrow> P s \<Longrightarrow> m s = (Inr x, t) \<Longrightarrow> Q x t"
  by (fastforce simp: io_valid_def)

lemma io_valid_err: "io_valid P m Q R \<Longrightarrow> P s \<Longrightarrow> m s = (Inl e, t) \<Longrightarrow> R e t"
  by (fastforce simp: io_valid_def)

lemma io_valid_conseq:
  assumes "io_valid P m Q R" and "\<And>s. P' s \<Longrightarrow> P s"
    and "\<And>x s. Q x s \<Longrightarrow> Q' x s" and "\<And>e s. R e s \<Longrightarrow> R' e s"
  shows "io_valid P' m Q' R'"
  using assms by (fastforce simp: io_valid_def split: prod.splits sum.splits)

lemma io_valid_pre: "io_valid P m Q R \<Longrightarrow> (\<And>s. P' s \<Longrightarrow> P s) \<Longrightarrow> io_valid P' m Q R"
  by (erule io_valid_conseq) auto

lemma io_valid_io_ok [io_rules]: "io_valid (Q x) (io_ok x) Q R"
  by (simp add: io_valid_def io_ok_def)

lemma io_valid_io_err [io_rules]: "io_valid (R e) (io_err e) Q R"
  by (simp add: io_valid_def io_err_def)

lemma io_valid_io_lift [io_rules]:
  "io_valid (\<lambda>s. case r of Inl e \<Rightarrow> R e s | Inr x \<Rightarrow> Q x s) (io_lift r) Q R"
  by (simp add: io_valid_def io_lift_def split: sum.splits)

lemma io_valid_bind:
  assumes "io_valid P m M R" and "\<And>x. io_valid (M x) (f x) Q R"
  shows "io_valid P (io_bind m f) Q R"
  using assms by (fastforce simp: io_valid_def io_bind_def split: prod.splits sum.splits)

lemma io_valid_then:
  assumes "io_valid P m (\<lambda>_. M) R" and "io_valid M n Q R"
  shows "io_valid P (io_then m n) Q R"
  unfolding io_then_def by (rule io_valid_bind [OF assms])

lemma io_valid_map_err:
  assumes "io_valid P m Q (\<lambda>e. R (g e))"
  shows "io_valid P (io_map_err g m) Q R"
  using assms by (fastforce simp: io_valid_def io_map_err_def map_err_def split: prod.splits sum.splits)

lemma io_valid_match:
  assumes "io_valid P m M N" and "\<And>x. io_valid (M x) (f x) Q R" and "\<And>e. io_valid (N e) (h e) Q R"
  shows "io_valid P (io_match m h f) Q R"
  using assms by (fastforce simp: io_valid_def io_match_def split: prod.splits sum.splits)

lemma io_valid_for:
  assumes "\<And>x. x \<in> set xs \<Longrightarrow> io_valid I (f x) (\<lambda>_. I) R"
  shows "io_valid I (io_for xs f) (\<lambda>_. I) R"
  using assms by (induction xs) (auto intro: io_valid_io_ok io_valid_then)

lemma io_valid_conj:
  assumes "io_valid P m Q R" and "io_valid P' m Q' R'"
  shows "io_valid (\<lambda>s. P s \<and> P' s) m (\<lambda>x s. Q x s \<and> Q' x s) (\<lambda>e s. R e s \<and> R' e s)"
  using assms by (fastforce simp: io_valid_def split: prod.splits sum.splits)

lemma io_valid_disj:
  assumes "io_valid P m Q R" and "io_valid P' m Q' R'"
  shows "io_valid (\<lambda>s. P s \<or> P' s) m (\<lambda>x s. Q x s \<or> Q' x s) (\<lambda>e s. R e s \<or> R' e s)"
  using assms by (auto simp: io_valid_def split: prod.splits sum.splits)

lemma io_valid_if:
  assumes "b \<Longrightarrow> io_valid P m Q R" and "\<not> b \<Longrightarrow> io_valid P n Q R"
  shows "io_valid P (if b then m else n) Q R"
  using assms by simp

text \<open>A condition on the values only is a hypothesis of the triple.\<close>

lemma io_valid_pure:
  assumes "b \<Longrightarrow> io_valid P m Q R"
  shows "io_valid (\<lambda>s. P s \<and> b) m Q R"
  using assms by (simp add: io_valid_def)

lemma io_valid_ex:
  assumes "\<And>x. P x \<Longrightarrow> io_valid (T x) m Q R"
  shows "io_valid (\<lambda>s. \<exists>x. P x \<and> T x s) m Q R"
  by (rule io_validI) (blast intro: io_valid_err io_valid_ok assms)+

lemmas io_simps = io_ok_def io_err_def io_lift_def io_bind_def io_then_def io_match_def
  io_map_err_def map_err_def

section \<open>Bytes and strings\<close>

abbreviation byte :: "char \<Rightarrow> nat" where
  "byte c \<equiv> of_char c"

definition is_ascii_digit :: "char \<Rightarrow> bool" where
  "is_ascii_digit c \<longleftrightarrow> 48 \<le> byte c \<and> byte c \<le> 57"

definition is_ascii_alphabetic :: "char \<Rightarrow> bool" where
  "is_ascii_alphabetic c \<longleftrightarrow>
     (65 \<le> byte c \<and> byte c \<le> 90) \<or> (97 \<le> byte c \<and> byte c \<le> 122)"

definition is_ascii_alphanumeric :: "char \<Rightarrow> bool" where
  "is_ascii_alphanumeric c \<longleftrightarrow> is_ascii_digit c \<or> is_ascii_alphabetic c"

definition strip_prefix :: "string \<Rightarrow> string \<Rightarrow> string option" where
  "strip_prefix s p = (if take (length p) s = p then Some (drop (length p) s) else None)"

definition starts_with :: "string \<Rightarrow> string \<Rightarrow> bool" where
  "starts_with s p \<longleftrightarrow> take (length p) s = p"

definition strip_suffix :: "string \<Rightarrow> string \<Rightarrow> string option" where
  "strip_suffix s p = map_option rev (strip_prefix (rev s) (rev p))"

lemma strip_prefix_Some: "strip_prefix s p = Some t \<longleftrightarrow> s = p @ t"
  by (auto simp: strip_prefix_def) (metis append_take_drop_id)

lemma strip_suffix_Some: "strip_suffix s p = Some t \<longleftrightarrow> s = t @ p"
  by (auto simp: strip_suffix_def strip_prefix_Some)
    (metis rev_append rev_rev_ident)

lemma strip_suffix_append [simp]: "strip_suffix (t @ p) p = Some t"
  by (simp add: strip_suffix_Some)

lemma starts_with_append: "starts_with s p \<longleftrightarrow> (\<exists>t. s = p @ t)"
  by (auto simp: starts_with_def) (metis append_take_drop_id)

subsection \<open>Decimal and hexadecimal numbers\<close>

definition digit_char :: "nat \<Rightarrow> char" where
  "digit_char d = (if d < 10 then char_of (48 + d) else char_of (87 + d))"

text \<open>\<open>display_radix b n\<close> prints \<open>n\<close> in base \<open>b\<close> without leading zeros.\<close>

fun display_radix :: "nat \<Rightarrow> nat \<Rightarrow> string" where
  "display_radix b n =
     (if b < 2 \<or> n < b then [digit_char n]
      else display_radix b (n div b) @ [digit_char (n mod b)])"

declare display_radix.simps [simp del]

definition display_nat :: "nat \<Rightarrow> string" where
  "display_nat n = display_radix 10 n"

text \<open>Rust's \<open>{:#04x}\<close> on a byte: \<open>0x\<close> and at least two hexadecimal digits.\<close>

definition display_byte_hex :: "char \<Rightarrow> string" where
  "display_byte_hex c = ''0x'' @ [digit_char (byte c div 16), digit_char (byte c mod 16)]"

definition digit_value :: "char \<Rightarrow> nat option" where
  "digit_value c = (if is_ascii_digit c then Some (byte c - 48) else None)"

text \<open>
  \<open>parse_digits max acc s\<close> is the accumulation loop of \<open>from_str\<close> for unsigned integers: it
  fails on a byte that is not a digit and when the value exceeds the type's maximum.
\<close>

fun parse_digits :: "nat \<Rightarrow> nat \<Rightarrow> string \<Rightarrow> nat option" where
  "parse_digits mx acc [] = Some acc"
| "parse_digits mx acc (c # cs) =
     (case digit_value c of
        None \<Rightarrow> None
      | Some d \<Rightarrow> if mx < acc * 10 + d then None else parse_digits mx (acc * 10 + d) cs)"

text \<open>Unsigned \<open>from_str\<close>: an optional plus sign, then at least one digit.\<close>

definition parse_unsigned :: "nat \<Rightarrow> string \<Rightarrow> nat option" where
  "parse_unsigned mx s =
     (let body = (case s of c # cs \<Rightarrow> if c = CHR ''+'' then cs else s | [] \<Rightarrow> s)
      in if body = [] then None else parse_digits mx 0 body)"

lemma parse_digits_bound: "parse_digits mx acc s = Some n \<Longrightarrow> acc \<le> mx \<Longrightarrow> n \<le> mx"
  by (induction mx acc s rule: parse_digits.induct) (auto split: option.splits if_splits)

lemma parse_unsigned_bound: "parse_unsigned mx s = Some n \<Longrightarrow> n \<le> mx"
  by (auto simp: parse_unsigned_def Let_def simp del: parse_digits.simps
      split: if_splits list.splits dest: parse_digits_bound)

lemma digit_value_digit_char: "d < 10 \<Longrightarrow> digit_value (digit_char d) = Some d"
  by (simp add: digit_value_def digit_char_def is_ascii_digit_def)

lemma parse_digits_append:
  "parse_digits mx acc (s @ t) =
     (case parse_digits mx acc s of None \<Rightarrow> None | Some n \<Rightarrow> parse_digits mx n t)"
  by (induction mx acc s rule: parse_digits.induct) (auto split: option.splits)

lemma display_radix_nonempty: "display_radix b n \<noteq> []"
  by (subst display_radix.simps) simp

lemma parse_digits_display:
  "n \<le> mx \<Longrightarrow> parse_digits mx 0 (display_radix 10 n) = Some n"
proof (induction "10::nat" n rule: display_radix.induct)
  case (1 n)
  show ?case
  proof (cases "n < 10")
    case True
    with 1 show ?thesis by (simp add: display_radix.simps [of 10 n] digit_value_digit_char)
  next
    case False
    with 1 have "parse_digits mx 0 (display_radix 10 (n div 10)) = Some (n div 10)" by simp
    with False 1 show ?thesis
      by (simp add: display_radix.simps [of 10 n] parse_digits_append digit_value_digit_char)
  qed
qed

lemma hd_display_radix: "\<exists>d < 10. \<exists>t. display_radix 10 n = digit_char d # t"
proof (induction "10::nat" n rule: display_radix.induct)
  case (1 n)
  show ?case
  proof (cases "n < 10")
    case True
    then show ?thesis by (auto simp: display_radix.simps [of 10 n])
  next
    case False
    with 1 obtain d t where "d < 10" "display_radix 10 (n div 10) = digit_char d # t" by auto
    with False show ?thesis by (auto simp: display_radix.simps [of 10 n])
  qed
qed

text \<open>Printing and parsing a number that fits its type is the identity.\<close>

lemma parse_display_nat: "n \<le> mx \<Longrightarrow> parse_unsigned mx (display_nat n) = Some n"
proof -
  assume n: "n \<le> mx"
  obtain d t where d: "d < 10" "display_radix 10 n = digit_char d # t" using hd_display_radix by blast
  have "digit_char d \<noteq> CHR ''+''"
  proof
    assume "digit_char d = CHR ''+''"
    with digit_value_digit_char [OF d(1)] show False by (simp add: digit_value_def is_ascii_digit_def)
  qed
  with d parse_digits_display [OF n] show ?thesis
    by (simp add: parse_unsigned_def display_nat_def)
qed

end
