(* ===== verification/Rust_Str.thy ===== *)
theory Rust_Str
  imports Prelude
begin

text \<open>
  The parts of Rust's \<open>str\<close> library the source calls. A \<open>str\<close> is the list of its UTF-8
  bytes; the operations that work on characters split it into chunks, each a code point with
  the bytes that encode it.
\<close>

section \<open>UTF-8\<close>

definition in_range :: "nat \<Rightarrow> nat \<Rightarrow> char \<Rightarrow> bool" where
  "in_range lo hi c \<longleftrightarrow> lo \<le> byte c \<and> byte c \<le> hi"

text \<open>The bounds of the second byte of a three-byte and of a four-byte sequence.\<close>

definition second3 :: "nat \<Rightarrow> char \<Rightarrow> bool" where
  "second3 n c = in_range (if n = 224 then 160 else 128) (if n = 237 then 159 else 191) c"

definition second4 :: "nat \<Rightarrow> char \<Rightarrow> bool" where
  "second4 n c = in_range (if n = 240 then 144 else 128) (if n = 244 then 143 else 191) c"

text \<open>The first character of a byte string: its code point, its bytes and the rest.\<close>

fun utf8_next :: "string \<Rightarrow> (nat \<times> string \<times> string) option" where
  "utf8_next [] = None"
| "utf8_next (b # bs) =
     (let n = byte b in
      if n < 128 then Some (n, [b], bs)
      else if 194 \<le> n \<and> n \<le> 223 then
        (case bs of
           c # r \<Rightarrow> if in_range 128 191 c
                    then Some ((n - 192) * 64 + (byte c - 128), [b, c], r) else None
         | _ \<Rightarrow> None)
      else if 224 \<le> n \<and> n \<le> 239 then
        (case bs of
           c # d # r \<Rightarrow> if second3 n c \<and> in_range 128 191 d
                        then Some ((n - 224) * 4096 + (byte c - 128) * 64 + (byte d - 128),
                                   [b, c, d], r) else None
         | _ \<Rightarrow> None)
      else if 240 \<le> n \<and> n \<le> 244 then
        (case bs of
           c # d # e # r \<Rightarrow> if second4 n c \<and> in_range 128 191 d \<and> in_range 128 191 e
                            then Some ((n - 240) * 262144 + (byte c - 128) * 4096
                                       + (byte d - 128) * 64 + (byte e - 128),
                                       [b, c, d, e], r) else None
         | _ \<Rightarrow> None)
      else None)"

lemma utf8_next_split: "utf8_next s = Some (n, b, r) \<Longrightarrow> s = b @ r \<and> b \<noteq> []"
  by (cases s) (auto simp: Let_def split: if_splits list.splits)

lemma utf8_next_shorter: "utf8_next s = Some (n, b, r) \<Longrightarrow> length r < length s"
  by (drule utf8_next_split) auto

function utf8_chunks :: "string \<Rightarrow> (nat \<times> string) list option" where
  "utf8_chunks s =
     (if s = [] then Some []
      else case utf8_next s of
             None \<Rightarrow> None
           | Some (n, b, r) \<Rightarrow> map_option (Cons (n, b)) (utf8_chunks r))"
  by pat_completeness auto
termination
  by (relation "measure length") (auto dest: utf8_next_shorter)

declare utf8_chunks.simps [simp del]

text \<open>\<open>std::str::from_utf8\<close>: the bytes themselves when they are well-formed UTF-8.\<close>

definition from_utf8 :: "string \<Rightarrow> string option" where
  "from_utf8 s = (if utf8_chunks s = None then None else Some s)"

text \<open>The characters of a string; a \<open>str\<close> value is always well-formed.\<close>

definition chunks :: "string \<Rightarrow> (nat \<times> string) list" where
  "chunks s = (case utf8_chunks s of Some cs \<Rightarrow> cs | None \<Rightarrow> map (\<lambda>c. (byte c, [c])) s)"

definition unchunk :: "(nat \<times> string) list \<Rightarrow> string" where
  "unchunk cs = concat (map snd cs)"

text \<open>
  The number of bytes \<open>from_utf8_lossy\<close> replaces by one U+FFFD: the longest prefix that could
  still start a well-formed sequence, at least one byte.
\<close>

definition invalid_len :: "string \<Rightarrow> nat" where
  "invalid_len s =
     (case s of
        b # c # d # _ \<Rightarrow>
          (if 224 \<le> byte b \<and> byte b \<le> 239 \<and> second3 (byte b) c then 2
           else if 240 \<le> byte b \<and> byte b \<le> 244 \<and> second4 (byte b) c
             then (if in_range 128 191 d then 3 else 2)
           else 1)
      | [b, c] \<Rightarrow>
          (if 224 \<le> byte b \<and> byte b \<le> 239 \<and> second3 (byte b) c then 2
           else if 240 \<le> byte b \<and> byte b \<le> 244 \<and> second4 (byte b) c then 2
           else 1)
      | _ \<Rightarrow> 1)"

lemma invalid_len_pos: "0 < invalid_len s"
  by (auto simp: invalid_len_def split: list.splits)

function from_utf8_lossy :: "string \<Rightarrow> string" where
  "from_utf8_lossy s =
     (if s = [] then []
      else case utf8_next s of
             Some (n, b, r) \<Rightarrow> b @ from_utf8_lossy r
           | None \<Rightarrow> [CHR 0xEF, CHR 0xBF, CHR 0xBD] @ from_utf8_lossy (drop (invalid_len s) s))"
  by pat_completeness auto
termination
  by (relation "measure length")
    (auto dest: utf8_next_shorter simp: invalid_len_pos)

declare from_utf8_lossy.simps [simp del]

lemma utf8_chunks_concat: "utf8_chunks s = Some cs \<Longrightarrow> unchunk cs = s"
proof (induction s arbitrary: cs rule: utf8_chunks.induct)
  case (1 s)
  then show ?case
    by (auto simp: utf8_chunks.simps [of s] unchunk_def
        split: if_splits option.splits dest: utf8_next_split)
qed

lemma unchunk_chunks [simp]: "unchunk (chunks s) = s"
  by (auto simp: chunks_def unchunk_def split: option.split dest: utf8_chunks_concat)
    (simp add: comp_def utf8_chunks_concat [unfolded unchunk_def])

lemma from_utf8_lossy_Nil [simp]: "from_utf8_lossy [] = []"
  by (simp add: from_utf8_lossy.simps)

lemma from_utf8_lossy_valid: "from_utf8 s = Some t \<Longrightarrow> from_utf8_lossy s = s"
proof (induction s arbitrary: t rule: from_utf8_lossy.induct)
  case (1 s)
  then show ?case
    by (cases "s = []")
      (auto simp: from_utf8_def utf8_chunks.simps [of s] from_utf8_lossy.simps [of s]
        split: option.splits if_splits dest: utf8_next_split)
qed

lemma from_utf8_same: "from_utf8 s = Some t \<Longrightarrow> t = s"
  by (simp add: from_utf8_def split: if_splits)

definition is_ascii :: "string \<Rightarrow> bool" where
  "is_ascii s \<longleftrightarrow> list_all (\<lambda>c. byte c < 128) s"

lemma utf8_chunks_ascii: "is_ascii s \<Longrightarrow> utf8_chunks s = Some (map (\<lambda>c. (byte c, [c])) s)"
  by (induction s) (auto simp: is_ascii_def utf8_chunks.simps Let_def)

lemma from_utf8_ascii: "is_ascii s \<Longrightarrow> from_utf8 s = Some s"
  by (simp add: from_utf8_def utf8_chunks_ascii)

lemma from_utf8_lossy_ascii: "is_ascii s \<Longrightarrow> from_utf8_lossy s = s"
  by (rule from_utf8_lossy_valid [OF from_utf8_ascii])

lemma utf8_next_prefix: "utf8_next s = Some (n, b, r) \<Longrightarrow> utf8_next (b @ t) = Some (n, b, t)"
  by (cases s) (auto simp: Let_def split: if_splits list.splits)

text \<open>The lossy conversion yields well-formed text, so converting twice changes nothing.\<close>

lemma utf8_chunks_lossy: "utf8_chunks (from_utf8_lossy s) \<noteq> None"
proof (induction s rule: from_utf8_lossy.induct)
  case (1 s)
  have step: "utf8_chunks (b @ t) \<noteq> None"
    if "utf8_next u = Some (n, b, r)" "utf8_chunks t \<noteq> None" for u n b r t
    using that utf8_next_prefix [OF that(1), of t] utf8_next_split [OF that(1)]
    by (simp add: utf8_chunks.simps [of "b @ t"])
  have rep: "utf8_next [CHR 0xEF, CHR 0xBF, CHR 0xBD] = Some (65533, [CHR 0xEF, CHR 0xBF, CHR 0xBD], [])"
    by (simp add: Let_def second3_def in_range_def)
  show ?case
  proof (cases "s = []")
    case True
    then show ?thesis by (simp add: utf8_chunks.simps)
  next
    case False
    show ?thesis
    proof (cases "utf8_next s")
      case None
      from 1(1) [OF False None] False None step [OF rep, of "from_utf8_lossy (drop (invalid_len s) s)"]
      show ?thesis by (simp add: from_utf8_lossy.simps [of s])
    next
      case (Some x)
      then obtain n b r where x: "utf8_next s = Some (n, b, r)" by (cases x) auto
      from 1(2) [OF False x] step [OF x, of "from_utf8_lossy r"] False x show ?thesis
        by (simp add: from_utf8_lossy.simps [of s])
    qed
  qed
qed

lemma from_utf8_lossy_idem [simp]: "from_utf8_lossy (from_utf8_lossy s) = from_utf8_lossy s"
  using utf8_chunks_lossy [of s] by (auto intro!: from_utf8_lossy_valid simp: from_utf8_def)

lemma chunks_ascii: "is_ascii s \<Longrightarrow> chunks s = map (\<lambda>c. (byte c, [c])) s"
  by (simp add: chunks_def utf8_chunks_ascii)

section \<open>Characters and fields\<close>

text \<open>The code points with the Unicode property White\_Space.\<close>

definition is_whitespace :: "nat \<Rightarrow> bool" where
  "is_whitespace n \<longleftrightarrow>
     (9 \<le> n \<and> n \<le> 13) \<or> n = 32 \<or> n = 133 \<or> n = 160 \<or> n = 5760
     \<or> (8192 \<le> n \<and> n \<le> 8202) \<or> n = 8232 \<or> n = 8233 \<or> n = 8239 \<or> n = 8287 \<or> n = 12288"

definition is_ascii_whitespace :: "nat \<Rightarrow> bool" where
  "is_ascii_whitespace n \<longleftrightarrow> n = 9 \<or> n = 10 \<or> n = 12 \<or> n = 13 \<or> n = 32"

definition trim_start :: "string \<Rightarrow> string" where
  "trim_start s = unchunk (dropWhile (\<lambda>(n, b). is_whitespace n) (chunks s))"

definition trim_end :: "string \<Rightarrow> string" where
  "trim_end s = unchunk (rev (dropWhile (\<lambda>(n, b). is_whitespace n) (rev (chunks s))))"

definition trim :: "string \<Rightarrow> string" where
  "trim s = trim_start (trim_end s)"

text \<open>The maximal runs of characters outside \<open>ws\<close>.\<close>

fun split_fields :: "(nat \<Rightarrow> bool) \<Rightarrow> string \<Rightarrow> (nat \<times> string) list \<Rightarrow> string list" where
  "split_fields ws cur [] = (if cur = [] then [] else [cur])"
| "split_fields ws cur ((n, b) # cs) =
     (if ws n then (if cur = [] then split_fields ws [] cs else cur # split_fields ws [] cs)
      else split_fields ws (cur @ b) cs)"

definition split_whitespace :: "string \<Rightarrow> string list" where
  "split_whitespace s = split_fields is_whitespace [] (chunks s)"

definition split_ascii_whitespace :: "string \<Rightarrow> string list" where
  "split_ascii_whitespace s = split_fields is_ascii_whitespace [] (chunks s)"

text \<open>\<open>split_once\<close> at an ASCII delimiter.\<close>

fun split_once :: "char \<Rightarrow> string \<Rightarrow> (string \<times> string) option" where
  "split_once d [] = None"
| "split_once d (c # cs) =
     (if c = d then Some ([], cs)
      else map_option (\<lambda>(a, b). (c # a, b)) (split_once d cs))"

text \<open>\<open>lines\<close>: a line ends at a line feed, with a carriage return before it dropped.\<close>

definition strip_cr :: "string \<Rightarrow> string" where
  "strip_cr s = (case strip_suffix s [CHR 0x0D] of Some t \<Rightarrow> t | None \<Rightarrow> s)"

fun lines_from :: "string \<Rightarrow> string \<Rightarrow> string list" where
  "lines_from cur [] = (if cur = [] then [] else [cur])"
| "lines_from cur (c # cs) =
     (if c = CHR 0x0A then strip_cr cur # lines_from [] cs else lines_from (cur @ [c]) cs)"

definition str_lines :: "string \<Rightarrow> string list" where
  "str_lines s = lines_from [] s"

lemma split_once_Some: "split_once d s = Some (a, b) \<Longrightarrow> s = a @ d # b \<and> d \<notin> set a"
  by (induction s arbitrary: a b) (auto split: if_splits)

lemma split_fields_nonempty: "f \<in> set (split_fields ws cur cs) \<Longrightarrow>
    (\<And>n b. (n, b) \<in> set cs \<Longrightarrow> b \<noteq> []) \<Longrightarrow> f \<noteq> []"
  by (induction ws cur cs rule: split_fields.induct) (auto split: if_splits)

section \<open>The Debug form of a string\<close>

text \<open>
  \<open>{:?}\<close> on a \<open>str\<close>. Whether a code point beyond ASCII is printed as it is depends on the
  Unicode tables of the standard library: \<open>pr\<close> stands for them.
\<close>

definition debug_char :: "(nat \<Rightarrow> bool) \<Rightarrow> nat \<times> string \<Rightarrow> string" where
  "debug_char pr = (\<lambda>(n, b).
     if n = 0 then [CHR 0x5C, CHR ''0'']
     else if n = 9 then [CHR 0x5C, CHR ''t'']
     else if n = 10 then [CHR 0x5C, CHR ''n'']
     else if n = 13 then [CHR 0x5C, CHR ''r'']
     else if n = 34 then [CHR 0x5C, CHR 0x22]
     else if n = 92 then [CHR 0x5C, CHR 0x5C]
     else if (if n < 128 then 32 \<le> n \<and> n \<le> 126 else pr n) then b
     else [CHR 0x5C, CHR ''u'', CHR 0x7B] @ display_radix 16 n @ [CHR 0x7D])"

definition debug_str :: "(nat \<Rightarrow> bool) \<Rightarrow> string \<Rightarrow> string" where
  "debug_str pr s = [CHR 0x22] @ concat (map (debug_char pr) (chunks s)) @ [CHR 0x22]"

text \<open>A string of printable ASCII without quotes and backslashes is quoted as it is.\<close>

definition plain_ascii :: "string \<Rightarrow> bool" where
  "plain_ascii s \<longleftrightarrow> list_all (\<lambda>c. 32 \<le> byte c \<and> byte c \<le> 126 \<and> byte c \<noteq> 34 \<and> byte c \<noteq> 92) s"

lemma plain_ascii_is_ascii: "plain_ascii s \<Longrightarrow> is_ascii s"
  by (auto simp: plain_ascii_def is_ascii_def list_all_iff)

lemma debug_str_plain: "plain_ascii s \<Longrightarrow> debug_str pr s = [CHR 0x22] @ s @ [CHR 0x22]"
proof -
  assume s: "plain_ascii s"
  have "concat (map (debug_char pr) (map (\<lambda>c. (byte c, [c])) s)) = s"
    using s by (induction s) (auto simp: plain_ascii_def debug_char_def)
  with s show ?thesis by (simp add: debug_str_def chunks_ascii plain_ascii_is_ascii)
qed

section \<open>Paths\<close>

text \<open>\<open>Path::join\<close>: an absolute second part replaces the first, and one separator is put between.\<close>

definition path_join :: "string \<Rightarrow> string \<Rightarrow> string" where
  "path_join base p =
     (if starts_with p ''/'' then p
      else if base = [] \<or> last base = CHR ''/'' then base @ p
      else base @ ''/'' @ p)"

end
