(* ===== verification/Sandbox_Id.thy ===== *)
theory Sandbox_Id
  imports Rust_Str
begin

text \<open>
  Sandbox identifiers (\<open>sandbox/id.rs\<close>): the validated newtype, the single point of validation
  and its error values.
\<close>

section \<open>Model\<close>

definition MAX_ID_BYTES :: nat where
  "MAX_ID_BYTES = 64"

datatype sandbox_id = SandboxId (id_as_str: string)

datatype invalid_sandbox_id = IdEmpty | IdTooLong nat | IdByte nat char

text \<open>The loop over the bytes after the first: the first byte outside the alphabet.\<close>

fun scan_id_bytes :: "nat \<Rightarrow> string \<Rightarrow> (nat \<times> char) option" where
  "scan_id_bytes i [] = None"
| "scan_id_bytes i (b # bs) =
     (if \<not> is_ascii_alphanumeric b \<and> b \<noteq> CHR ''-'' then Some (i, b)
      else scan_id_bytes (Suc i) bs)"

definition parse_id :: "string \<Rightarrow> (invalid_sandbox_id, sandbox_id) result" where
  "parse_id raw =
     (case raw of
        [] \<Rightarrow> Inl IdEmpty
      | first # rest \<Rightarrow>
          if MAX_ID_BYTES < length raw then Inl (IdTooLong (length raw))
          else if \<not> is_ascii_alphanumeric first then Inl (IdByte 0 first)
          else case scan_id_bytes 1 rest of
                 Some (i, b) \<Rightarrow> Inl (IdByte i b)
               | None \<Rightarrow> Inr (SandboxId raw))"

fun display_invalid_id :: "invalid_sandbox_id \<Rightarrow> string" where
  "display_invalid_id IdEmpty = ''sandbox id is empty''"
| "display_invalid_id (IdTooLong n) =
     ''sandbox id is '' @ display_nat n @ '' bytes, the limit is '' @ display_nat MAX_ID_BYTES"
| "display_invalid_id (IdByte i b) =
     ''sandbox id contains invalid byte '' @ display_byte_hex b @ '' at offset '' @ display_nat i"

text \<open>The derived order compares the underlying strings bytewise.\<close>

instantiation sandbox_id :: linorder
begin

definition less_eq_sandbox_id :: "sandbox_id \<Rightarrow> sandbox_id \<Rightarrow> bool" where
  "less_eq_sandbox_id a b \<longleftrightarrow> id_as_str a \<le> id_as_str b"

definition less_sandbox_id :: "sandbox_id \<Rightarrow> sandbox_id \<Rightarrow> bool" where
  "less_sandbox_id a b \<longleftrightarrow> id_as_str a < id_as_str b"

instance
  by standard (auto simp: less_eq_sandbox_id_def less_sandbox_id_def sandbox_id.expand)

end

section \<open>The documented grammar\<close>

text \<open>\<open>[A-Za-z0-9][A-Za-z0-9-]{0,63}\<close>, as the module states it.\<close>

definition id_grammar :: "string \<Rightarrow> bool" where
  "id_grammar s \<longleftrightarrow> s \<noteq> [] \<and> length s \<le> 64 \<and> is_ascii_alphanumeric (hd s)
     \<and> (\<forall>b \<in> set (tl s). is_ascii_alphanumeric b \<or> b = CHR ''-'')"

definition valid_id :: "sandbox_id \<Rightarrow> bool" where
  "valid_id i \<longleftrightarrow> id_grammar (id_as_str i)"

section \<open>Properties\<close>

lemma scan_id_bytes_None:
  "scan_id_bytes i s = None \<longleftrightarrow> (\<forall>b \<in> set s. is_ascii_alphanumeric b \<or> b = CHR ''-'')"
  by (induction s arbitrary: i) auto

lemma scan_id_bytes_Some:
  "scan_id_bytes i s = Some (j, b) \<Longrightarrow>
     i \<le> j \<and> j < i + length s \<and> s ! (j - i) = b \<and> \<not> is_ascii_alphanumeric b \<and> b \<noteq> CHR ''-''
     \<and> (\<forall>c \<in> set (take (j - i) s). is_ascii_alphanumeric c \<or> c = CHR ''-'')"
proof (induction s arbitrary: i)
  case Nil
  then show ?case by simp
next
  case (Cons a s)
  show ?case
  proof (cases "\<not> is_ascii_alphanumeric a \<and> a \<noteq> CHR ''-''")
    case True
    with Cons.prems show ?thesis by simp
  next
    case False
    with Cons.prems have "scan_id_bytes (Suc i) s = Some (j, b)" by simp
    from Cons.IH [OF this] False show ?thesis by (auto simp: Suc_diff_le Suc_le_eq take_Cons')
  qed
qed

lemma parse_id_Inr: "parse_id raw = Inr i \<longleftrightarrow> id_grammar raw \<and> i = SandboxId raw"
  using scan_id_bytes_None [of 1 "tl raw"]
  by (auto simp: parse_id_def id_grammar_def MAX_ID_BYTES_def split: list.splits option.splits)

lemma parse_id_valid: "parse_id raw = Inr i \<Longrightarrow> valid_id i"
  by (simp add: parse_id_Inr valid_id_def)

lemma parse_id_as_str [simp]: "valid_id i \<Longrightarrow> parse_id (id_as_str i) = Inr i"
  by (cases i) (simp add: parse_id_Inr valid_id_def)

lemma alnum_byte: "is_ascii_alphanumeric c \<Longrightarrow>
    48 \<le> byte c \<and> byte c \<le> 122 \<and> byte c \<noteq> 92 \<and> byte c \<noteq> 95"
  by (auto simp: is_ascii_alphanumeric_def is_ascii_digit_def is_ascii_alphabetic_def)

lemma grammar_bytes:
  "id_grammar s \<Longrightarrow> c \<in> set s \<Longrightarrow> is_ascii_alphanumeric c \<or> c = CHR ''-''"
  by (cases s) (auto simp: id_grammar_def)

lemma grammar_plain: "id_grammar s \<Longrightarrow> plain_ascii s"
  by (auto simp: plain_ascii_def list_all_iff dest!: grammar_bytes alnum_byte)

text \<open>
  C30. The parser accepts exactly the documented grammar, and the identifier it returns is the
  text it was given.
\<close>

theorem parse_id_accepts_grammar: "parse_id raw = Inr i \<longleftrightarrow> id_grammar raw \<and> i = SandboxId raw"
  by (rule parse_id_Inr)

text \<open>
  C31. An accepted identifier is a safe path component: it is neither empty nor a dot entry, and
  it has no slash, NUL, dot, underscore or backslash, so no identifier can leave the directory or
  meet a name of the daemon's own such as \<open>.lease.lock\<close>.
\<close>

theorem parsed_id_is_path_component:
  assumes "parse_id raw = Inr i"
  shows "id_as_str i \<noteq> [] \<and> length (id_as_str i) \<le> 64
    \<and> list_all (\<lambda>c. c \<notin> set ''/._'' \<and> c \<noteq> CHR 0x00 \<and> c \<noteq> CHR 0x5C) (id_as_str i)"
proof -
  have i: "id_grammar raw" "id_as_str i = raw" using assms by (simp_all add: parse_id_Inr)
  have "c \<notin> set ''/._'' \<and> c \<noteq> CHR 0x00 \<and> c \<noteq> CHR 0x5C" if "c \<in> set raw" for c
    using grammar_bytes [OF i(1) that] alnum_byte [of c] by auto
  with i show ?thesis by (simp add: id_grammar_def list_all_iff)
qed

theorem parsed_id_is_path_component_witness:
  "id_as_str (SandboxId ''a-1'') \<noteq> [] \<and> length (id_as_str (SandboxId ''a-1'')) \<le> 64
    \<and> list_all (\<lambda>c. c \<notin> set ''/._'' \<and> c \<noteq> CHR 0x00 \<and> c \<noteq> CHR 0x5C) (id_as_str (SandboxId ''a-1''))"
  by (rule parsed_id_is_path_component [of "''a-1''"]) code_simp

text \<open>
  A byte error names the first offending byte and its offset: everything before it is a
  valid beginning of an identifier, and that byte cannot continue one.
\<close>

theorem parse_id_error_is_first_bad_byte:
  assumes "parse_id raw = Inl (IdByte n b)"
  shows "n < length raw \<and> raw ! n = b
    \<and> \<not> is_ascii_alphanumeric b \<and> (n = 0 \<or> b \<noteq> CHR ''-'' \<and> id_grammar (take n raw))"
proof (cases raw)
  case Nil
  with assms show ?thesis by (simp add: parse_id_def)
next
  case (Cons f rest)
  show ?thesis
  proof (cases "is_ascii_alphanumeric f")
    case False
    with assms Cons show ?thesis by (auto simp: parse_id_def split: if_splits)
  next
    case True
    with assms Cons have s: "scan_id_bytes 1 rest = Some (n, b)" and len: "length raw \<le> 64"
      by (auto simp: parse_id_def MAX_ID_BYTES_def split: if_splits option.splits)
    from scan_id_bytes_Some [OF s] have n: "1 \<le> n" "n < 1 + length rest" "rest ! (n - 1) = b"
      "\<not> is_ascii_alphanumeric b" "b \<noteq> CHR ''-''"
      "\<forall>c \<in> set (take (n - 1) rest). is_ascii_alphanumeric c \<or> c = CHR ''-''" by auto
    then have "take n raw = f # take (n - 1) rest" "raw ! n = b"
      by (simp_all add: Cons take_Cons' nth_Cons')
    with n len True show ?thesis by (auto simp: Cons id_grammar_def)
  qed
qed

theorem parse_id_error_is_first_bad_byte_witness:
  "(2::nat) < length ''ab_c'' \<and> ''ab_c'' ! 2 = CHR ''_'' \<and> \<not> is_ascii_alphanumeric (CHR ''_'')
    \<and> ((2::nat) = 0 \<or> CHR ''_'' \<noteq> CHR ''-'' \<and> id_grammar (take 2 ''ab_c''))"
  by (rule parse_id_error_is_first_bad_byte) code_simp

end
