(* ===== verification/Platform_Env.thy ===== *)
theory Platform_Env
  imports Rust_Str
begin

text \<open>
  What the daemon takes from outside the repository, as the fields of one record that the
  definitions receive as an argument: the effective user and group, the process id, the TOML
  reader of the \<open>toml\<close> crate (the table a document denotes, or the text of its error), the text
  of a deserialisation error, the system's text for an error number, and the Unicode tables of
  the standard library that decide whether a code point beyond ASCII is printed as it is.
\<close>

datatype toml_value = TomlString string | TomlInteger int | TomlOther

type_synonym toml_table = "(string \<times> toml_value) list"

text \<open>The error numbers the code tells apart, and \<open>io::Error\<close>.\<close>

datatype errno = ENOENT | EEXIST | ELOOP | ENOTDIR | EISDIR | ENOTEMPTY | EINTR | EOther nat

datatype io_error = OsError errno | OtherError string

record env =
  env_euid :: u32
  env_egid :: u32
  env_pid :: nat
  toml_table_of :: "string \<Rightarrow> (string, toml_table) result"
  serde_error_of :: "string \<Rightarrow> string"
  unicode_printable :: "nat \<Rightarrow> bool"
  os_error_text :: "errno \<Rightarrow> string"

text \<open>
  Deserialising one field of a derived \<open>Deserialize\<close>: a string field wants a TOML string, a
  \<open>u32\<close> field an integer in range; \<open>deny_unknown_fields\<close> refuses any other key.
\<close>

definition string_field :: "toml_table \<Rightarrow> string \<Rightarrow> string option" where
  "string_field t k = (case map_of t k of Some (TomlString s) \<Rightarrow> Some s | _ \<Rightarrow> None)"

definition u32_field :: "toml_table \<Rightarrow> string \<Rightarrow> u32 option" where
  "u32_field t k =
     (case map_of t k of
        Some (TomlInteger n) \<Rightarrow> if 0 \<le> n \<and> n < 2 ^ 32 then Some (of_int n) else None
      | _ \<Rightarrow> None)"

text \<open>\<open>#[serde(default)]\<close> on an optional string: absent is \<open>None\<close>, a wrong type an error.\<close>

definition optional_string_field :: "toml_table \<Rightarrow> string \<Rightarrow> string option option" where
  "optional_string_field t k =
     (case map_of t k of
        None \<Rightarrow> Some None
      | Some (TomlString s) \<Rightarrow> Some (Some s)
      | Some _ \<Rightarrow> None)"

definition only_fields :: "toml_table \<Rightarrow> string list \<Rightarrow> bool" where
  "only_fields t ks \<longleftrightarrow> list_all (\<lambda>(k, v). k \<in> set ks) t"

definition newline :: string where
  "newline = [CHR 0x0A]"

definition max_u32 :: nat where
  "max_u32 = 2 ^ 32 - 1"

lemma u32_field_nat:
  "map_of t k = Some (TomlInteger (int (unat w))) \<Longrightarrow> u32_field t k = Some w"
proof -
  assume m: "map_of t k = Some (TomlInteger (int (unat w)))"
  have "unat w < 2 ^ 32" using unsigned_less [of w] by simp
  then have "int (unat w) < 2 ^ 32" by (metis of_nat_less_iff of_nat_numeral of_nat_power)
  with m show ?thesis by (simp add: u32_field_def)
qed

end
