(* ===== verification/Fingerprint.thy ===== *)
theory Fingerprint
  imports Platform_Env
begin

text \<open>
  Key fingerprints (\<open>auth.rs\<close>, the part that validates \<open>SHA256:\<close> fingerprints): the base64
  decoder on bytes as 8-bit words, the strict parser, and the reference encoder it is proved
  against.
\<close>

unbundle bit_operations_syntax

section \<open>Model\<close>

datatype key_fingerprint = KeyFingerprint (fp_as_str: string)

datatype fingerprint_error =
    MissingPrefix
  | BadLength nat
  | InvalidCharacter nat char
  | NonCanonical

definition BASE64_ALPHABET :: string where
  "BASE64_ALPHABET = ''ABCDEFGHIJKLMNOPQRSTUVWXYZabcdefghijklmnopqrstuvwxyz0123456789+/''"

text \<open>\<open>iter().position(..)\<close>: the index of the first occurrence.\<close>

fun position :: "'a \<Rightarrow> 'a list \<Rightarrow> nat option" where
  "position x [] = None"
| "position x (y # ys) = (if y = x then Some 0 else map_option Suc (position x ys))"

definition base64_value :: "char \<Rightarrow> u8 option" where
  "base64_value b = map_option of_nat (position b BASE64_ALPHABET)"

fun decode_values :: "nat \<Rightarrow> string \<Rightarrow> (fingerprint_error, u8 list) result" where
  "decode_values i [] = Inr []"
| "decode_values i (b # bs) =
     (case base64_value b of
        None \<Rightarrow> Inl (InvalidCharacter i b)
      | Some v \<Rightarrow> and_then (decode_values (Suc i) bs) (\<lambda>vs. Inr (v # vs)))"

fun decode_groups :: "u8 list \<Rightarrow> u8 list" where
  "decode_groups (a # b # c # d # vs) =
     (push_bit 2 a OR drop_bit 4 b) # (push_bit 4 b OR drop_bit 2 c) # (push_bit 6 c OR d)
     # decode_groups vs"
| "decode_groups _ = []"

definition decode_sha256_base64 :: "string \<Rightarrow> (fingerprint_error, u8 list) result" where
  "decode_sha256_base64 digest =
     (if length digest \<noteq> 43 then Inl (BadLength (length digest))
      else and_then (decode_values 0 digest) (\<lambda>values.
        let out = decode_groups (take 40 values);
            v0 = values ! 40; v1 = values ! 41; v2 = values ! 42
        in if v2 AND 3 \<noteq> 0 then Inl NonCanonical
           else Inr (out @ [push_bit 2 v0 OR drop_bit 4 v1, push_bit 4 v1 OR drop_bit 2 v2])))"

definition parse_fingerprint :: "string \<Rightarrow> (fingerprint_error, key_fingerprint) result" where
  "parse_fingerprint raw =
     and_then (ok_or MissingPrefix (strip_prefix raw ''SHA256:'')) (\<lambda>digest.
       and_then (decode_sha256_base64 digest) (\<lambda>_. Inr (KeyFingerprint raw)))"

fun display_fingerprint_error :: "fingerprint_error \<Rightarrow> string" where
  "display_fingerprint_error MissingPrefix =
     ''fingerprint must start with '' @ [CHR 0x22] @ ''SHA256:'' @ [CHR 0x22]"
| "display_fingerprint_error (BadLength n) =
     ''fingerprint body must be 43 unpadded base64 characters, got '' @ display_nat n"
| "display_fingerprint_error (InvalidCharacter i b) =
     ''fingerprint contains invalid base64 character '' @ display_byte_hex b
       @ '' at offset '' @ display_nat i"
| "display_fingerprint_error NonCanonical = ''fingerprint base64 padding bits are not zero''"

instantiation key_fingerprint :: linorder
begin

definition less_eq_key_fingerprint :: "key_fingerprint \<Rightarrow> key_fingerprint \<Rightarrow> bool" where
  "less_eq_key_fingerprint a b \<longleftrightarrow> fp_as_str a \<le> fp_as_str b"

definition less_key_fingerprint :: "key_fingerprint \<Rightarrow> key_fingerprint \<Rightarrow> bool" where
  "less_key_fingerprint a b \<longleftrightarrow> fp_as_str a < fp_as_str b"

instance
  by standard (auto simp: less_eq_key_fingerprint_def less_key_fingerprint_def key_fingerprint.expand)

end

definition valid_fingerprint :: "key_fingerprint \<Rightarrow> bool" where
  "valid_fingerprint k \<longleftrightarrow> parse_fingerprint (fp_as_str k) = Inr k"

text \<open>An authenticated connection: its key and the role granted to it.\<close>

datatype role = Normal | Admin

record principal =
  pr_fingerprint :: key_fingerprint
  pr_role :: role

section \<open>The reference encoder\<close>

text \<open>Unpadded standard base64, RFC 4648: three bytes to four characters, the last two to three.\<close>

definition base64_char :: "u8 \<Rightarrow> char" where
  "base64_char v = BASE64_ALPHABET ! unat v"

fun encode_groups :: "u8 list \<Rightarrow> u8 list" where
  "encode_groups (x # y # z # bs) =
     drop_bit 2 x # (push_bit 4 (x AND 3) OR drop_bit 4 y)
     # (push_bit 2 (y AND 15) OR drop_bit 6 z) # (z AND 63) # encode_groups bs"
| "encode_groups [x, y] =
     [drop_bit 2 x, push_bit 4 (x AND 3) OR drop_bit 4 y, push_bit 2 (y AND 15)]"
| "encode_groups [x] = [drop_bit 2 x, push_bit 4 (x AND 3)]"
| "encode_groups [] = []"

definition base64_encode :: "u8 list \<Rightarrow> string" where
  "base64_encode bs = map base64_char (encode_groups bs)"

section \<open>Bits of a group\<close>

lemma u8_eqI: "(\<And>n. n < 8 \<Longrightarrow> bit v n = bit w n) \<Longrightarrow> v = w" for v w :: u8
  by (rule bit_word_eqI) simp

lemma bit_6: "v < 64 \<Longrightarrow> 6 \<le> n \<Longrightarrow> \<not> bit v n" for v :: u8
proof -
  assume v: "v < 64" and n: "6 \<le> n"
  have "unat v < 64" using v by (simp add: word_less_nat_alt)
  also have "(64::nat) \<le> 2 ^ n" using power_increasing [OF n, of "2::nat"] by simp
  finally have "\<not> bit (unat v) n" by (simp add: bit_iff_odd)
  then show ?thesis by (simp add: bit_unsigned_iff)
qed

lemma less8_cases: "n < 8 \<Longrightarrow> n = 0 \<or> n = 1 \<or> n = 2 \<or> n = 3 \<or> n = 4 \<or> n = 5 \<or> n = 6 \<or> n = (7::nat)"
  by arith

lemmas u8_bits = bit_or_iff bit_and_iff bit_push_bit_iff bit_drop_bit_eq bit_6

lemma group_encode:
  fixes a b c d :: u8
  assumes "a < 64" "b < 64" "c < 64" "d < 64"
  defines "x \<equiv> push_bit 2 a OR drop_bit 4 b" and "y \<equiv> push_bit 4 b OR drop_bit 2 c"
    and "z \<equiv> push_bit 6 c OR d"
  shows "drop_bit 2 x = a" and "push_bit 4 (x AND 3) OR drop_bit 4 y = b"
    and "push_bit 2 (y AND 15) OR drop_bit 6 z = c" and "z AND 63 = d"
  unfolding x_def y_def z_def
  by (rule u8_eqI; drule less8_cases; elim disjE; simp add: u8_bits assms(1-4))+

lemma group_decode:
  fixes x y z :: u8
  defines "a \<equiv> drop_bit 2 x" and "b \<equiv> push_bit 4 (x AND 3) OR drop_bit 4 y"
    and "c \<equiv> push_bit 2 (y AND 15) OR drop_bit 6 z" and "d \<equiv> z AND 63"
  shows "push_bit 2 a OR drop_bit 4 b = x" and "push_bit 4 b OR drop_bit 2 c = y"
    and "push_bit 6 c OR d = z"
  unfolding a_def b_def c_def d_def
  by (rule u8_eqI; drule less8_cases; elim disjE; simp add: u8_bits)+

lemma tail_encode:
  fixes a b c :: u8
  assumes "a < 64" "b < 64" "c < 64" "c AND 3 = 0"
  defines "x \<equiv> push_bit 2 a OR drop_bit 4 b" and "y \<equiv> push_bit 4 b OR drop_bit 2 c"
  shows "drop_bit 2 x = a" and "push_bit 4 (x AND 3) OR drop_bit 4 y = b"
    and "push_bit 2 (y AND 15) = c"
proof -
  have "\<not> bit c 0" "\<not> bit c 1"
    using assms(4) bit_and_iff [of c 3 0] bit_and_iff [of c 3 1] by simp_all
  then show "drop_bit 2 x = a" and "push_bit 4 (x AND 3) OR drop_bit 4 y = b"
    and "push_bit 2 (y AND 15) = c"
    unfolding x_def y_def
    by - (rule u8_eqI; drule less8_cases; elim disjE; simp add: u8_bits assms(1-3))+
qed

lemma tail_decode:
  fixes x y :: u8
  defines "a \<equiv> drop_bit 2 x" and "b \<equiv> push_bit 4 (x AND 3) OR drop_bit 4 y"
    and "c \<equiv> push_bit 2 (y AND 15)"
  shows "push_bit 2 a OR drop_bit 4 b = x" and "push_bit 4 b OR drop_bit 2 c = y"
    and "c AND 3 = 0"
  unfolding a_def b_def c_def
  by (rule u8_eqI; drule less8_cases; elim disjE; simp add: u8_bits)+

lemma u8_high: "8 \<le> n \<Longrightarrow> \<not> bit x n" for x :: u8
  using bit_imp_le_length [of x n] by auto

lemma six_bits:
  fixes x y z :: u8
  shows "drop_bit 2 x < 64" "push_bit 4 (x AND 3) OR drop_bit 4 y < 64"
    "push_bit 2 (y AND 15) OR drop_bit 6 z < 64" "z AND 63 < 64" "push_bit 2 (y AND 15) < 64"
proof -
  have h: "v < 64" if "\<not> bit v 6" "\<not> bit v 7" for v :: u8
  proof -
    have "v AND 63 = v"
      using that by - (rule u8_eqI; drule less8_cases; elim disjE; simp add: u8_bits)
    moreover have "v AND 63 \<le> 63" by (rule word_and_le1)
    ultimately show ?thesis by (simp add: word_le_nat_alt word_less_nat_alt)
  qed
  show "drop_bit 2 x < 64" "push_bit 4 (x AND 3) OR drop_bit 4 y < 64"
    "push_bit 2 (y AND 15) OR drop_bit 6 z < 64" "z AND 63 < 64" "push_bit 2 (y AND 15) < 64"
    by (rule h; simp add: u8_bits u8_high)+
qed

section \<open>Characters of the alphabet\<close>

lemma alphabet_length: "length BASE64_ALPHABET = 64"
  by (simp add: BASE64_ALPHABET_def)

lemma alphabet_distinct: "distinct BASE64_ALPHABET"
  by (simp add: BASE64_ALPHABET_def)

lemma position_Some: "position x ys = Some n \<Longrightarrow> n < length ys \<and> ys ! n = x"
  by (induction ys arbitrary: n) (auto split: if_splits)

lemma position_nth: "distinct ys \<Longrightarrow> n < length ys \<Longrightarrow> position (ys ! n) ys = Some n"
  by (induction ys arbitrary: n) (auto simp: nth_Cons split: nat.splits)

lemma base64_value_Some:
  assumes "base64_value b = Some v"
  shows "v < 64" and "base64_char v = b"
proof -
  from assms obtain n where n: "position b BASE64_ALPHABET = Some n" and v: "v = of_nat n"
    by (auto simp: base64_value_def)
  from position_Some [OF n] have "n < 64" "BASE64_ALPHABET ! n = b" by (auto simp: alphabet_length)
  moreover from \<open>n < 64\<close> have "unat v = n" by (simp add: v unsigned_of_nat take_bit_nat_eq_self)
  ultimately show "v < 64" "base64_char v = b" by (simp_all add: word_less_nat_alt base64_char_def)
qed

lemma base64_value_char: "v < 64 \<Longrightarrow> base64_value (base64_char v) = Some v"
  by (simp add: base64_value_def base64_char_def position_nth alphabet_distinct alphabet_length
      word_less_nat_alt)

lemma decode_values_ok:
  "decode_values i s = Inr vs \<Longrightarrow> list_all (\<lambda>v. v < 64) vs \<and> s = map base64_char vs"
  by (induction s arbitrary: i vs)
    (auto simp: and_then_def split: option.splits sum.splits dest: base64_value_Some)

lemma decode_values_map:
  "list_all (\<lambda>v. v < 64) vs \<Longrightarrow> decode_values i (map base64_char vs) = Inr vs"
  by (induction vs arbitrary: i) (auto simp: and_then_def base64_value_char)

lemma dvd_Suc: "4 dvd Suc (Suc (Suc (Suc n))) \<longleftrightarrow> 4 dvd n" "3 dvd Suc (Suc (Suc n)) \<longleftrightarrow> 3 dvd n"
  by presburger+

lemma encode_decode_groups:
  "4 dvd length vs \<Longrightarrow> list_all (\<lambda>v. v < 64) vs \<Longrightarrow>
     encode_groups (decode_groups vs @ bs) = vs @ encode_groups bs"
proof (induction vs rule: decode_groups.induct)
  case (1 a b c d vs)
  from "1.prems" have g: "a < 64" "b < 64" "c < 64" "d < 64" by simp_all
  from "1.prems" have "4 dvd length vs" "list_all (\<lambda>v. v < 64) vs"
    by (simp_all add: dvd_Suc)
  from "1.IH" [OF this] show ?case
    by (simp only: decode_groups.simps append_Cons encode_groups.simps group_encode [OF g])
qed (auto dest: dvd_imp_le)

lemma length_decode_groups: "4 dvd length vs \<Longrightarrow> 4 * length (decode_groups vs) = 3 * length vs"
  by (induction vs rule: decode_groups.induct) (auto simp: dvd_Suc dest: dvd_imp_le)

lemma encode_groups_append:
  "3 dvd length bs \<Longrightarrow> encode_groups (bs @ cs) = encode_groups bs @ encode_groups cs"
  by (induction bs rule: encode_groups.induct) (auto simp: dvd_Suc dest: dvd_imp_le)

lemma length_encode_groups: "3 dvd length bs \<Longrightarrow> 3 * length (encode_groups bs) = 4 * length bs"
  by (induction bs rule: encode_groups.induct) (auto simp: dvd_Suc dest: dvd_imp_le)

lemma decode_encode_groups: "3 dvd length bs \<Longrightarrow> decode_groups (encode_groups bs) = bs"
proof (induction bs rule: encode_groups.induct)
  case (1 x y z bs)
  from "1.prems" have "3 dvd length bs" by (simp add: dvd_Suc)
  from "1.IH" [OF this] show ?case
    by (simp only: encode_groups.simps decode_groups.simps group_decode)
qed (auto dest: dvd_imp_le)

lemma encode_groups_six: "list_all (\<lambda>v. v < 64) (encode_groups bs)"
  by (induction bs rule: encode_groups.induct)
    (simp_all only: encode_groups.simps list.pred_inject six_bits simp_thms,
     simp add: six_bits(2) [of _ 0, simplified])

text \<open>What the decoder accepts is the canonical encoding of the 32 bytes it returns.\<close>

lemma decode_sha256_ok:
  assumes "decode_sha256_base64 d = Inr bs"
  shows "length bs = 32" and "base64_encode bs = d"
proof -
  from assms obtain vs where len: "length d = 43" and vs: "decode_values 0 d = Inr vs"
    and z: "vs ! 42 AND 3 = 0"
    and bs: "bs = decode_groups (take 40 vs)
      @ [push_bit 2 (vs ! 40) OR drop_bit 4 (vs ! 41), push_bit 4 (vs ! 41) OR drop_bit 2 (vs ! 42)]"
    by (auto simp: decode_sha256_base64_def and_then_def Let_def split: if_splits sum.splits)
  from decode_values_ok [OF vs] have six: "list_all (\<lambda>v. v < 64) vs" and d: "d = map base64_char vs"
    by auto
  with len have l: "length vs = 43" by simp
  then have split: "vs = take 40 vs @ [vs ! 40, vs ! 41, vs ! 42]"
    using take_Suc_conv_app_nth [of 40 vs] take_Suc_conv_app_nth [of 41 vs]
      take_Suc_conv_app_nth [of 42 vs] by simp
  show "length bs = 32" using length_decode_groups [of "take 40 vs"] l by (simp add: bs)
  have t: "vs ! 40 < 64" "vs ! 41 < 64" "vs ! 42 < 64" using six l by (simp_all add: list_all_length)
  have "list_all (\<lambda>v. v < 64) (take 40 vs)" using six by (auto simp: list_all_iff dest: in_set_takeD)
  with l have "encode_groups bs = take 40 vs
      @ encode_groups [push_bit 2 (vs ! 40) OR drop_bit 4 (vs ! 41), push_bit 4 (vs ! 41) OR drop_bit 2 (vs ! 42)]"
    by (simp only: bs) (rule encode_decode_groups, simp_all)
  also have "\<dots> = take 40 vs @ [vs ! 40, vs ! 41, vs ! 42]"
    by (simp only: encode_groups.simps tail_encode [OF t z])
  finally show "base64_encode bs = d" using d split by (simp add: base64_encode_def)
qed

lemma decode_sha256_values:
  assumes "decode_values 0 d = Inr (t @ [a, b, c])" and "length t = 40" and "length d = 43"
    and "c AND 3 = 0"
  shows "decode_sha256_base64 d =
    Inr (decode_groups t @ [push_bit 2 a OR drop_bit 4 b, push_bit 4 b OR drop_bit 2 c])"
  using assms by (simp add: decode_sha256_base64_def and_then_def Let_def nth_append)

lemma decode_sha256_encode:
  assumes "length bs = 32"
  shows "decode_sha256_base64 (base64_encode bs) = Inr bs"
proof -
  define x y where "x = bs ! 30" and "y = bs ! 31"
  have split: "bs = take 30 bs @ [x, y]"
    using take_Suc_conv_app_nth [of 30 bs] take_Suc_conv_app_nth [of 31 bs] assms
    by (simp add: x_def y_def)
  let ?t = "encode_groups (take 30 bs)"
  have enc: "encode_groups bs = ?t @ encode_groups [x, y]"
    by (subst split) (rule encode_groups_append, simp add: assms)
  have len: "length ?t = 40" using length_encode_groups [of "take 30 bs"] assms by simp
  have vals: "decode_values 0 (base64_encode bs) = Inr (?t @ encode_groups [x, y])"
    unfolding base64_encode_def enc [symmetric] by (rule decode_values_map) (rule encode_groups_six)
  have "decode_groups ?t = take 30 bs" by (rule decode_encode_groups) (simp add: assms)
  moreover have "length (base64_encode bs) = 43" by (simp add: base64_encode_def enc len)
  ultimately show ?thesis
    using decode_sha256_values [OF vals [unfolded encode_groups.simps] len _ tail_decode(3)] split
    by (simp only: tail_decode)
qed

section \<open>Valid fingerprints\<close>

lemma parse_fingerprint_Inr:
  "parse_fingerprint raw = Inr k \<longleftrightarrow>
     k = KeyFingerprint raw \<and> (\<exists>bs. length bs = 32 \<and> raw = ''SHA256:'' @ base64_encode bs)"
proof
  assume "parse_fingerprint raw = Inr k"
  then obtain d bs where "strip_prefix raw ''SHA256:'' = Some d" "decode_sha256_base64 d = Inr bs"
    "k = KeyFingerprint raw"
    by (auto simp: parse_fingerprint_def and_then_def ok_or_def split: option.splits sum.splits)
  then show "k = KeyFingerprint raw \<and> (\<exists>bs. length bs = 32 \<and> raw = ''SHA256:'' @ base64_encode bs)"
    using decode_sha256_ok by (metis strip_prefix_Some)
next
  assume "k = KeyFingerprint raw \<and> (\<exists>bs. length bs = 32 \<and> raw = ''SHA256:'' @ base64_encode bs)"
  then show "parse_fingerprint raw = Inr k"
    by (auto simp: parse_fingerprint_def and_then_def ok_or_def strip_prefix_def decode_sha256_encode)
qed

lemma valid_fingerprint_iff:
  "valid_fingerprint k \<longleftrightarrow> (\<exists>bs. length bs = 32 \<and> fp_as_str k = ''SHA256:'' @ base64_encode bs)"
  by (auto simp: valid_fingerprint_def parse_fingerprint_Inr)

lemma parse_fingerprint_valid: "parse_fingerprint raw = Inr k \<Longrightarrow> valid_fingerprint k"
  by (auto simp: valid_fingerprint_def parse_fingerprint_Inr)

lemma alphabet_plain: "plain_ascii BASE64_ALPHABET"
  by (simp add: plain_ascii_def BASE64_ALPHABET_def)

lemma base64_encode_plain: "plain_ascii (base64_encode bs)"
proof -
  have h: "plain_ascii (map base64_char vs)" if "list_all (\<lambda>v. v < 64) vs" for vs
    using that alphabet_plain
    by (auto simp: plain_ascii_def list_all_iff base64_char_def alphabet_length word_less_nat_alt)
  show ?thesis unfolding base64_encode_def by (rule h) (rule encode_groups_six)
qed

lemma length_base64_encode: "length bs = 32 \<Longrightarrow> length (base64_encode bs) = 43"
  using decode_sha256_encode [of bs] by (auto simp: decode_sha256_base64_def split: if_splits)

lemma fingerprint_plain: "valid_fingerprint k \<Longrightarrow> plain_ascii (fp_as_str k)"
  using base64_encode_plain by (auto simp: valid_fingerprint_iff plain_ascii_def)

lemma fingerprint_length: "valid_fingerprint k \<Longrightarrow> length (fp_as_str k) = 50"
  by (auto simp: valid_fingerprint_iff length_base64_encode)

text \<open>
  C29. A fingerprint is accepted exactly when it is the prefix \<open>SHA256:\<close> followed by the
  canonical unpadded base64 encoding of 32 bytes, and it is kept as it was given; no two accepted
  texts denote the same digest.
\<close>

theorem parse_fingerprint_accepts_canonical:
  "parse_fingerprint raw = Inr k \<longleftrightarrow>
     k = KeyFingerprint raw \<and> (\<exists>!bs. length bs = 32 \<and> raw = ''SHA256:'' @ base64_encode bs)"
proof -
  let ?P = "\<lambda>bs. length bs = 32 \<and> raw = ''SHA256:'' @ base64_encode bs"
  have same: "bs = cs" if "?P bs" "?P cs" for bs cs
  proof -
    have "base64_encode bs = base64_encode cs" using that by simp
    with decode_sha256_encode [of bs] decode_sha256_encode [of cs] that have "Inr bs = (Inr cs :: (fingerprint_error, u8 list) result)"
      by (metis (no_types))
    then show ?thesis by (rule Inr_inject)
  qed
  have "(\<exists>bs. ?P bs) \<longleftrightarrow> (\<exists>!bs. ?P bs)"
  proof
    show "\<exists>bs. ?P bs \<Longrightarrow> \<exists>!bs. ?P bs" by (erule ex_ex1I) (rule same)
    show "\<exists>!bs. ?P bs \<Longrightarrow> \<exists>bs. ?P bs" by (rule ex1_implies_ex)
  qed
  then show ?thesis unfolding parse_fingerprint_Inr by (rule arg_cong)
qed

end
