(* ===== verification/Metadata.thy ===== *)
theory Metadata
  imports Sandbox_Id Fingerprint
begin

text \<open>
  The durable record of one sandbox (\<open>sandbox/metadata.rs\<close>): its states, its encoder, and the
  decoder with every refusal in the order of the code. The TOML reader is the one of
  \<open>Platform_Env\<close>.
\<close>

section \<open>Model\<close>

definition METADATA_VERSION :: nat where
  "METADATA_VERSION = 1"

definition METADATA_MAX_BYTES :: nat where
  "METADATA_MAX_BYTES = 16 * 1024"

datatype state = Active | Deleting

fun state_as_str :: "state \<Rightarrow> string" where
  "state_as_str Active = ''active''"
| "state_as_str Deleting = ''deleting''"

record metadata =
  md_id :: sandbox_id
  md_owner :: key_fingerprint
  md_state :: state

datatype metadata_error =
    MetaTooLarge nat
  | MetaNotUtf8
  | MetaToml string
  | MetaUnsupportedVersion u32
  | MetaInvalidId string
  | MetaMismatchedId sandbox_id sandbox_id
  | MetaInvalidOwner string
  | MetaInvalidState string

definition parse_state :: "string \<Rightarrow> (metadata_error, state) result" where
  "parse_state raw =
     (if raw = ''active'' then Inr Active
      else if raw = ''deleting'' then Inr Deleting
      else Inl (MetaInvalidState raw))"

definition metadata_active :: "sandbox_id \<Rightarrow> key_fingerprint \<Rightarrow> metadata" where
  "metadata_active i owner = \<lparr>md_id = i, md_owner = owner, md_state = Active\<rparr>"

definition metadata_with_state :: "metadata \<Rightarrow> state \<Rightarrow> metadata" where
  "metadata_with_state m s = m\<lparr>md_state := s\<rparr>"

definition is_active :: "metadata \<Rightarrow> bool" where
  "is_active m \<longleftrightarrow> md_state m = Active"

definition is_deleting :: "metadata \<Rightarrow> bool" where
  "is_deleting m \<longleftrightarrow> md_state m = Deleting"

definition metadata_encode :: "env \<Rightarrow> metadata \<Rightarrow> string" where
  "metadata_encode E m =
     ''version = '' @ display_nat METADATA_VERSION @ newline
     @ ''id = '' @ debug_str (unicode_printable E) (id_as_str (md_id m)) @ newline
     @ ''owner = '' @ debug_str (unicode_printable E) (fp_as_str (md_owner m)) @ newline
     @ ''state = '' @ debug_str (unicode_printable E) (state_as_str (md_state m)) @ newline"

record raw_metadata =
  rm_version :: u32
  rm_id :: string
  rm_owner :: string
  rm_state :: string

definition raw_metadata_of :: "toml_table \<Rightarrow> raw_metadata option" where
  "raw_metadata_of t =
     (if only_fields t [''version'', ''id'', ''owner'', ''state''] then
        (case (u32_field t ''version'', string_field t ''id'', string_field t ''owner'',
               string_field t ''state'') of
           (Some v, Some i, Some ow, Some st) \<Rightarrow>
             Some \<lparr>rm_version = v, rm_id = i, rm_owner = ow, rm_state = st\<rparr>
         | _ \<Rightarrow> None)
      else None)"

definition toml_metadata :: "env \<Rightarrow> string \<Rightarrow> (metadata_error, raw_metadata) result" where
  "toml_metadata E text =
     (case toml_table_of E text of
        Inl e \<Rightarrow> Inl (MetaToml e)
      | Inr t \<Rightarrow> ok_or (MetaToml (serde_error_of E text)) (raw_metadata_of t))"

definition metadata_decode ::
  "env \<Rightarrow> string \<Rightarrow> sandbox_id \<Rightarrow> (metadata_error, metadata) result" where
  "metadata_decode E bytes expected =
     (if METADATA_MAX_BYTES < length bytes then Inl (MetaTooLarge (length bytes))
      else and_then (ok_or MetaNotUtf8 (from_utf8 bytes)) (\<lambda>text.
      and_then (toml_metadata E text) (\<lambda>raw.
      if unat (rm_version raw) \<noteq> METADATA_VERSION
      then Inl (MetaUnsupportedVersion (rm_version raw))
      else and_then (map_err (\<lambda>e. MetaInvalidId (display_invalid_id e)) (parse_id (rm_id raw))) (\<lambda>i.
      if i \<noteq> expected then Inl (MetaMismatchedId expected i)
      else and_then (map_err (\<lambda>e. MetaInvalidOwner (display_fingerprint_error e))
                             (parse_fingerprint (rm_owner raw))) (\<lambda>owner.
      and_then (parse_state (rm_state raw)) (\<lambda>st.
      Inr \<lparr>md_id = i, md_owner = owner, md_state = st\<rparr>))))))"

definition display_metadata_error :: "env \<Rightarrow> metadata_error \<Rightarrow> string" where
  "display_metadata_error E e =
     (case e of
        MetaTooLarge n \<Rightarrow> ''metadata is '' @ display_nat n @ '' bytes, limit is ''
                           @ display_nat METADATA_MAX_BYTES
      | MetaNotUtf8 \<Rightarrow> ''metadata is not valid UTF-8''
      | MetaToml s \<Rightarrow> ''metadata is not valid TOML: '' @ s
      | MetaUnsupportedVersion v \<Rightarrow>
          ''metadata version '' @ display_nat (unat v) @ '' is unsupported''
      | MetaInvalidId r \<Rightarrow> ''metadata id is invalid: '' @ r
      | MetaMismatchedId expected found \<Rightarrow>
          ''metadata id does not match directory '' @ id_as_str expected
            @ '' (found '' @ id_as_str found @ '')''
      | MetaInvalidOwner r \<Rightarrow> ''metadata owner is invalid: '' @ r
      | MetaInvalidState s \<Rightarrow>
          ''metadata state '' @ debug_str (unicode_printable E) s @ '' is invalid'')"

section \<open>Well-formed records and what their document denotes\<close>

definition valid_metadata :: "metadata \<Rightarrow> bool" where
  "valid_metadata m \<longleftrightarrow> valid_id (md_id m) \<and> valid_fingerprint (md_owner m)"

definition metadata_table :: "metadata \<Rightarrow> toml_table" where
  "metadata_table m =
     [(''version'', TomlInteger 1), (''id'', TomlString (id_as_str (md_id m))),
      (''owner'', TomlString (fp_as_str (md_owner m))),
      (''state'', TomlString (state_as_str (md_state m)))]"

text \<open>
  What the code relies on in the TOML crate: the document the encoder writes for a well-formed
  record is read as the table with its four keys.
\<close>

definition toml_reads_metadata :: "env \<Rightarrow> metadata \<Rightarrow> bool" where
  "toml_reads_metadata E m \<longleftrightarrow> toml_table_of E (metadata_encode E m) = Inr (metadata_table m)"

section \<open>Properties\<close>

lemma state_plain: "plain_ascii (state_as_str s)"
  by (cases s) (simp_all add: plain_ascii_def)

lemma parse_state_as_str [simp]: "parse_state (state_as_str s) = Inr s"
  by (cases s) (simp_all add: parse_state_def)

lemma metadata_encode_plain:
  assumes "valid_metadata m"
  shows "metadata_encode E m = ''version = 1'' @ newline
     @ ''id = '' @ [CHR 0x22] @ id_as_str (md_id m) @ [CHR 0x22] @ newline
     @ ''owner = '' @ [CHR 0x22] @ fp_as_str (md_owner m) @ [CHR 0x22] @ newline
     @ ''state = '' @ [CHR 0x22] @ state_as_str (md_state m) @ [CHR 0x22] @ newline"
proof -
  have "display_nat 1 = ''1''" by code_simp
  with assms show ?thesis
    by (simp add: metadata_encode_def METADATA_VERSION_def debug_str_plain state_plain
        valid_metadata_def valid_id_def grammar_plain fingerprint_plain)
qed

lemma is_ascii_append [simp]: "is_ascii (a @ b) \<longleftrightarrow> is_ascii a \<and> is_ascii b"
  by (simp add: is_ascii_def)

lemma is_ascii_Cons [simp]: "is_ascii (c # s) \<longleftrightarrow> byte c < 128 \<and> is_ascii s"
  by (simp add: is_ascii_def)

lemma is_ascii_Nil [simp]: "is_ascii []"
  by (simp add: is_ascii_def)

lemma metadata_encode_ascii:
  assumes "valid_metadata m" shows "is_ascii (metadata_encode E m)"
  using assms by (simp add: metadata_encode_plain newline_def plain_ascii_is_ascii state_plain
      valid_metadata_def valid_id_def grammar_plain fingerprint_plain)

lemma metadata_encode_short:
  assumes "valid_metadata m" shows "length (metadata_encode E m) \<le> METADATA_MAX_BYTES"
proof -
  have "length (id_as_str (md_id m)) \<le> 64" using assms
    by (simp add: valid_metadata_def valid_id_def id_grammar_def)
  moreover have "length (fp_as_str (md_owner m)) = 50" using assms
    by (simp add: valid_metadata_def fingerprint_length)
  moreover have "length (state_as_str (md_state m)) \<le> 8" by (cases "md_state m") simp_all
  ultimately show ?thesis
    by (simp add: metadata_encode_plain [OF assms] METADATA_MAX_BYTES_def newline_def)
qed

lemma raw_metadata_of_table:
  "raw_metadata_of (metadata_table m) =
     Some \<lparr>rm_version = 1, rm_id = id_as_str (md_id m), rm_owner = fp_as_str (md_owner m),
           rm_state = state_as_str (md_state m)\<rparr>"
  by (simp add: raw_metadata_of_def metadata_table_def only_fields_def u32_field_def string_field_def)

lemma metadata_decode_encode:
  assumes "valid_metadata m" and "toml_reads_metadata E m"
  shows "metadata_decode E (metadata_encode E m) (md_id m) = Inr m"
  using assms metadata_encode_short [OF assms(1), of E] metadata_encode_ascii [OF assms(1), of E]
  by (simp add: metadata_decode_def toml_metadata_def toml_reads_metadata_def raw_metadata_of_table
      from_utf8_ascii and_then_def ok_or_def map_err_def METADATA_VERSION_def valid_metadata_def
      valid_fingerprint_def)

lemma metadata_decode_sound:
  assumes "metadata_decode E bytes i = Inr m"
  shows "md_id m = i" and "valid_metadata m" and "length bytes \<le> METADATA_MAX_BYTES"
  using assms
  by (auto simp: metadata_decode_def valid_metadata_def and_then_def ok_or_def map_err_def
      split: if_splits sum.splits option.splits
      dest: parse_id_valid parse_fingerprint_valid)

end
