(* ===== verification/Posix.thy ===== *)
theory Posix
  imports Platform_Env
begin

text \<open>
  The file-system primitives of \<open>sandbox/storage.rs\<close> over a file-system tree, and the fault
  injector. A directory descriptor is the path of the directory below the opened root: the code
  opens every directory through its parent without following links, and only the daemon renames
  entries there. Every call first takes the next scheduled outcome: it proceeds, or it fails with
  an error code that the tree does not decide (\<open>EIO\<close>, \<open>ENOSPC\<close>, \<open>EACCES\<close> and so on) and no
  effect (a failing write leaves a prefix). A schedule that has run out lets every call proceed,
  so any pattern of I/O errors is some schedule. Files are created with the mode the caller asks
  for: the process umask is taken to leave the owner bits alone.
\<close>

unbundle bit_operations_syntax

section \<open>Errors and modes\<close>

definition errno_is :: "io_error \<Rightarrow> errno \<Rightarrow> bool" where
  "errno_is e n \<longleftrightarrow> e = OsError n"

fun display_io_error :: "env \<Rightarrow> io_error \<Rightarrow> string" where
  "display_io_error E (OsError n) = os_error_text E n"
| "display_io_error E (OtherError m) = m"

text \<open>The file-type bits of \<open>st_mode\<close>, and the masks the code applies.\<close>

definition S_IFMT :: u32 where "S_IFMT = 0xF000"
definition S_IFDIR :: u32 where "S_IFDIR = 0x4000"
definition S_IFREG :: u32 where "S_IFREG = 0x8000"
definition S_IFLNK :: u32 where "S_IFLNK = 0xA000"
definition S_IFIFO :: u32 where "S_IFIFO = 0x1000"

definition is_directory :: "u32 \<Rightarrow> bool" where
  "is_directory mode \<longleftrightarrow> mode AND S_IFMT = S_IFDIR"

definition is_regular :: "u32 \<Rightarrow> bool" where
  "is_regular mode \<longleftrightarrow> mode AND S_IFMT = S_IFREG"

text \<open>\<open>mode & 0o777\<close>; \<open>0o022\<close> is the mask of the group and world write bits.\<close>

definition mode_bits :: "u32 \<Rightarrow> u32" where
  "mode_bits mode = mode AND 0x1FF"

definition group_world_writable :: "u32 \<Rightarrow> bool" where
  "group_world_writable mode \<longleftrightarrow> mode_bits mode AND 0x12 \<noteq> 0"

section \<open>The tree\<close>

record fattr =
  fa_uid :: u32
  fa_perm :: u32

datatype node =
    RegFile fattr string
  | Directory fattr "(string \<times> node) list"
  | Symlink fattr
  | Fifo fattr

type_synonym dirents = "(string \<times> node) list"
type_synonym fd = "string list"

record stat =
  st_mode :: u32
  st_uid :: u32

fun stat_of :: "node \<Rightarrow> stat" where
  "stat_of (RegFile a _) = \<lparr>st_mode = S_IFREG OR mode_bits (fa_perm a), st_uid = fa_uid a\<rparr>"
| "stat_of (Directory a _) = \<lparr>st_mode = S_IFDIR OR mode_bits (fa_perm a), st_uid = fa_uid a\<rparr>"
| "stat_of (Symlink a) = \<lparr>st_mode = S_IFLNK OR mode_bits (fa_perm a), st_uid = fa_uid a\<rparr>"
| "stat_of (Fifo a) = \<lparr>st_mode = S_IFIFO OR mode_bits (fa_perm a), st_uid = fa_uid a\<rparr>"

fun node_at :: "node \<Rightarrow> fd \<Rightarrow> node option" where
  "node_at n [] = Some n"
| "node_at (Directory a cs) (p # ps) =
     (case map_of cs p of None \<Rightarrow> None | Some n \<Rightarrow> node_at n ps)"
| "node_at _ (p # ps) = None"

fun update_dir :: "(dirents \<Rightarrow> dirents) \<Rightarrow> fd \<Rightarrow> node \<Rightarrow> node" where
  "update_dir f [] (Directory a cs) = Directory a (f cs)"
| "update_dir f (p # ps) (Directory a cs) =
     Directory a (map (\<lambda>(k, n). (k, if k = p then update_dir f ps n else n)) cs)"
| "update_dir f _ n = n"

definition dir_put :: "string \<Rightarrow> node \<Rightarrow> dirents \<Rightarrow> dirents" where
  "dir_put k n cs =
     (if k \<in> fst ` set cs then map (\<lambda>(j, m). (j, if j = k then n else m)) cs else cs @ [(k, n)])"

definition dir_del :: "string \<Rightarrow> dirents \<Rightarrow> dirents" where
  "dir_del k cs = filter (\<lambda>(j, m). j \<noteq> k) cs"

section \<open>Fault injection\<close>

datatype fault_point =
    CreateSandboxDirectory | CreateWorkspace | MetadataTempCreate | MetadataWrite
  | MetadataFileSync | MetadataRename | MetadataParentSync | RegistryParentSync
  | DeleteEntry | DeleteRootSync
  | LeaseTempCreate | LeaseWrite | LeaseFileSync | LeaseRename | LeaseParentSync
  | LeaseUnlink | LeaseUnlinkSync

fun debug_fault_point :: "fault_point \<Rightarrow> string" where
  "debug_fault_point CreateSandboxDirectory = ''CreateSandboxDirectory''"
| "debug_fault_point CreateWorkspace = ''CreateWorkspace''"
| "debug_fault_point MetadataTempCreate = ''MetadataTempCreate''"
| "debug_fault_point MetadataWrite = ''MetadataWrite''"
| "debug_fault_point MetadataFileSync = ''MetadataFileSync''"
| "debug_fault_point MetadataRename = ''MetadataRename''"
| "debug_fault_point MetadataParentSync = ''MetadataParentSync''"
| "debug_fault_point RegistryParentSync = ''RegistryParentSync''"
| "debug_fault_point DeleteEntry = ''DeleteEntry''"
| "debug_fault_point DeleteRootSync = ''DeleteRootSync''"
| "debug_fault_point LeaseTempCreate = ''LeaseTempCreate''"
| "debug_fault_point LeaseWrite = ''LeaseWrite''"
| "debug_fault_point LeaseFileSync = ''LeaseFileSync''"
| "debug_fault_point LeaseRename = ''LeaseRename''"
| "debug_fault_point LeaseParentSync = ''LeaseParentSync''"
| "debug_fault_point LeaseUnlink = ''LeaseUnlink''"
| "debug_fault_point LeaseUnlinkSync = ''LeaseUnlinkSync''"

text \<open>
  A file system: the opened root (absent when it does not exist), the scheduled outcomes (with
  the number of bytes that reach the file before a failing write), the attached injector, if any,
  with the point it fails next, and the counter that names temporary files.
\<close>

record fsys =
  fs_root :: "node option"
  fs_outcomes :: "(nat \<times> nat) option list"
  fs_faults :: "fault_point option option"
  fs_counter :: u64

type_synonym 'a sys = "(fsys, io_error, 'a) io"

definition fail_once :: "fault_point \<Rightarrow> fsys \<Rightarrow> fsys" where
  "fail_once point s = (case fs_faults s of None \<Rightarrow> s | Some _ \<Rightarrow> s\<lparr>fs_faults := Some (Some point)\<rparr>)"

definition trip :: "fault_point \<Rightarrow> unit sys" where
  "trip point s =
     (if fs_faults s = Some (Some point)
      then (Inl (OtherError (''injected fault at '' @ debug_fault_point point)),
            s\<lparr>fs_faults := Some None\<rparr>)
      else (Inr (), s))"

section \<open>System calls\<close>

definition EINTR_CODE :: nat where "EINTR_CODE = 4"

definition scheduled_error :: "nat \<Rightarrow> io_error" where
  "scheduled_error c = OsError (if c = EINTR_CODE then EINTR else EOther c)"

definition syscall :: "'a sys \<Rightarrow> 'a sys" where
  "syscall m s =
     (case fs_outcomes s of
        [] \<Rightarrow> m s
      | None # rest \<Rightarrow> m (s\<lparr>fs_outcomes := rest\<rparr>)
      | Some (e, n) # rest \<Rightarrow> (Inl (scheduled_error e), s\<lparr>fs_outcomes := rest\<rparr>))"

text \<open>A call that its caller repeats while it is interrupted.\<close>

definition uninterrupted :: "fsys \<Rightarrow> fsys" where
  "uninterrupted s = s\<lparr>fs_outcomes :=
     dropWhile (\<lambda>out. case out of Some (c, n) \<Rightarrow> c = EINTR_CODE | None \<Rightarrow> False) (fs_outcomes s)\<rparr>"

definition syscall_retry :: "'a sys \<Rightarrow> 'a sys" where
  "syscall_retry m s = syscall m (uninterrupted s)"

definition lookup :: "node option \<Rightarrow> fd \<Rightarrow> node option" where
  "lookup r p = (case r of None \<Rightarrow> None | Some n \<Rightarrow> node_at n p)"

definition node_in :: "fsys \<Rightarrow> fd \<Rightarrow> node option" where
  "node_in s p = lookup (fs_root s) p"

definition children :: "fsys \<Rightarrow> fd \<Rightarrow> dirents option" where
  "children s p = (case node_in s p of Some (Directory a cs) \<Rightarrow> Some cs | _ \<Rightarrow> None)"

definition modify_dir :: "fd \<Rightarrow> (dirents \<Rightarrow> dirents) \<Rightarrow> fsys \<Rightarrow> fsys" where
  "modify_dir p f s = s\<lparr>fs_root := map_option (update_dir f p) (fs_root s)\<rparr>"

text \<open>\<open>CString::new\<close> refuses a component with a NUL byte.\<close>

definition c_name :: "string \<Rightarrow> string sys" where
  "c_name name =
     (if CHR 0x00 \<in> set name then io_err (OtherError ''path component contains NUL'')
      else io_ok name)"

definition fstat :: "fd \<Rightarrow> stat sys" where
  "fstat p = syscall (\<lambda>s.
     (case node_in s p of None \<Rightarrow> (Inl (OsError ENOENT), s) | Some n \<Rightarrow> (Inr (stat_of n), s)))"

text \<open>\<open>open\<close> with \<open>O_NOFOLLOW\<close>: a link as the last component is \<open>ELOOP\<close>.\<close>

definition open_nofollow :: "fd \<Rightarrow> fd sys" where
  "open_nofollow p = syscall (\<lambda>s.
     (case node_in s p of
        None \<Rightarrow> (Inl (OsError ENOENT), s)
      | Some (Symlink a) \<Rightarrow> (Inl (OsError ELOOP), s)
      | Some n \<Rightarrow> (Inr p, s)))"

definition directory_or_enotdir :: "fd \<Rightarrow> fd sys" where
  "directory_or_enotdir p =
     io_bind (fstat p) (\<lambda>st. if is_directory (st_mode st) then io_ok p else io_err (OsError ENOTDIR))"

text \<open>The root is opened by its path, which only has to be free of NUL bytes.\<close>

definition path_cstring :: "string \<Rightarrow> string sys" where
  "path_cstring path =
     (if CHR 0x00 \<in> set path then io_err (OtherError ''path contains NUL'') else io_ok path)"

definition open_directory_path :: "string \<Rightarrow> fd sys" where
  "open_directory_path path =
     io_bind (path_cstring path) (\<lambda>_. io_bind (open_nofollow []) directory_or_enotdir)"

definition open_directory_at :: "fd \<Rightarrow> string \<Rightarrow> fd sys" where
  "open_directory_at parent name =
     io_bind (c_name name) (\<lambda>n. io_bind (open_nofollow (parent @ [n])) directory_or_enotdir)"

definition stat_at :: "fd \<Rightarrow> string \<Rightarrow> stat sys" where
  "stat_at parent name = io_bind (c_name name) (\<lambda>n. fstat (parent @ [n]))"

definition create_file_at :: "env \<Rightarrow> fd \<Rightarrow> string \<Rightarrow> u32 \<Rightarrow> fd sys" where
  "create_file_at E parent name mode =
     io_bind (c_name name) (\<lambda>n. syscall (\<lambda>s.
       (case children s parent of
          None \<Rightarrow> (Inl (OsError ENOENT), s)
        | Some cs \<Rightarrow>
            if n \<in> fst ` set cs then (Inl (OsError EEXIST), s)
            else (Inr (parent @ [n]),
                  modify_dir parent (dir_put n (RegFile \<lparr>fa_uid = env_euid E, fa_perm = mode\<rparr> [])) s))))"

text \<open>\<open>write_all\<close> to the file created last under \<open>parent\<close>; a failure keeps a prefix.\<close>

definition append_file :: "string \<Rightarrow> string \<Rightarrow> dirents \<Rightarrow> dirents" where
  "append_file name bytes cs =
     (case map_of cs name of Some (RegFile a old) \<Rightarrow> dir_put name (RegFile a (old @ bytes)) cs | _ \<Rightarrow> cs)"

definition write_all :: "fd \<Rightarrow> string \<Rightarrow> string \<Rightarrow> unit sys" where
  "write_all parent name bytes s =
     (let t = uninterrupted s in
      case fs_outcomes t of
        Some (e, n) # rest \<Rightarrow>
          (Inl (scheduled_error e),
           modify_dir parent (append_file name (take n bytes)) (t\<lparr>fs_outcomes := rest\<rparr>))
      | None # rest \<Rightarrow> (Inr (), modify_dir parent (append_file name bytes) (t\<lparr>fs_outcomes := rest\<rparr>))
      | [] \<Rightarrow> (Inr (), modify_dir parent (append_file name bytes) t))"

definition sync_file :: "unit sys" where
  "sync_file = syscall_retry (io_ok ())"

definition sync_directory :: "fd \<Rightarrow> unit sys" where
  "sync_directory p = syscall_retry (io_ok ())"

definition mkdir_at :: "env \<Rightarrow> fd \<Rightarrow> string \<Rightarrow> u32 \<Rightarrow> unit sys" where
  "mkdir_at E parent name mode =
     io_bind (c_name name) (\<lambda>n. syscall (\<lambda>s.
       (case children s parent of
          None \<Rightarrow> (Inl (OsError ENOENT), s)
        | Some cs \<Rightarrow>
            if n \<in> fst ` set cs then (Inl (OsError EEXIST), s)
            else (Inr (),
                  modify_dir parent (dir_put n (Directory \<lparr>fa_uid = env_euid E, fa_perm = mode\<rparr> [])) s))))"

text \<open>\<open>renameat\<close> within one directory, as the code calls it, replacing the target atomically.\<close>

definition rename_in :: "fd \<Rightarrow> string \<Rightarrow> string \<Rightarrow> unit sys" where
  "rename_in parent from to =
     io_bind (c_name from) (\<lambda>a. io_bind (c_name to) (\<lambda>b. syscall (\<lambda>s.
       (case children s parent of
          None \<Rightarrow> (Inl (OsError ENOENT), s)
        | Some cs \<Rightarrow>
            (case map_of cs a of
               None \<Rightarrow> (Inl (OsError ENOENT), s)
             | Some n \<Rightarrow>
                 (case map_of cs b of
                    Some (Directory _ _) \<Rightarrow> (Inl (OsError EISDIR), s)
                  | _ \<Rightarrow> (Inr (), modify_dir parent (\<lambda>cs. dir_put b n (dir_del a cs)) s)))))))"

text \<open>\<open>unlinkat\<close>, with or without \<open>AT_REMOVEDIR\<close>; it never follows a link.\<close>

definition unlink_at :: "fd \<Rightarrow> string \<Rightarrow> bool \<Rightarrow> unit sys" where
  "unlink_at parent name removedir =
     io_bind (c_name name) (\<lambda>n. syscall (\<lambda>s.
       (case children s parent of
          None \<Rightarrow> (Inl (OsError ENOENT), s)
        | Some cs \<Rightarrow>
            (case map_of cs n of
               None \<Rightarrow> (Inl (OsError ENOENT), s)
             | Some (Directory a []) \<Rightarrow>
                 if removedir then (Inr (), modify_dir parent (dir_del n) s)
                 else (Inl (OsError EISDIR), s)
             | Some (Directory a (c # ds)) \<Rightarrow>
                 (Inl (OsError (if removedir then ENOTEMPTY else EISDIR)), s)
             | Some m \<Rightarrow>
                 if removedir then (Inl (OsError ENOTDIR), s)
                 else (Inr (), modify_dir parent (dir_del n) s)))))"

definition read_file_at :: "fd \<Rightarrow> string \<Rightarrow> nat \<Rightarrow> string sys" where
  "read_file_at parent name max_bytes =
     io_bind (c_name name) (\<lambda>n. io_bind (open_nofollow (parent @ [n])) (\<lambda>p.
     io_bind (syscall_retry (\<lambda>s.
       (case node_in s p of
          Some (RegFile a bytes) \<Rightarrow> (Inr (take (max_bytes + 1) bytes), s)
        | Some (Directory a cs) \<Rightarrow> (Inl (OsError EISDIR), s)
        | _ \<Rightarrow> (Inr [], s)))) (\<lambda>bytes.
     if max_bytes < length bytes then io_err (OtherError ''metadata exceeds the size limit'')
     else io_ok bytes)))"

text \<open>\<open>readdir\<close> also yields the two dot entries, which the code drops.\<close>

definition read_names :: "fd \<Rightarrow> string list sys" where
  "read_names p = syscall (\<lambda>s.
     (case children s p of
        None \<Rightarrow> (Inl (OsError ENOTDIR), s)
      | Some cs \<Rightarrow>
          (Inr (filter (\<lambda>n. n \<noteq> ''.'' \<and> n \<noteq> ''..'') (''.'' # ''..'' # map fst cs)), s)))"

section \<open>Publishing through a temporary file\<close>

text \<open>\<open>TEMP_COUNTER.fetch_add(1)\<close> wraps at 64 bits.\<close>

definition fetch_counter :: "(fsys, 'e, u64) io" where
  "fetch_counter s = (Inr (fs_counter s), s\<lparr>fs_counter := fs_counter s + 1\<rparr>)"

text \<open>After a failure the temporary file is unlinked and the outcome of that is dropped.\<close>

definition with_cleanup :: "('s, 'e, 'a) io \<Rightarrow> ('s, 'f, 'b) io \<Rightarrow> ('s, 'e, 'a) io" where
  "with_cleanup m c s =
     (case m s of (Inl e, t) \<Rightarrow> (Inl e, snd (c t)) | (Inr x, t) \<Rightarrow> (Inr x, t))"

end
