(* ===== verification/Posix_Rules.thy ===== *)
theory Posix_Rules
  imports Posix
begin

text \<open>
  What the system calls of \<open>Posix\<close> do, as one rule of the Hoare-style judgement each: from a
  tree, the value and the tree a call leaves, and which errors leave which tree.
\<close>

unbundle bit_operations_syntax

section \<open>Modes and directory entries\<close>

lemmas mode_defs = is_directory_def is_regular_def mode_bits_def S_IFMT_def S_IFDIR_def S_IFREG_def
  S_IFLNK_def S_IFIFO_def

lemma mode_and: "((t::u32) OR (p AND 0x1FF)) AND m = (t AND m) OR (p AND (0x1FF AND m))"
  by (simp add: bit.conj_disj_distrib2 and.assoc)

lemma is_directory_stat_of [simp]:
  "is_directory (st_mode (stat_of n)) \<longleftrightarrow> (\<exists>a cs. n = Directory a cs)"
  by (cases n) (simp_all add: mode_defs mode_and)

lemma is_regular_stat_of [simp]:
  "is_regular (st_mode (stat_of n)) \<longleftrightarrow> (\<exists>a bytes. n = RegFile a bytes)"
  by (cases n) (simp_all add: mode_defs mode_and)

lemma mode_bits_stat_of [simp]:
  "mode_bits (st_mode (stat_of (RegFile a bytes))) = mode_bits (fa_perm a)"
  "mode_bits (st_mode (stat_of (Directory a cs))) = mode_bits (fa_perm a)"
  by (simp_all add: mode_defs mode_and)

lemma group_world_writable_stat_of [simp]:
  "group_world_writable (st_mode (stat_of (RegFile a bytes))) = group_world_writable (fa_perm a)"
  "group_world_writable (st_mode (stat_of (Directory a cs))) = group_world_writable (fa_perm a)"
  by (simp_all add: group_world_writable_def mode_bits_def)
    (simp_all add: mode_defs mode_and and.assoc)

lemma st_uid_stat_of [simp]:
  "st_uid (stat_of (RegFile a bytes)) = fa_uid a"
  "st_uid (stat_of (Directory a cs)) = fa_uid a"
  by simp_all

declare stat_of.simps [simp del]

lemma map_of_dir_put [simp]: "map_of (dir_put k n cs) = (map_of cs)(k \<mapsto> n)"
proof -
  have put: "map_of (map (\<lambda>(j, m). (j, if j = k then n else m)) cs) j =
      (if j = k then map_option (\<lambda>_. n) (map_of cs j) else map_of cs j)" for j
    by (induction cs) auto
  show ?thesis
  proof (cases "k \<in> fst ` set cs")
    case True
    then obtain m where "map_of cs k = Some m" by (metis domIff dom_map_of_conv_image_fst not_None_eq)
    with True show ?thesis by (auto simp: dir_put_def put fun_eq_iff)
  next
    case False
    then have "map_of cs k = None" by (simp add: map_of_eq_None_iff)
    with False show ?thesis by (auto simp: dir_put_def fun_eq_iff map_add_def split: option.splits)
  qed
qed

lemma map_of_dir_del [simp]: "map_of (dir_del k cs) = (map_of cs)(k := None)"
  by (rule ext) (induction cs, auto simp: dir_del_def)

lemma names_dir_put [simp]: "fst ` set (dir_put k n cs) = insert k (fst ` set cs)"
  by (force simp: dir_put_def image_iff)

lemma names_dir_del [simp]: "fst ` set (dir_del k cs) = fst ` set cs - {k}"
  by (auto simp: dir_del_def image_iff)

lemma distinct_dir_put [simp]:
  "distinct (map fst cs) \<Longrightarrow> distinct (map fst (dir_put k n cs))"
  by (auto simp: dir_put_def case_prod_beta comp_def)

lemma distinct_dir_del [simp]:
  "distinct (map fst cs) \<Longrightarrow> distinct (map fst (dir_del k cs))"
  by (simp add: dir_del_def distinct_map_filter)

lemma lookup_Some_Nil [simp]: "lookup r [] = r"
  by (cases r) (simp_all add: lookup_def)

section \<open>Paths and updates\<close>

lemma map_of_update_entry:
  "map_of (map (\<lambda>(k, n). (k, if k = p then g n else n)) cs) q =
     (if q = p then map_option g (map_of cs q) else map_of cs q)"
  by (induction cs) auto

lemma lookup_Cons:
  "lookup r (p # ps) = (case r of Some (Directory a cs) \<Rightarrow> lookup (map_of cs p) ps | _ \<Rightarrow> None)"
  by (auto simp: lookup_def split: option.splits node.splits)

text \<open>An update of a directory is seen at that directory, and nowhere beside it.\<close>

lemma node_at_update_same:
  "node_at r p = Some (Directory a cs) \<Longrightarrow> node_at (update_dir f p r) p = Some (Directory a (f cs))"
proof (induction p arbitrary: r)
  case Nil
  then show ?case by simp
next
  case (Cons x p)
  then show ?case
    by (cases r) (auto simp: map_of_update_entry split: option.splits)
qed

lemma node_at_update_beside:
  "x \<noteq> y \<Longrightarrow> node_at (update_dir f (x # p) r) (y # q) = node_at r (y # q)"
  by (cases r) (auto simp: map_of_update_entry)

lemma node_at_append:
  "node_at r (p @ q) = (case node_at r p of None \<Rightarrow> None | Some n \<Rightarrow> node_at n q)"
  by (induction r p rule: node_at.induct) (auto split: option.splits)

lemma lookup_append: "lookup r (p @ q) = lookup (lookup r p) q"
  by (auto simp: lookup_def node_at_append split: option.splits)

lemma lookup_child:
  "lookup r p = Some (Directory a cs) \<Longrightarrow> lookup r (p @ [n]) = map_of cs n"
  by (simp add: lookup_append) (simp add: lookup_Cons)


section \<open>Rules of the system calls\<close>

abbreviation tree :: "node option \<Rightarrow> fsys \<Rightarrow> bool" where
  "tree r s \<equiv> fs_root s = r"

text \<open>An error the tree did not cause: a scheduled fault, an injected one, or a name with NUL.\<close>

fun io_fault :: "io_error \<Rightarrow> bool" where
  "io_fault (OsError (EOther c)) = True"
| "io_fault (OsError EINTR) = True"
| "io_fault (OsError _) = False"
| "io_fault (OtherError m) = True"

lemma trip_rule [io_rules]: "io_valid (tree r) (trip p) (\<lambda>_. tree r) (\<lambda>e s. io_fault e \<and> tree r s)"
  by (rule io_validI) (auto simp: trip_def split: if_splits)

lemma io_fault_scheduled [simp]: "io_fault (scheduled_error c)"
  by (simp add: scheduled_error_def)

lemma syscall_rule:
  assumes "io_valid (tree r) m Q R" and "\<And>e s. io_fault e \<Longrightarrow> tree r s \<Longrightarrow> R e s"
  shows "io_valid (tree r) (syscall m) Q R"
proof (rule io_validI)
  fix s e t assume s: "tree r s" and m: "syscall m s = (Inl e, t)"
  show "R e t"
  proof (cases "fs_outcomes s")
    case Nil
    with s m assms(1) show ?thesis by (auto simp: syscall_def intro: io_valid_err)
  next
    case (Cons o1 os)
    show ?thesis
    proof (cases o1)
      case None
      with Cons m have "m (s\<lparr>fs_outcomes := os\<rparr>) = (Inl e, t)" by (simp add: syscall_def)
      from io_valid_err [OF assms(1) _ this] s show ?thesis by simp
    next
      case (Some c)
      with Cons m s assms(2) show ?thesis by (cases c) (auto simp: syscall_def)
    qed
  qed
next
  fix s x t assume s: "tree r s" and m: "syscall m s = (Inr x, t)"
  show "Q x t"
  proof (cases "fs_outcomes s")
    case Nil
    with s m assms(1) show ?thesis by (auto simp: syscall_def intro: io_valid_ok)
  next
    case (Cons o1 os)
    show ?thesis
    proof (cases o1)
      case None
      with Cons m have "m (s\<lparr>fs_outcomes := os\<rparr>) = (Inr x, t)" by (simp add: syscall_def)
      from io_valid_ok [OF assms(1) _ this] s show ?thesis by simp
    next
      case (Some c)
      with Cons m show ?thesis by (cases c) (auto simp: syscall_def)
    qed
  qed
qed

lemma uninterrupted_root [simp]: "fs_root (uninterrupted s) = fs_root s"
  by (simp add: uninterrupted_def)

lemma syscall_retry_rule:
  assumes "io_valid (tree r) m Q R" and "\<And>e s. io_fault e \<Longrightarrow> tree r s \<Longrightarrow> R e s"
  shows "io_valid (tree r) (syscall_retry m) Q R"
  using syscall_rule [OF assms] by (simp add: io_valid_def syscall_retry_def)

lemma c_name_rule:
  "io_valid (tree r) (c_name n) (\<lambda>v s. tree r s \<and> v = n) (\<lambda>e s. io_fault e \<and> tree r s)"
  by (rule io_validI) (auto simp: c_name_def io_simps split: if_splits)

lemma fstat_rule [io_rules]:
  "io_valid (tree r) (fstat p) (\<lambda>st s. tree r s \<and> (\<exists>n. lookup r p = Some n \<and> st = stat_of n))
     (\<lambda>e s. tree r s \<and> (io_fault e \<or> e = OsError ENOENT \<and> lookup r p = None))"
  unfolding fstat_def
  by (rule syscall_rule) (auto intro!: io_validI simp: node_in_def split: option.splits)

lemma open_nofollow_rule:
  "io_valid (tree r) (open_nofollow p)
     (\<lambda>v s. tree r s \<and> v = p \<and> (\<exists>n. lookup r p = Some n \<and> (\<forall>a. n \<noteq> Symlink a)))
     (\<lambda>e s. tree r s \<and> (io_fault e \<or> e = OsError ENOENT \<and> lookup r p = None
                         \<or> e = OsError ELOOP \<and> (\<exists>a. lookup r p = Some (Symlink a))))"
  unfolding open_nofollow_def
  by (rule syscall_rule) (auto intro!: io_validI simp: node_in_def split: option.splits node.splits)

text \<open>Why opening a directory fails.\<close>

definition open_error :: "node option \<Rightarrow> io_error \<Rightarrow> bool" where
  "open_error n e \<longleftrightarrow> io_fault e \<or> e = OsError ENOENT \<and> n = None
     \<or> e = OsError ELOOP \<and> (\<exists>a. n = Some (Symlink a))
     \<or> e = OsError ENOTDIR \<and> (\<exists>m. n = Some m \<and> (\<forall>a cs. m \<noteq> Directory a cs) \<and> (\<forall>a. m \<noteq> Symlink a))"

lemma directory_or_enotdir_rule:
  assumes "lookup r p = Some n" and "\<forall>a. n \<noteq> Symlink a"
  shows "io_valid (tree r) (directory_or_enotdir p)
     (\<lambda>v s. tree r s \<and> v = p \<and> (\<exists>a cs. lookup r p = Some (Directory a cs)))
     (\<lambda>e s. tree r s \<and> open_error (lookup r p) e)"
  unfolding directory_or_enotdir_def
proof (rule io_valid_bind)
  show "io_valid (tree r) (fstat p) (\<lambda>st s. tree r s \<and> st = stat_of n)
      (\<lambda>e s. tree r s \<and> open_error (lookup r p) e)"
    by (rule io_valid_conseq [OF fstat_rule [of r p]]) (auto simp: assms open_error_def)
  show "io_valid (\<lambda>s. tree r s \<and> x = stat_of n)
      (if is_directory (st_mode x) then io_ok p else io_err (OsError ENOTDIR))
      (\<lambda>v s. tree r s \<and> v = p \<and> (\<exists>a cs. lookup r p = Some (Directory a cs)))
      (\<lambda>e s. tree r s \<and> open_error (lookup r p) e)" for x
    by (rule io_validI) (use assms in \<open>auto simp: io_simps open_error_def split: if_splits\<close>)
qed

lemma open_directory_rule:
  "io_valid (tree r) (io_bind (open_nofollow p) directory_or_enotdir)
     (\<lambda>v s. tree r s \<and> v = p \<and> (\<exists>a cs. lookup r p = Some (Directory a cs)))
     (\<lambda>e s. tree r s \<and> open_error (lookup r p) e)"
proof (rule io_valid_bind)
  show "io_valid (tree r) (open_nofollow p)
     (\<lambda>v s. tree r s \<and> v = p \<and> (\<exists>n. lookup r p = Some n \<and> (\<forall>a. n \<noteq> Symlink a)))
     (\<lambda>e s. tree r s \<and> open_error (lookup r p) e)"
    by (rule io_valid_conseq [OF open_nofollow_rule [of r p]]) (auto simp: open_error_def)
  show "io_valid (\<lambda>s. tree r s \<and> x = p \<and> (\<exists>n. lookup r p = Some n \<and> (\<forall>a. n \<noteq> Symlink a)))
     (directory_or_enotdir x)
     (\<lambda>v s. tree r s \<and> v = p \<and> (\<exists>a cs. lookup r p = Some (Directory a cs)))
     (\<lambda>e s. tree r s \<and> open_error (lookup r p) e)" for x
    by (rule io_valid_pure) (use directory_or_enotdir_rule [of r p] in blast)
qed

lemma open_directory_at_rule [io_rules]:
  "io_valid (tree r) (open_directory_at d n)
     (\<lambda>v s. tree r s \<and> v = d @ [n] \<and> (\<exists>a cs. lookup r (d @ [n]) = Some (Directory a cs)))
     (\<lambda>e s. tree r s \<and> open_error (lookup r (d @ [n])) e)"
  unfolding open_directory_at_def
proof (rule io_valid_bind)
  show "io_valid (tree r) (c_name n) (\<lambda>v s. tree r s \<and> v = n)
      (\<lambda>e s. tree r s \<and> open_error (lookup r (d @ [n])) e)"
    by (rule io_valid_conseq [OF c_name_rule]) (auto simp: open_error_def)
qed (rule io_valid_pure, simp, rule open_directory_rule)

lemma open_directory_path_rule [io_rules]:
  "io_valid (tree r) (open_directory_path path)
     (\<lambda>v s. tree r s \<and> v = [] \<and> (\<exists>a cs. r = Some (Directory a cs)))
     (\<lambda>e s. tree r s \<and> open_error r e)"
  unfolding open_directory_path_def
proof (rule io_valid_bind)
  show "io_valid (tree r) (path_cstring path) (\<lambda>v. tree r) (\<lambda>e s. tree r s \<and> open_error r e)"
    by (rule io_validI) (auto simp: path_cstring_def open_error_def io_simps split: if_splits)
qed (use open_directory_rule [of r "[]"] in simp)

lemma stat_at_rule [io_rules]:
  "io_valid (tree r) (stat_at d n)
     (\<lambda>st s. tree r s \<and> (\<exists>m. lookup r (d @ [n]) = Some m \<and> st = stat_of m))
     (\<lambda>e s. tree r s \<and> (io_fault e \<or> e = OsError ENOENT \<and> lookup r (d @ [n]) = None))"
  unfolding stat_at_def
proof (rule io_valid_bind)
  show "io_valid (tree r) (c_name n) (\<lambda>v s. tree r s \<and> v = n)
      (\<lambda>e s. tree r s \<and> (io_fault e \<or> e = OsError ENOENT \<and> lookup r (d @ [n]) = None))"
    by (rule io_valid_conseq [OF c_name_rule]) auto
qed (rule io_valid_pure, simp, rule fstat_rule)

lemma sync_file_rule [io_rules]:
  "io_valid (tree r) sync_file (\<lambda>_. tree r) (\<lambda>e s. io_fault e \<and> tree r s)"
  unfolding sync_file_def by (rule syscall_retry_rule) (auto intro!: io_validI simp: io_simps)

lemma sync_directory_rule [io_rules]:
  "io_valid (tree r) (sync_directory p) (\<lambda>_. tree r) (\<lambda>e s. io_fault e \<and> tree r s)"
  unfolding sync_directory_def by (rule syscall_retry_rule) (auto intro!: io_validI simp: io_simps)

section \<open>Rules of the calls that change the tree\<close>

abbreviation updated :: "fd \<Rightarrow> (dirents \<Rightarrow> dirents) \<Rightarrow> node option \<Rightarrow> node option" where
  "updated p f r \<equiv> map_option (update_dir f p) r"

lemma children_Some: "children s p = Some cs \<longleftrightarrow> (\<exists>a. lookup (fs_root s) p = Some (Directory a cs))"
  by (auto simp: children_def node_in_def split: option.splits node.splits)

lemma modify_dir_tree [simp]: "fs_root (modify_dir p f s) = updated p f (fs_root s)"
  by (simp add: modify_dir_def)

lemma lookup_updated:
  "lookup r p = Some (Directory a cs) \<Longrightarrow> lookup (updated p f r) p = Some (Directory a (f cs))"
  by (auto simp: lookup_def node_at_update_same split: option.splits)

lemma lookup_updated_beside: "x \<noteq> y \<Longrightarrow> lookup (updated (x # p) f r) (y # q) = lookup r (y # q)"
  by (auto simp: lookup_def node_at_update_beside split: option.splits)

lemma c_name_then:
  assumes "io_valid (tree r) (f n) Q R" and "\<And>e s. io_fault e \<Longrightarrow> tree r s \<Longrightarrow> R e s"
  shows "io_valid (tree r) (io_bind (c_name n) f) Q R"
proof (rule io_valid_bind)
  show "io_valid (tree r) (c_name n) (\<lambda>v s. tree r s \<and> v = n) R"
    by (rule io_valid_conseq [OF c_name_rule]) (auto intro: assms(2))
qed (rule io_valid_pure, simp only:, rule assms(1))

lemma create_file_at_rule:
  "io_valid (tree r) (create_file_at E d n mode)
     (\<lambda>v s. v = d @ [n] \<and> (\<exists>a cs. lookup r d = Some (Directory a cs) \<and> n \<notin> fst ` set cs)
        \<and> tree (updated d (dir_put n (RegFile \<lparr>fa_uid = env_euid E, fa_perm = mode\<rparr> [])) r) s)
     (\<lambda>e s. tree r s)"
  unfolding create_file_at_def
  by (rule c_name_then, rule syscall_rule)
    (auto intro!: io_validI simp: children_Some split: option.splits if_splits)

lemma mkdir_at_rule:
  "io_valid (tree r) (mkdir_at E d n mode)
     (\<lambda>v s. (\<exists>a cs. lookup r d = Some (Directory a cs) \<and> n \<notin> fst ` set cs)
        \<and> tree (updated d (dir_put n (Directory \<lparr>fa_uid = env_euid E, fa_perm = mode\<rparr> [])) r) s)
     (\<lambda>e s. tree r s \<and> (e = OsError EEXIST \<longrightarrow>
        (\<exists>a cs. lookup r d = Some (Directory a cs) \<and> n \<in> fst ` set cs)))"
  unfolding mkdir_at_def
  by (rule c_name_then, rule syscall_rule)
    (auto intro!: io_validI simp: children_Some split: option.splits if_splits)

lemma write_all_rule:
  "io_valid (tree r) (write_all d n bytes)
     (\<lambda>_. tree (updated d (append_file n bytes) r))
     (\<lambda>e s. io_fault e \<and> (\<exists>k. tree (updated d (append_file n (take k bytes)) r) s))"
  by (rule io_validI) (auto simp: write_all_def Let_def split: list.splits option.splits)

lemma rename_in_rule:
  "io_valid (tree r) (rename_in d n m)
     (\<lambda>_ s. \<exists>a cs x. lookup r d = Some (Directory a cs) \<and> map_of cs n = Some x
        \<and> tree (updated d (\<lambda>cs. dir_put m x (dir_del n cs)) r) s)
     (\<lambda>e s. tree r s)"
  unfolding rename_in_def
  by (rule c_name_then, rule c_name_then, rule syscall_rule)
    (auto intro!: io_validI simp: children_Some split: option.splits node.splits)

text \<open>Only an empty directory and only a non-directory can be unlinked, each its own way.\<close>

fun unlinkable :: "bool \<Rightarrow> node \<Rightarrow> bool" where
  "unlinkable removedir (Directory a cs) \<longleftrightarrow> removedir \<and> cs = []"
| "unlinkable removedir n \<longleftrightarrow> \<not> removedir"

lemma unlink_at_rule:
  "io_valid (tree r) (unlink_at d n removedir)
     (\<lambda>_ s. \<exists>a cs m. lookup r d = Some (Directory a cs) \<and> map_of cs n = Some m \<and> unlinkable removedir m
        \<and> tree (updated d (dir_del n) r) s)
     (\<lambda>e s. tree r s \<and> (e = OsError ENOENT \<longrightarrow>
        (\<forall>a cs. lookup r d = Some (Directory a cs) \<longrightarrow> map_of cs n = None)))"
  unfolding unlink_at_def
  by (rule c_name_then, rule syscall_rule)
    (auto intro!: io_validI simp: children_Some children_def node_in_def
      split: option.splits node.splits list.splits if_splits)

lemma read_names_rule:
  "io_valid (tree r) (read_names d)
     (\<lambda>ns s. tree r s \<and> (\<exists>a cs. lookup r d = Some (Directory a cs)
        \<and> ns = filter (\<lambda>n. n \<noteq> ''.'' \<and> n \<noteq> ''..'') (map fst cs)))
     (\<lambda>e s. tree r s \<and> (io_fault e \<or> (\<forall>a cs. lookup r d \<noteq> Some (Directory a cs))))"
  unfolding read_names_def
  by (rule syscall_rule)
    (auto intro!: io_validI simp: children_Some children_def node_in_def split: option.splits node.splits)

lemma read_file_at_rule:
  "io_valid (tree r) (read_file_at d n mx)
     (\<lambda>bytes s. tree r s \<and> length bytes \<le> mx \<and> (\<forall>a b. lookup r (d @ [n]) = Some (RegFile a b) \<longrightarrow> bytes = b))
     (\<lambda>e s. tree r s \<and> (\<forall>a b. lookup r (d @ [n]) = Some (RegFile a b) \<longrightarrow> io_fault e))"
proof -
  let ?R = "\<lambda>e s. tree r s \<and> (\<forall>a b. lookup r (d @ [n]) = Some (RegFile a b) \<longrightarrow> io_fault e)"
  let ?read = "\<lambda>p. syscall_retry (\<lambda>s. (case node_in s p of
          Some (RegFile a bytes) \<Rightarrow> (Inr (take (mx + 1) bytes), s)
        | Some (Directory a cs) \<Rightarrow> (Inl (OsError EISDIR), s)
        | _ \<Rightarrow> (Inr [], s)))"
  have read: "io_valid (tree r) (?read (d @ [n]))
      (\<lambda>v s. tree r s \<and> (\<forall>a b. lookup r (d @ [n]) = Some (RegFile a b) \<longrightarrow> v = take (mx + 1) b)) ?R"
    by (rule syscall_retry_rule) (auto intro!: io_validI simp: node_in_def split: option.splits node.splits)
  have tail: "io_valid
      (\<lambda>s. tree r s \<and> (\<forall>a b. lookup r (d @ [n]) = Some (RegFile a b) \<longrightarrow> v = take (mx + 1) b))
      (if mx < length v then io_err (OtherError ''metadata exceeds the size limit'') else io_ok v)
      (\<lambda>bytes s. tree r s \<and> length bytes \<le> mx
         \<and> (\<forall>a b. lookup r (d @ [n]) = Some (RegFile a b) \<longrightarrow> bytes = b)) ?R" for v
    by (rule io_validI) (auto simp: io_simps split: if_splits)
  show ?thesis unfolding read_file_at_def
  proof (rule c_name_then, rule io_valid_bind)
    show "io_valid (tree r) (open_nofollow (d @ [n])) (\<lambda>v s. tree r s \<and> v = d @ [n]) ?R"
      by (rule io_valid_conseq [OF open_nofollow_rule]) auto
  qed (rule io_valid_pure, simp only:, rule io_valid_bind [OF read tail], simp)
qed

lemma with_cleanup_rule:
  assumes "io_valid P m Q M" and "\<And>e. io_valid (M e) c (\<lambda>_. R e) (\<lambda>_. R e)"
  shows "io_valid P (with_cleanup m c) Q R"
proof (rule io_validI)
  fix s e t assume "P s" and w: "with_cleanup m c s = (Inl e, t)"
  then obtain u where u: "m s = (Inl e, u)" "t = snd (c u)"
    by (auto simp: with_cleanup_def split: prod.splits sum.splits)
  with io_valid_err [OF assms(1) \<open>P s\<close>] have "M e u" by simp
  with assms(2) [of e] u(2) show "R e t"
    by (cases "c u") (auto simp: io_valid_def split: sum.splits prod.splits)
next
  fix s x t assume "P s" and "with_cleanup m c s = (Inr x, t)"
  then have "m s = (Inr x, t)" by (auto simp: with_cleanup_def split: prod.splits sum.splits)
  with io_valid_ok [OF assms(1) \<open>P s\<close>] show "Q x t" by simp
qed

end
