(* ===== verification/Storage.thy ===== *)
theory Storage
  imports Metadata Posix_Rules
begin

text \<open>
  The sandbox registry on disk (\<open>Storage\<close> in \<open>sandbox/storage.rs\<close>): inspecting, scanning,
  creating, updating and removing the directory of a sandbox. The file system of \<open>Posix\<close> is the
  tree below the registry's root, so the descriptor of the root is the empty path.
\<close>

section \<open>Data\<close>

definition METADATA_NAME :: string where
  "METADATA_NAME = ''metadata.toml''"

definition WORKSPACE_NAME :: string where
  "WORKSPACE_NAME = ''workspace''"

definition METADATA_TEMP_PREFIX :: string where
  "METADATA_TEMP_PREFIX = ''.metadata.toml.tmp''"

datatype entry = EntryAbsent | EntryActive metadata | EntryDeleting metadata | EntryCorrupt string

record scan_result =
  sr_entries :: "(sandbox_id \<times> entry) list"
  sr_unknown_entries :: nat

datatype storage_error =
    StAlreadyExists string
  | StCorrupt string string
  | StIo string string io_error

record storage =
  sg_root :: string

type_synonym 'a storage_io = "(fsys, storage_error, 'a) io"

definition display_storage_error :: "env \<Rightarrow> storage_error \<Rightarrow> string" where
  "display_storage_error E e =
     (case e of
        StAlreadyExists path \<Rightarrow> ''sandbox entry already exists: '' @ from_utf8_lossy path
      | StCorrupt path reason \<Rightarrow> ''corrupt sandbox entry '' @ from_utf8_lossy path @ '': '' @ reason
      | StIo operation path source \<Rightarrow>
          operation @ '' '' @ from_utf8_lossy path @ '': '' @ display_io_error E source)"

section \<open>Helpers of the handle\<close>

definition entry_path :: "storage \<Rightarrow> sandbox_id \<Rightarrow> string" where
  "entry_path st i = path_join (sg_root st) (id_as_str i)"

definition workspace_path :: "storage \<Rightarrow> sandbox_id \<Rightarrow> string" where
  "workspace_path st i = path_join (path_join (sg_root st) (id_as_str i)) ''workspace''"

definition storage_io :: "storage \<Rightarrow> string \<Rightarrow> sandbox_id \<Rightarrow> io_error \<Rightarrow> storage_error" where
  "storage_io st operation i source = StIo operation (entry_path st i) source"

definition storage_io_path :: "storage \<Rightarrow> string \<Rightarrow> io_error \<Rightarrow> storage_error" where
  "storage_io_path st operation source = StIo operation (sg_root st) source"

definition with_context :: "string \<Rightarrow> string \<Rightarrow> io_error \<Rightarrow> storage_error" where
  "with_context operation path source = StIo operation path source"

definition storage_open_root :: "storage \<Rightarrow> fd storage_io" where
  "storage_open_root st =
     io_map_err (storage_io_path st ''open sandbox root'') (open_directory_path (sg_root st))"

definition storage_trip :: "storage \<Rightarrow> fault_point \<Rightarrow> sandbox_id \<Rightarrow> unit storage_io" where
  "storage_trip st point i = io_map_err (storage_io st ''injected storage fault'' i) (trip point)"

definition storage_sync_directory :: "fd \<Rightarrow> fault_point \<Rightarrow> unit sys" where
  "storage_sync_directory d point = io_then (trip point) (sync_directory d)"

section \<open>Inspecting an entry\<close>

abbreviation corrupt :: "string \<Rightarrow> entry storage_io" where
  "corrupt reason \<equiv> io_ok (EntryCorrupt reason)"

text \<open>The last part of \<open>inspect_directory\<close>: the workspace of a decoded record.\<close>

definition inspect_workspace :: "env \<Rightarrow> storage \<Rightarrow> sandbox_id \<Rightarrow> fd \<Rightarrow> metadata \<Rightarrow> entry storage_io" where
  "inspect_workspace E st i d m =
     io_match (stat_at d WORKSPACE_NAME)
       (\<lambda>e. if errno_is e ENOENT \<and> is_deleting m then io_ok (EntryDeleting m)
             else if errno_is e ENOENT then corrupt ''workspace is missing''
             else io_err (storage_io st ''stat sandbox workspace'' i e))
       (\<lambda>ws.
         if \<not> is_directory (st_mode ws) then corrupt ''workspace is not a directory''
         else if st_uid ws \<noteq> env_euid E then corrupt ''workspace is not daemon-owned''
         else if group_world_writable (st_mode ws) then corrupt ''workspace is group or world writable''
         else io_ok (case md_state m of Active \<Rightarrow> EntryActive m | Deleting \<Rightarrow> EntryDeleting m))"

text \<open>The middle part: the metadata file.\<close>

definition inspect_metadata :: "env \<Rightarrow> storage \<Rightarrow> sandbox_id \<Rightarrow> fd \<Rightarrow> entry storage_io" where
  "inspect_metadata E st i d =
     io_match (stat_at d METADATA_NAME)
       (\<lambda>e. if errno_is e ENOENT then corrupt ''metadata.toml is missing''
             else io_err (storage_io st ''stat sandbox metadata'' i e))
       (\<lambda>ms.
         if \<not> is_regular (st_mode ms) then corrupt ''metadata.toml is not a regular file''
         else if st_uid ms \<noteq> env_euid E then corrupt ''metadata.toml is not daemon-owned''
         else if mode_bits (st_mode ms) \<noteq> 0x180 then corrupt ''metadata.toml does not have mode 0600''
         else io_bind (io_map_err (storage_io st ''read sandbox metadata'' i)
                        (read_file_at d METADATA_NAME METADATA_MAX_BYTES)) (\<lambda>bytes.
              case metadata_decode E bytes i of
                Inl e \<Rightarrow> corrupt (display_metadata_error E e)
              | Inr m \<Rightarrow> inspect_workspace E st i d m))"

definition inspect_directory :: "env \<Rightarrow> storage \<Rightarrow> sandbox_id \<Rightarrow> fd \<Rightarrow> entry storage_io" where
  "inspect_directory E st i d =
     io_bind (io_map_err (storage_io st ''stat sandbox directory'' i) (fstat d)) (\<lambda>ds.
     if \<not> is_directory (st_mode ds) then corrupt ''sandbox entry is not a directory''
     else if st_uid ds \<noteq> env_euid E then corrupt ''sandbox directory is not daemon-owned''
     else if group_world_writable (st_mode ds) then corrupt ''sandbox directory is group or world writable''
     else io_bind (io_map_err (storage_io st ''scan sandbox directory'' i) (read_names d)) (\<lambda>names.
          if list_ex (\<lambda>n. n \<noteq> METADATA_NAME \<and> n \<noteq> WORKSPACE_NAME) names
          then corrupt ''sandbox directory contains an unknown management entry''
          else inspect_metadata E st i d))"

definition inspect :: "env \<Rightarrow> storage \<Rightarrow> sandbox_id \<Rightarrow> entry storage_io" where
  "inspect E st i =
     io_bind (storage_open_root st) (\<lambda>root.
     io_match (open_directory_at root (id_as_str i))
       (\<lambda>e. if errno_is e ENOENT then io_ok EntryAbsent
             else if errno_is e ELOOP then corrupt ''sandbox directory is a symlink''
             else if errno_is e ENOTDIR then corrupt ''sandbox entry is not a directory''
             else io_err (storage_io st ''open sandbox directory'' i e))
       (inspect_directory E st i))"

text \<open>
  The scan, name by name: a name that is not UTF-8 or not an identifier is counted, and a missing
  directory is an error here, unlike in \<open>inspect\<close>.
\<close>

definition scan_entry :: "env \<Rightarrow> storage \<Rightarrow> fd \<Rightarrow> string \<Rightarrow> sandbox_id \<Rightarrow> entry storage_io" where
  "scan_entry E st root name i =
     io_match (open_directory_at root name)
       (\<lambda>e. if errno_is e ELOOP then corrupt ''sandbox directory is a symlink''
             else if errno_is e ENOTDIR then corrupt ''sandbox entry is not a directory''
             else io_err (storage_io st ''open sandbox directory'' i e))
       (inspect_directory E st i)"

fun scan_names :: "env \<Rightarrow> storage \<Rightarrow> fd \<Rightarrow> string list \<Rightarrow> scan_result storage_io" where
  "scan_names E st root [] = io_ok \<lparr>sr_entries = [], sr_unknown_entries = 0\<rparr>"
| "scan_names E st root (name # names) =
     (case (case from_utf8 name of None \<Rightarrow> None
            | Some raw \<Rightarrow> (case parse_id raw of Inl e \<Rightarrow> None | Inr i \<Rightarrow> Some i)) of
        None \<Rightarrow> io_bind (scan_names E st root names) (\<lambda>r.
                  io_ok (r\<lparr>sr_unknown_entries := Suc (sr_unknown_entries r)\<rparr>))
      | Some i \<Rightarrow> io_bind (scan_entry E st root name i) (\<lambda>e.
                  io_bind (scan_names E st root names) (\<lambda>r.
                  io_ok (r\<lparr>sr_entries := (i, e) # sr_entries r\<rparr>))))"

definition scan :: "env \<Rightarrow> storage \<Rightarrow> scan_result storage_io" where
  "scan E st =
     io_bind (storage_open_root st) (\<lambda>root.
     io_bind (io_map_err (storage_io_path st ''scan sandbox root'') (read_names root)) (\<lambda>names.
     scan_names E st root names))"

section \<open>Publishing a record\<close>

definition metadata_temp_name :: "env \<Rightarrow> u64 \<Rightarrow> string" where
  "metadata_temp_name E c =
     METADATA_TEMP_PREFIX @ ''-'' @ display_nat (env_pid E) @ ''-'' @ display_nat (unat c)"

text \<open>The closure of \<open>write_metadata_at\<close>, and the function with its cleanup.\<close>

definition metadata_steps :: "env \<Rightarrow> fd \<Rightarrow> string \<Rightarrow> metadata \<Rightarrow> unit sys" where
  "metadata_steps E d name m =
     io_then (trip MetadataTempCreate)
     (io_bind (create_file_at E d name 0x180) (\<lambda>f.
      io_then (trip MetadataWrite)
     (io_then (write_all d name (metadata_encode E m))
     (io_then (trip MetadataFileSync)
     (io_then sync_file
     (io_then (trip MetadataRename)
     (rename_in d name METADATA_NAME)))))))"

definition write_metadata_at :: "env \<Rightarrow> fd \<Rightarrow> metadata \<Rightarrow> unit sys" where
  "write_metadata_at E d m =
     io_bind fetch_counter (\<lambda>c.
     with_cleanup (metadata_steps E d (metadata_temp_name E c) m)
       (unlink_at d (metadata_temp_name E c) False))"

definition create_active :: "env \<Rightarrow> storage \<Rightarrow> sandbox_id \<Rightarrow> key_fingerprint \<Rightarrow> metadata storage_io" where
  "create_active E st i owner =
     io_bind (storage_open_root st) (\<lambda>root.
     io_then (storage_trip st CreateSandboxDirectory i)
     (io_then (io_match (mkdir_at E root (id_as_str i) 0x1C0)
        (\<lambda>e. if errno_is e EEXIST then io_err (StAlreadyExists (entry_path st i))
              else io_err (storage_io st ''create sandbox directory'' i e))
        io_ok)
     (io_bind (io_map_err (storage_io st ''open new sandbox directory'' i)
                 (open_directory_at root (id_as_str i))) (\<lambda>d.
      io_then (storage_trip st CreateWorkspace i)
     (io_then (io_map_err (storage_io st ''create sandbox workspace'' i) (mkdir_at E d WORKSPACE_NAME 0x1C0))
     (let m = metadata_active i owner in
      io_then (io_map_err (with_context ''publish sandbox metadata'' (entry_path st i))
                (write_metadata_at E d m))
     (io_then (io_map_err (storage_io st ''sync sandbox directory'' i)
                (storage_sync_directory d MetadataParentSync))
     (io_then (io_map_err (storage_io st ''sync sandbox root'' i)
                (storage_sync_directory root RegistryParentSync))
     (io_ok m)))))))))"

text \<open>The checks of \<open>write_metadata\<close> on the record in place.\<close>

definition current_record :: "storage \<Rightarrow> sandbox_id \<Rightarrow> entry \<Rightarrow> (storage_error, metadata) result" where
  "current_record st i e =
     (case e of
        EntryActive current \<Rightarrow> Inr current
      | EntryDeleting current \<Rightarrow> Inr current
      | EntryAbsent \<Rightarrow> Inl (StCorrupt (entry_path st i) ''sandbox disappeared while updating metadata'')
      | EntryCorrupt reason \<Rightarrow> Inl (StCorrupt (entry_path st i) reason))"

definition write_metadata :: "env \<Rightarrow> storage \<Rightarrow> metadata \<Rightarrow> unit storage_io" where
  "write_metadata E st m =
     (let i = md_id m in
      io_bind (storage_open_root st) (\<lambda>root.
      io_bind (io_map_err (storage_io st ''open sandbox directory'' i)
                (open_directory_at root (id_as_str i))) (\<lambda>d.
      io_bind (inspect_directory E st i d) (\<lambda>entry.
      io_bind (io_lift (current_record st i entry)) (\<lambda>current.
      if md_owner current \<noteq> md_owner m
        then io_err (StCorrupt (entry_path st i) ''metadata owner cannot be changed'')
      else if md_state current = Deleting \<and> md_state m = Active
        then io_err (StCorrupt (entry_path st i) ''Deleting metadata cannot return to Active'')
      else io_then (io_map_err (with_context ''replace sandbox metadata'' (entry_path st i))
                     (write_metadata_at E d m))
           (io_map_err (storage_io st ''sync sandbox metadata'' i)
             (storage_sync_directory d MetadataParentSync)))))))"

section \<open>Removing an entry\<close>

text \<open>
  The recursion of \<open>remove_children\<close> follows the directories on disk, so it takes fuel; \<open>None\<close> as
  the error means that the fuel ran out. The loop goes over the names that \<open>read_names\<close> returned.
\<close>

type_synonym fuelled = "(fsys, io_error option, unit) io"

definition remove_child :: "(fd \<Rightarrow> fuelled) \<Rightarrow> fd \<Rightarrow> string \<Rightarrow> fuelled" where
  "remove_child descend d name =
     (if name = METADATA_NAME then io_ok ()
      else io_match (stat_at d name)
        (\<lambda>e. if errno_is e ENOENT then io_ok () else io_err (Some e))
        (\<lambda>stat.
          io_then (io_map_err Some (trip DeleteEntry))
          (if is_directory (st_mode stat) then
             io_bind (io_map_err Some (open_directory_at d name)) (\<lambda>child.
             io_then (descend child)
            (io_then (io_map_err Some (trip DeleteEntry))
             (io_map_err Some (unlink_at d name True))))
           else io_map_err Some (unlink_at d name False))))"

fun remove_children :: "nat \<Rightarrow> fd \<Rightarrow> fuelled" where
  "remove_children 0 d = io_err None"
| "remove_children (Suc fuel) d =
     io_bind (io_map_err Some (read_names d)) (\<lambda>names.
     io_for names (remove_child (remove_children fuel) d))"

text \<open>The number of nested directories bounds the recursion; \<open>remove_tree\<close> gives that much fuel.\<close>

fun height :: "node \<Rightarrow> nat" where
  "height (Directory a cs) = Suc (fold max (map (\<lambda>(k, n). height n) cs) 0)"
| "height _ = 0"

definition height_in :: "fsys \<Rightarrow> nat" where
  "height_in s = (case fs_root s of None \<Rightarrow> 0 | Some n \<Rightarrow> height n)"

definition remove_all_children :: "fd \<Rightarrow> unit sys" where
  "remove_all_children d s = io_map_err the (remove_children (height_in s) d) s"

definition remove_tree :: "storage \<Rightarrow> sandbox_id \<Rightarrow> unit storage_io" where
  "remove_tree st i =
     io_bind (storage_open_root st) (\<lambda>root.
     io_match (open_directory_at root (id_as_str i))
       (\<lambda>e. if errno_is e ENOENT then io_ok ()
             else io_err (storage_io st ''open sandbox for deletion'' i e))
       (\<lambda>d.
         io_then (io_map_err (storage_io st ''remove sandbox contents'' i) (remove_all_children d))
        (io_then (io_map_err (storage_io st ''remove sandbox metadata'' i) (trip DeleteEntry))
        (io_then (io_map_err (storage_io st ''remove sandbox metadata'' i) (unlink_at d METADATA_NAME False))
        (io_then (io_map_err (storage_io st ''remove sandbox directory'' i)
                   (unlink_at root (id_as_str i) True))
        (io_map_err (storage_io st ''sync sandbox root after deletion'' i)
          (storage_sync_directory root DeleteRootSync)))))))"

end
