(* ===== verification/BTree_Map.thy ===== *)
theory BTree_Map
  imports Prelude "HOL-Library.Product_Lexorder"
begin

text \<open>
  The standard library's ordered map as the list of its entries in increasing key order: the
  operations the source calls, the ordering invariant and the lookup laws, stated once as the
  contract \<open>ordered_map\<close> and interpreted on the operations.
\<close>

type_synonym ('k, 'v) btree_map = "('k \<times> 'v) list"

section \<open>Operations\<close>

fun bt_insert :: "'k::linorder \<Rightarrow> 'v \<Rightarrow> ('k, 'v) btree_map \<Rightarrow> ('k, 'v) btree_map" where
  "bt_insert k v [] = [(k, v)]"
| "bt_insert k v ((a, b) # m) =
     (if k < a then (k, v) # (a, b) # m
      else if k = a then (k, v) # m
      else (a, b) # bt_insert k v m)"

fun bt_remove :: "'k::linorder \<Rightarrow> ('k, 'v) btree_map \<Rightarrow> ('k, 'v) btree_map" where
  "bt_remove k [] = []"
| "bt_remove k ((a, b) # m) = (if k = a then m else (a, b) # bt_remove k m)"

definition bt_get :: "('k, 'v) btree_map \<Rightarrow> 'k \<Rightarrow> 'v option" where
  "bt_get m k = map_of m k"

text \<open>\<open>range(..=k).next_back()\<close> and \<open>first_key_value()\<close>.\<close>

definition bt_last_le :: "'k::linorder \<Rightarrow> ('k, 'v) btree_map \<Rightarrow> ('k \<times> 'v) option" where
  "bt_last_le k m =
     (let below = filter (\<lambda>(a, b). a \<le> k) m in if below = [] then None else Some (last below))"

definition bt_first :: "('k, 'v) btree_map \<Rightarrow> ('k \<times> 'v) option" where
  "bt_first m = (case m of [] \<Rightarrow> None | e # _ \<Rightarrow> Some e)"

text \<open>\<open>collect()\<close> into a map: the entries are inserted in order.\<close>

definition bt_collect :: "('k::linorder \<times> 'v) list \<Rightarrow> ('k, 'v) btree_map" where
  "bt_collect xs = fold (\<lambda>(k, v) m. bt_insert k v m) xs []"

definition bt_sorted :: "('k::linorder, 'v) btree_map \<Rightarrow> bool" where
  "bt_sorted m \<longleftrightarrow> sorted_wrt (<) (map fst m)"

section \<open>Laws\<close>

definition bt_keys :: "('k, 'v) btree_map \<Rightarrow> 'k set" where
  "bt_keys m = set (map fst m)"

lemma bt_keys_simps [simp]: "bt_keys [] = {}" "bt_keys ((a, b) # m) = insert a (bt_keys m)"
  by (simp_all add: bt_keys_def)

lemma bt_sorted_Nil [simp]: "bt_sorted []"
  by (simp add: bt_sorted_def)

lemma bt_sorted_Cons [simp]: "bt_sorted ((a, b) # m) \<longleftrightarrow> (\<forall>k \<in> bt_keys m. a < k) \<and> bt_sorted m"
  by (auto simp: bt_sorted_def bt_keys_def)

lemma keys_bt_insert [simp]: "bt_keys (bt_insert k v m) = insert k (bt_keys m)"
  by (induction k v m rule: bt_insert.induct) (auto split: if_splits)

lemma keys_bt_remove [simp]: "bt_sorted m \<Longrightarrow> bt_keys (bt_remove k m) = bt_keys m - {k}"
  by (induction k m rule: bt_remove.induct) (auto split: if_splits)

lemma bt_sorted_insert: "bt_sorted m \<Longrightarrow> bt_sorted (bt_insert k v m)"
  by (induction k v m rule: bt_insert.induct) (auto split: if_splits)

lemma bt_sorted_remove: "bt_sorted m \<Longrightarrow> bt_sorted (bt_remove k m)"
  by (induction k m rule: bt_remove.induct) (auto split: if_splits)

lemma bt_get_simps [simp]:
  "bt_get [] k = None" "bt_get ((a, b) # m) k = (if k = a then Some b else bt_get m k)"
  by (simp_all add: bt_get_def)

lemma bt_get_None: "bt_get m k = None \<longleftrightarrow> k \<notin> bt_keys m"
  by (induction m) (auto split: if_splits)

lemma bt_get_insert_at: "bt_get (bt_insert k v m) j = (if j = k then Some v else bt_get m j)"
  by (induction k v m rule: bt_insert.induct) auto

lemma bt_get_remove_at: "bt_sorted m \<Longrightarrow> bt_get (bt_remove k m) j = (if j = k then None else bt_get m j)"
  by (induction k m rule: bt_remove.induct) (auto simp: bt_get_None)

lemma bt_get_insert: "bt_get (bt_insert k v m) = (bt_get m)(k \<mapsto> v)"
  by (auto simp: bt_get_insert_at)

lemma bt_get_remove: "bt_sorted m \<Longrightarrow> bt_get (bt_remove k m) = (bt_get m)(k := None)"
  by (auto simp: bt_get_remove_at)

lemma bt_sorted_distinct: "bt_sorted m \<Longrightarrow> distinct (map fst m)"
  by (auto simp: bt_sorted_def strict_sorted_iff)

lemma bt_get_Some: "bt_sorted m \<Longrightarrow> bt_get m k = Some v \<longleftrightarrow> (k, v) \<in> set m"
  by (simp add: bt_get_def bt_sorted_distinct)

lemma bt_collect_append: "bt_sorted (a @ [(k, v)]) \<Longrightarrow> bt_insert k v a = a @ [(k, v)]"
  by (induction a) (auto simp: bt_sorted_def)

lemma bt_collect_sorted: "bt_sorted xs \<Longrightarrow> bt_collect xs = xs"
proof (induction xs rule: rev_induct)
  case Nil
  then show ?case by (simp add: bt_collect_def)
next
  case (snoc x xs)
  obtain k v where x: "x = (k, v)" by force
  have "bt_sorted xs" using snoc.prems by (simp add: bt_sorted_def sorted_wrt_append)
  with snoc x show ?case by (simp add: bt_collect_def bt_collect_append)
qed

text \<open>The contract of an ordered map, as the clients of the library map use it.\<close>

locale ordered_map =
  fixes empty :: "'m"
    and insert :: "'k::linorder \<Rightarrow> 'v \<Rightarrow> 'm \<Rightarrow> 'm"
    and remove :: "'k \<Rightarrow> 'm \<Rightarrow> 'm"
    and get :: "'m \<Rightarrow> 'k \<Rightarrow> 'v option"
    and invar :: "'m \<Rightarrow> bool"
  assumes get_empty: "get empty = Map.empty"
    and invar_empty: "invar empty"
    and get_insert: "invar m \<Longrightarrow> get (insert k v m) = (get m)(k \<mapsto> v)"
    and invar_insert: "invar m \<Longrightarrow> invar (insert k v m)"
    and get_remove: "invar m \<Longrightarrow> get (remove k m) = (get m)(k := None)"
    and invar_remove: "invar m \<Longrightarrow> invar (remove k m)"
begin

lemma insert_other: "invar m \<Longrightarrow> k \<noteq> j \<Longrightarrow> get (insert k v m) j = get m j"
  by (simp add: get_insert)

lemma fold_insert:
  "invar m \<Longrightarrow> invar (fold (\<lambda>(k, v) m. insert k v m) kvs m)
     \<and> get (fold (\<lambda>(k, v) m. insert k v m) kvs m) = (get m)(map fst kvs [\<mapsto>] map snd kvs)"
  by (induction kvs arbitrary: m) (auto simp: invar_insert get_insert)

lemma remove_insert: "invar m \<Longrightarrow> get m k = None \<Longrightarrow> get (remove k (insert k v m)) = get m"
  by (simp add: invar_insert get_insert get_remove fun_upd_idem)

end

interpretation btree: ordered_map "[]" bt_insert bt_remove bt_get bt_sorted
  by unfold_locales
    (auto simp: bt_get_insert bt_sorted_insert bt_get_remove bt_sorted_remove)

text \<open>Collecting entries with distinct keys keeps them all.\<close>

lemma bt_collect_set:
  assumes "distinct (map fst xs)"
  shows "bt_sorted (bt_collect xs)" and "set (bt_collect xs) = set xs"
proof -
  have c: "bt_sorted (bt_collect xs) \<and> bt_get (bt_collect xs) = Map.empty(map fst xs [\<mapsto>] map snd xs)"
    using btree.fold_insert [of "[]" xs] by (simp add: bt_collect_def btree.get_empty)
  then show s: "bt_sorted (bt_collect xs)" by blast
  have "bt_get (bt_collect xs) = map_of xs"
    using c assms by (simp add: map_upds_def zip_map_fst_snd map_of_inject_set rev_map [symmetric])
  then have "(k, v) \<in> set (bt_collect xs) \<longleftrightarrow> (k, v) \<in> set xs" for k v
    using bt_get_Some [OF s, of k v] assms by simp
  then show "set (bt_collect xs) = set xs" by auto
qed

end
