(* ===== verification/Manager_Ledger.thy ===== *)
theory Manager_Ledger
  imports Storage BTree_Map "HOL-Library.AList"
begin

text \<open>
  The in-memory half of the lifecycle manager (\<open>Ledger\<close> in \<open>sandbox/manager.rs\<close>): durable records
  the daemon knows, blocked identifiers, counts per owner and the table of running processes with
  its index by sandbox. Each function is what the code does while it holds the ledger mutex. A
  hash map is the list of its entries in iteration order, a hash set a list without repetitions.
\<close>

section \<open>Data\<close>

record caps =
  max_unauthenticated_connections :: u32
  max_connections :: u32
  max_channels_per_connection :: u32
  max_concurrent_launches_per_sandbox :: u32
  max_host_processes :: u32
  max_auth_attempts :: u32
  max_sandboxes :: u32
  max_sandboxes_per_owner :: u32
  handshake_timeout_secs :: u32

datatype capacity_limit = LimitSandboxes | LimitSandboxesPerOwner | LimitSandboxLaunches

fun display_capacity_limit :: "capacity_limit \<Rightarrow> string" where
  "display_capacity_limit LimitSandboxes = ''max_sandboxes''"
| "display_capacity_limit LimitSandboxesPerOwner = ''max_sandboxes_per_owner''"
| "display_capacity_limit LimitSandboxLaunches = ''max_concurrent_launches_per_sandbox''"

text \<open>A running process is a handle; what it does is an argument of the operations that wait for it.\<close>

type_synonym process = nat

datatype runtime_marker = Launching | Running

record runtime_entry =
  re_sandbox_id :: sandbox_id
  re_marker :: runtime_marker
  re_cancelled :: bool
  re_process :: "process option"

record runtime_lease =
  rt_token :: u64
  rt_sandbox_id :: sandbox_id

record mem_ledger =
  lg_records :: "(sandbox_id, metadata) btree_map"
  lg_blocked :: "sandbox_id set"
  lg_unknown_entries :: nat
  lg_owner_counts :: "key_fingerprint \<rightharpoonup> nat"
  lg_reserved_sandboxes :: nat
  lg_runtime :: "(u64 \<times> runtime_entry) list"
  lg_runtime_by_sandbox :: "(sandbox_id \<times> u64 list) list"
  lg_next_runtime_token :: u64

definition ledger_default :: mem_ledger where
  "ledger_default =
     \<lparr>lg_records = [], lg_blocked = {}, lg_unknown_entries = 0, lg_owner_counts = Map.empty,
      lg_reserved_sandboxes = 0, lg_runtime = [], lg_runtime_by_sandbox = [], lg_next_runtime_token = 0\<rparr>"

section \<open>The process table\<close>

definition runtime_tokens_for :: "mem_ledger \<Rightarrow> sandbox_id \<Rightarrow> u64 list" where
  "runtime_tokens_for l i =
     (case map_of (lg_runtime_by_sandbox l) i of Some tokens \<Rightarrow> tokens | None \<Rightarrow> [])"

definition insert_runtime :: "u64 \<Rightarrow> runtime_entry \<Rightarrow> mem_ledger \<Rightarrow> mem_ledger" where
  "insert_runtime token entry l =
     l\<lparr>lg_runtime_by_sandbox :=
         AList.update (re_sandbox_id entry) (List.insert token (runtime_tokens_for l (re_sandbox_id entry)))
           (lg_runtime_by_sandbox l),
       lg_runtime := AList.update token entry (lg_runtime l)\<rparr>"

definition unindex :: "u64 \<Rightarrow> sandbox_id \<Rightarrow> (sandbox_id \<times> u64 list) list \<Rightarrow> (sandbox_id \<times> u64 list) list" where
  "unindex token i by_sandbox =
     (case map_of by_sandbox i of
        None \<Rightarrow> by_sandbox
      | Some tokens \<Rightarrow>
          let rest = removeAll token tokens in
          if rest = [] then AList.delete i by_sandbox else AList.update i rest by_sandbox)"

definition remove_runtime :: "u64 \<Rightarrow> mem_ledger \<Rightarrow> runtime_entry option \<times> mem_ledger" where
  "remove_runtime token l =
     (case map_of (lg_runtime l) token of
        None \<Rightarrow> (None, l)
      | Some entry \<Rightarrow>
          (Some entry, l\<lparr>lg_runtime := AList.delete token (lg_runtime l),
             lg_runtime_by_sandbox := unindex token (re_sandbox_id entry) (lg_runtime_by_sandbox l)\<rparr>))"

text \<open>The loop of \<open>next_runtime_token\<close> skips zero and tokens in use; \<open>None\<close> would be an endless loop.\<close>

partial_function (option) next_runtime_token :: "mem_ledger \<Rightarrow> (u64 \<times> mem_ledger) option" where
  "next_runtime_token l =
     (let t = lg_next_runtime_token l + 1; l' = l\<lparr>lg_next_runtime_token := t\<rparr> in
      if t \<noteq> 0 \<and> map_of (lg_runtime l) t = None then Some (t, l') else next_runtime_token l')"

section \<open>Owners, records and reservations\<close>

definition authorized :: "principal \<Rightarrow> key_fingerprint \<Rightarrow> bool" where
  "authorized p owner \<longleftrightarrow> pr_role p = Admin \<or> pr_fingerprint p = owner"

definition same_identity :: "metadata \<Rightarrow> metadata \<Rightarrow> bool" where
  "same_identity left right \<longleftrightarrow> md_id left = md_id right \<and> md_owner left = md_owner right"

definition increment_owner :: "key_fingerprint \<Rightarrow> (key_fingerprint \<rightharpoonup> nat) \<Rightarrow> (key_fingerprint \<rightharpoonup> nat)" where
  "increment_owner owner counts =
     counts(owner \<mapsto> (case counts owner of None \<Rightarrow> 0 | Some n \<Rightarrow> n) + 1)"

definition decrement_owner :: "key_fingerprint \<Rightarrow> (key_fingerprint \<rightharpoonup> nat) \<Rightarrow> (key_fingerprint \<rightharpoonup> nat)" where
  "decrement_owner owner counts =
     (case counts owner of
        None \<Rightarrow> counts
      | Some n \<Rightarrow>
          let rest = (if n = 0 then 2 ^ 64 - 1 else n - 1) in
          if rest = 0 then counts(owner := None) else counts(owner \<mapsto> rest))"

text \<open>
  Steps that also tell processes to terminate return them in order; \<open>for_log\<close> is a loop over such
  steps.
\<close>

type_synonym logged = "mem_ledger \<Rightarrow> mem_ledger \<times> process list"

fun for_log :: "'x list \<Rightarrow> ('x \<Rightarrow> logged) \<Rightarrow> logged" where
  "for_log [] f l = (l, [])"
| "for_log (x # xs) f l =
     (case f x l of (l', ps) \<Rightarrow> case for_log xs f l' of (m, qs) \<Rightarrow> (m, ps @ qs))"

definition drop_token :: "u64 \<Rightarrow> logged" where
  "drop_token t l =
     (case remove_runtime t l of
        (None, l') \<Rightarrow> (l', [])
      | (Some entry, l') \<Rightarrow> (l', case re_process entry of None \<Rightarrow> [] | Some p \<Rightarrow> [p]))"

definition remove_record_from_ledger :: "sandbox_id \<Rightarrow> logged" where
  "remove_record_from_ledger i l =
     (let l' = (case bt_get (lg_records l) i of
                  None \<Rightarrow> l
                | Some m \<Rightarrow> l\<lparr>lg_records := bt_remove i (lg_records l),
                             lg_owner_counts := decrement_owner (md_owner m) (lg_owner_counts l)\<rparr>)
      in for_log (runtime_tokens_for l' i) drop_token l')"

definition block :: "sandbox_id \<Rightarrow> mem_ledger \<Rightarrow> mem_ledger" where
  "block i l = l\<lparr>lg_blocked := insert i (lg_blocked l)\<rparr>"

definition note_valid_record :: "sandbox_id \<Rightarrow> metadata \<Rightarrow> mem_ledger \<Rightarrow> bool \<times> mem_ledger \<times> process list" where
  "note_valid_record i m l =
     (if i \<in> lg_blocked l then (False, l, [])
      else case bt_get (lg_records l) i of
             Some existing \<Rightarrow>
               if \<not> same_identity existing m
               then (case remove_record_from_ledger i l of (l', ps) \<Rightarrow> (False, block i l', ps))
               else (True, l\<lparr>lg_records := bt_insert i m (lg_records l)\<rparr>, [])
           | None \<Rightarrow>
               (True, l\<lparr>lg_owner_counts := increment_owner (md_owner m) (lg_owner_counts l),
                        lg_records := bt_insert i m (lg_records l)\<rparr>, []))"

definition note_corrupt :: "sandbox_id \<Rightarrow> logged" where
  "note_corrupt i l = (case remove_record_from_ledger i l of (l', ps) \<Rightarrow> (block i l', ps))"

definition is_blocked :: "sandbox_id \<Rightarrow> mem_ledger \<Rightarrow> bool" where
  "is_blocked i l \<longleftrightarrow> i \<in> lg_blocked l"

definition has_record :: "sandbox_id \<Rightarrow> mem_ledger \<Rightarrow> bool" where
  "has_record i l \<longleftrightarrow> bt_get (lg_records l) i \<noteq> None"

definition saturating_usize_add :: "nat \<Rightarrow> nat \<Rightarrow> nat" where
  "saturating_usize_add a b = min (2 ^ 64 - 1) (a + b)"

definition reserve_sandbox :: "caps \<Rightarrow> key_fingerprint \<Rightarrow> mem_ledger \<Rightarrow> (capacity_limit, unit) result \<times> mem_ledger" where
  "reserve_sandbox c owner l =
     (if unat (max_sandboxes c) \<le> saturating_usize_add (length (lg_records l)) (lg_reserved_sandboxes l)
      then (Inl LimitSandboxes, l)
      else if unat (max_sandboxes_per_owner c) \<le> (case lg_owner_counts l owner of None \<Rightarrow> 0 | Some n \<Rightarrow> n)
      then (Inl LimitSandboxesPerOwner, l)
      else (Inr (), l\<lparr>lg_reserved_sandboxes := lg_reserved_sandboxes l + 1,
                      lg_owner_counts := increment_owner owner (lg_owner_counts l)\<rparr>))"

definition release_sandbox :: "key_fingerprint \<Rightarrow> mem_ledger \<Rightarrow> mem_ledger" where
  "release_sandbox owner l =
     l\<lparr>lg_reserved_sandboxes := lg_reserved_sandboxes l - 1,
       lg_owner_counts := decrement_owner owner (lg_owner_counts l)\<rparr>"

definition insert_reserved :: "metadata \<Rightarrow> mem_ledger \<Rightarrow> mem_ledger" where
  "insert_reserved m l =
     l\<lparr>lg_reserved_sandboxes := lg_reserved_sandboxes l - 1,
       lg_records := bt_insert (md_id m) m (lg_records l)\<rparr>"

definition replace_record :: "metadata \<Rightarrow> mem_ledger \<Rightarrow> mem_ledger" where
  "replace_record m l = l\<lparr>lg_records := bt_insert (md_id m) m (lg_records l)\<rparr>"

section \<open>Processes\<close>

text \<open>Admission of a launch: the record must be active with the handle's owner, below the cap.\<close>

definition begin_launch ::
  "caps \<Rightarrow> bool \<Rightarrow> sandbox_id \<Rightarrow> key_fingerprint \<Rightarrow> mem_ledger
     \<Rightarrow> ((capacity_limit option, runtime_lease) result \<times> mem_ledger) option" where
  "begin_launch c frozen i owner l =
     (if frozen then Some (Inl None, l)
      else case bt_get (lg_records l) i of
             None \<Rightarrow> Some (Inl None, l)
           | Some m \<Rightarrow>
               if md_state m \<noteq> Active \<or> md_owner m \<noteq> owner then Some (Inl None, l)
               else if unat (max_concurrent_launches_per_sandbox c) \<le> length (runtime_tokens_for l i)
               then Some (Inl (Some LimitSandboxLaunches), l)
               else map_option (\<lambda>(token, l').
                      (Inr \<lparr>rt_token = token, rt_sandbox_id = i\<rparr>,
                       insert_runtime token
                         \<lparr>re_sandbox_id = i, re_marker = Launching, re_cancelled = False, re_process = None\<rparr> l'))
                    (next_runtime_token l))"

definition set_entry :: "u64 \<Rightarrow> runtime_entry \<Rightarrow> mem_ledger \<Rightarrow> mem_ledger" where
  "set_entry token entry l = l\<lparr>lg_runtime := AList.update token entry (lg_runtime l)\<rparr>"

text \<open>The commit point of a launch; \<open>durable\<close> is the fresh inspection of the directory.\<close>

definition durable_active :: "metadata option \<Rightarrow> metadata option \<Rightarrow> bool" where
  "durable_active durable known =
     (case (durable, known) of (Some m, Some r) \<Rightarrow> md_owner m = md_owner r | _ \<Rightarrow> False)"

definition commit_launch :: "metadata option \<Rightarrow> runtime_lease \<Rightarrow> process \<Rightarrow> mem_ledger \<Rightarrow> bool \<times> mem_ledger" where
  "commit_launch durable lease p l =
     (let known = bt_get (lg_records l) (rt_sandbox_id lease);
          sandbox_active = (case known of Some m \<Rightarrow> md_state m = Active | None \<Rightarrow> False)
      in case map_of (lg_runtime l) (rt_token lease) of
           Some entry \<Rightarrow>
             if re_marker entry = Launching \<and> re_sandbox_id entry = rt_sandbox_id lease \<and> sandbox_active
                \<and> durable_active durable known \<and> \<not> re_cancelled entry
             then (True, set_entry (rt_token lease) (entry\<lparr>re_marker := Running, re_process := Some p\<rparr>) l)
             else (False, l)
         | None \<Rightarrow> (False, l))"

text \<open>\<open>clear_runtime\<close>; \<open>reaped\<close> answers \<open>wait_for_cleanup\<close> with a zero timeout.\<close>

definition clear_runtime :: "(process \<Rightarrow> bool) \<Rightarrow> runtime_lease \<Rightarrow> mem_ledger \<Rightarrow> mem_ledger" where
  "clear_runtime reaped lease l =
     (case map_of (lg_runtime l) (rt_token lease) of
        None \<Rightarrow> l
      | Some entry \<Rightarrow>
          if re_sandbox_id entry = rt_sandbox_id lease
             \<and> (case re_process entry of None \<Rightarrow> True | Some p \<Rightarrow> reaped p)
          then snd (remove_runtime (rt_token lease) l) else l)"

text \<open>Cancellation marks every entry of a sandbox and collects the processes to terminate.\<close>

definition mark_cancelled :: "u64 \<Rightarrow> logged" where
  "mark_cancelled t l =
     (case map_of (lg_runtime l) t of
        None \<Rightarrow> (l, [])
      | Some entry \<Rightarrow>
          (set_entry t (entry\<lparr>re_cancelled := True\<rparr>) l,
           case re_process entry of None \<Rightarrow> [] | Some p \<Rightarrow> [p]))"

definition processes_of :: "u64 list \<Rightarrow> mem_ledger \<Rightarrow> process list" where
  "processes_of ts l = List.map_filter (\<lambda>t. Option.bind (map_of (lg_runtime l) t) re_process) ts"


section \<open>The scan at startup\<close>

definition adopt_record :: "sandbox_id \<Rightarrow> metadata \<Rightarrow> logged" where
  "adopt_record i m l =
     (let same = (case bt_get (lg_records l) i of None \<Rightarrow> True | Some existing \<Rightarrow> same_identity existing m) in
      if same then
        (let l' = l\<lparr>lg_records := bt_insert i m (lg_records l),
                   lg_owner_counts :=
                     (case bt_get (lg_records l) i of
                        Some previous \<Rightarrow>
                          if md_owner previous \<noteq> md_owner m
                          then increment_owner (md_owner m) (decrement_owner (md_owner previous) (lg_owner_counts l))
                          else lg_owner_counts l
                      | None \<Rightarrow> increment_owner (md_owner m) (lg_owner_counts l))\<rparr>
         in (l'\<lparr>lg_blocked := lg_blocked l' - {i}\<rparr>, []))
      else (case remove_record_from_ledger i l of (l', ps) \<Rightarrow> (block i l', ps)))"

definition reconcile_entry :: "sandbox_id \<times> entry \<Rightarrow> logged" where
  "reconcile_entry x l =
     (case x of (i, e) \<Rightarrow>
       (case e of
          EntryActive m \<Rightarrow> adopt_record i m l
        | EntryDeleting m \<Rightarrow> adopt_record i m l
        | EntryCorrupt _ \<Rightarrow> (case remove_record_from_ledger i l of (l', ps) \<Rightarrow> (block i l', ps))
        | EntryAbsent \<Rightarrow> (l, [])))"

definition reconcile_scan :: "scan_result \<Rightarrow> logged" where
  "reconcile_scan r l =
     (let l0 = l\<lparr>lg_unknown_entries := sr_unknown_entries r\<rparr>;
          seen = set (map fst (sr_entries r))
      in case for_log (sr_entries r) reconcile_entry l0 of (l1, ps) \<Rightarrow>
         case for_log (filter (\<lambda>i. i \<notin> seen) (map fst (lg_records l1))) remove_record_from_ledger l1 of (l2, qs) \<Rightarrow>
           (l2, ps @ qs))"

end
