(* ===== verification/Lifecycle_Locks.thy ===== *)
theory Lifecycle_Locks
  imports Sandbox_Id "HOL-Library.AList"
begin

text \<open>
  The per-sandbox lifecycle mutexes of the manager (\<open>lifecycle_lock\<close> and \<open>LifecycleLock\<close> in
  \<open>sandbox/manager.rs\<close>): a map from identifiers to shared mutexes. A mutex is the number of its
  allocation; its strong count is the number of guards that hold a clone, and one more for the map.
\<close>

section \<open>Model\<close>

record lock_table =
  lt_map :: "(sandbox_id \<times> nat) list"
  lt_guards :: "nat list"
  lt_next :: nat

definition locks_new :: lock_table where
  "locks_new = \<lparr>lt_map = [], lt_guards = [], lt_next = 0\<rparr>"

definition strong_count :: "lock_table \<Rightarrow> nat \<Rightarrow> nat" where
  "strong_count t a = count_list (map snd (lt_map t)) a + count_list (lt_guards t) a"

text \<open>The entry of the identifier, allocated when it is missing, and a guard with a clone of it.\<close>

definition lifecycle_lock :: "sandbox_id \<Rightarrow> lock_table \<Rightarrow> nat \<times> lock_table" where
  "lifecycle_lock i t =
     (case map_of (lt_map t) i of
        Some a \<Rightarrow> (a, t\<lparr>lt_guards := a # lt_guards t\<rparr>)
      | None \<Rightarrow>
          (lt_next t, t\<lparr>lt_map := (i, lt_next t) # lt_map t, lt_guards := lt_next t # lt_guards t,
                        lt_next := lt_next t + 1\<rparr>))"

text \<open>The drop handler runs while the guard still holds its clone; then the clone goes away.\<close>

definition lifecycle_drop :: "nat \<Rightarrow> lock_table \<Rightarrow> lock_table" where
  "lifecycle_drop a t =
     (let t' = (if strong_count t a = 1 then t\<lparr>lt_map := filter (\<lambda>(i, b). b \<noteq> a) (lt_map t)\<rparr> else t)
      in t'\<lparr>lt_guards := remove1 a (lt_guards t')\<rparr>)"

text \<open>A run of requests, each of which takes and drops the lock of its identifier.\<close>

fun serve :: "sandbox_id list \<Rightarrow> lock_table \<Rightarrow> lock_table" where
  "serve [] t = t"
| "serve (i # is) t = (case lifecycle_lock i t of (a, u) \<Rightarrow> serve is (lifecycle_drop a u))"

section \<open>What the map keeps\<close>

lemma lock_in_map:
  assumes "lifecycle_lock i t = (a, u)"
  shows "a \<in> snd ` set (lt_map u)" and "a \<in> set (lt_guards u)"
    and "fst ` set (lt_map u) = insert i (fst ` set (lt_map t))"
  using assms map_of_SomeD [of "lt_map t" i]
  by (force simp: lifecycle_lock_def map_of_eq_None_iff split: option.splits)+

text \<open>The handler sees at least its own clone and the one in the map, so it never removes anything.\<close>

lemma drop_keeps_map:
  assumes "a \<in> snd ` set (lt_map t)" and "a \<in> set (lt_guards t)"
  shows "lt_map (lifecycle_drop a t) = lt_map t"
proof -
  have "count_list (map snd (lt_map t)) a \<noteq> 0" "count_list (lt_guards t) a \<noteq> 0"
    using assms by (simp_all add: count_list_0_iff)
  then have "strong_count t a \<noteq> 1" by (simp add: strong_count_def)
  then show ?thesis by (simp add: lifecycle_drop_def)
qed

lemma serve_map: "fst ` set (lt_map (serve is t)) = fst ` set (lt_map t) \<union> set is"
proof (induction "is" arbitrary: t)
  case Nil
  then show ?case by simp
next
  case (Cons i "is")
  obtain a u where l: "lifecycle_lock i t = (a, u)" by force
  note m = lock_in_map [OF l]
  from drop_keeps_map [OF m(1,2)] m(3) Cons.IH [of "lifecycle_drop a u"] l show ?case by auto
qed

text \<open>
  C40. The map of lifecycle locks keeps an entry for every identifier ever requested: however many
  requests have finished, their entries are still there, because the drop handler compares the
  strong count with one while the map itself holds a clone.
\<close>

theorem lifecycle_locks_never_shrink:
  "fst ` set (lt_map (serve ids locks_new)) = set ids \<and> lt_guards (serve ids locks_new) = []"
proof
  show "fst ` set (lt_map (serve ids locks_new)) = set ids" by (simp add: serve_map locks_new_def)
  have "lt_guards t = [] \<Longrightarrow> lt_guards (serve ids t) = []" for t
  proof (induction ids arbitrary: t)
    case Nil
    then show ?case by simp
  next
    case (Cons i ids)
    obtain a u where l: "lifecycle_lock i t = (a, u)" by force
    then have "lt_guards u = [a]" using Cons.prems by (auto simp: lifecycle_lock_def split: option.splits)
    then have "lt_guards (lifecycle_drop a u) = []" by (simp add: lifecycle_drop_def Let_def)
    with Cons.IH l show ?case by simp
  qed
  then show "lt_guards (serve ids locks_new) = []" by (simp add: locks_new_def)
qed

end
