(* ===== verification/Delegation_Ranges.thy ===== *)
theory Delegation_Ranges
  imports BTree_Map Platform_Env
begin

text \<open>
  Delegated subordinate-ID ranges and the pool of free IDs: \<open>SubidRange\<close> and \<open>Delegation\<close> of
  \<open>sandbox/subid/delegation.rs\<close>, \<open>AvailableIds\<close> of \<open>sandbox/subid/mod.rs\<close>. IDs are 32-bit
  words and range ends 64-bit words, with the truncating casts and the wrap-around of a
  release build.
\<close>

section \<open>Model: ranges\<close>

record subid_range =
  sr_start :: u32
  sr_count :: u32

datatype delegation_error =
    HelperMissing
  | HelperIo string
  | HelperFailed "int option" string
  | AccountLookup
  | CachePoisoned
  | GenerationChanged
  | MalformedLine string
  | MalformedRange string string
  | RangeError string

definition subid_range_new :: "u64 \<Rightarrow> u64 \<Rightarrow> (delegation_error, subid_range) result" where
  "subid_range_new start count =
     (if count = 0 then Inl (RangeError ''zero-length subordinate range'')
      else if ucast (- 1 :: u32) < start
        then Inl (RangeError ''range start exceeds the 32-bit ID space'')
      else let e = start + count in
           if ucast (- 1 :: u32) + 1 < e
           then Inl (RangeError ''range end overflows the 32-bit ID space'')
           else Inr \<lparr>sr_start = ucast start, sr_count = ucast count\<rparr>)"

definition range_end :: "subid_range \<Rightarrow> u64" where
  "range_end r = ucast (sr_start r) + ucast (sr_count r)"

definition range_contains :: "subid_range \<Rightarrow> u32 \<Rightarrow> bool" where
  "range_contains r i \<longleftrightarrow> ucast (sr_start r) \<le> (ucast i :: u64) \<and> ucast i < range_end r"

text \<open>The IDs of a range in increasing order, each cast back to 32 bits.\<close>

definition range_ids :: "subid_range \<Rightarrow> u32 list" where
  "range_ids r = map (\<lambda>n. of_nat n) [unat (sr_start r) ..< unat (range_end r)]"

record delegation =
  uid_ranges :: "subid_range list"
  gid_ranges :: "subid_range list"

definition contains_uid :: "delegation \<Rightarrow> u32 \<Rightarrow> bool" where
  "contains_uid d uid = list_ex (\<lambda>r. range_contains r uid) (uid_ranges d)"

definition contains_gid :: "delegation \<Rightarrow> u32 \<Rightarrow> bool" where
  "contains_gid d gid = list_ex (\<lambda>r. range_contains r gid) (gid_ranges d)"

section \<open>Model: the pool of free IDs\<close>

type_synonym available_ids = "(u32, u32) btree_map"

definition range_interval :: "subid_range \<Rightarrow> u32 \<times> u32" where
  "range_interval r =
     (let count = (of_nat (length (range_ids r)) :: u64);
          e = ucast (sr_start r) + count - 1
      in (sr_start r, ucast e))"

definition merge_step :: "(u32 \<times> u32) list \<Rightarrow> u32 \<times> u32 \<Rightarrow> (u32 \<times> u32) list" where
  "merge_step merged = (\<lambda>(start, e).
     if merged \<noteq> [] \<and> start \<le> saturating_add (snd (last merged)) 1
     then butlast merged @ [(fst (last merged), max (snd (last merged)) e)]
     else merged @ [(start, e)])"

definition available_from_ranges :: "subid_range list \<Rightarrow> available_ids" where
  "available_from_ranges ranges =
     bt_collect (foldl merge_step [] (sort (map range_interval ranges)))"

definition available_remove :: "u32 \<Rightarrow> available_ids \<Rightarrow> available_ids" where
  "available_remove i m =
     (case bt_last_le i m of
        None \<Rightarrow> m
      | Some (start, e) \<Rightarrow>
          if e < i then m
          else if start = e then bt_remove start m
          else if i = start then bt_insert (i + 1) e (bt_remove start m)
          else if i = e then bt_insert start (e - 1) m
          else bt_insert (i + 1) e (bt_insert start (i - 1) m))"

definition available_lowest :: "available_ids \<Rightarrow> u32 option" where
  "available_lowest m = map_option fst (bt_first m)"

section \<open>What a pool denotes\<close>

definition pool_ids :: "available_ids \<Rightarrow> u32 set" where
  "pool_ids m = (\<Union>(s, e) \<in> set m. {s..e})"

definition pool_inv :: "available_ids \<Rightarrow> bool" where
  "pool_inv m \<longleftrightarrow> sorted_wrt (\<lambda>p q. snd p < fst q) m \<and> (\<forall>p \<in> set m. fst p \<le> snd p)"

definition valid_range :: "subid_range \<Rightarrow> bool" where
  "valid_range r \<longleftrightarrow> sr_count r \<noteq> 0 \<and> unat (sr_start r) + unat (sr_count r) \<le> 2 ^ 32"

definition range_set :: "subid_range \<Rightarrow> u32 set" where
  "range_set r = {i. range_contains r i}"

section \<open>Words and intervals\<close>

lemma unat_succ: "i < e \<Longrightarrow> unat (i + 1) = unat i + 1" for i e :: "'a::len word"
proof -
  assume "i < e"
  then have "unat i + 1 \<le> unat e" by (simp add: word_less_nat_alt)
  also have "unat e < 2 ^ LENGTH('a)" by (rule unsigned_less)
  finally show ?thesis by (simp add: unat_word_ariths)
qed

lemma less_succ: "i < e \<Longrightarrow> i < i + 1" for i e :: "'a::len word"
  by (simp add: unat_succ word_less_nat_alt)

lemma unat_pred: "s < i \<Longrightarrow> unat (i - 1) = unat i - 1" for s i :: "'a::len word"
  by (simp add: word_less_nat_alt unat_sub_if')

lemma succ_le_iff: "i < e \<Longrightarrow> i + 1 \<le> x \<longleftrightarrow> i < x" for i e x :: "'a::len word"
  by (simp add: unat_succ word_less_nat_alt word_le_nat_alt Suc_le_eq)

lemma le_pred_iff: "s < i \<Longrightarrow> x \<le> i - 1 \<longleftrightarrow> x < i" for s i x :: "'a::len word"
  by (auto simp: unat_pred word_less_nat_alt word_le_nat_alt)

section \<open>Removal from a pool\<close>

lemma pool_ids_simps [simp]:
  "pool_ids [] = {}" "pool_ids ((s, e) # m) = {s..e} \<union> pool_ids m"
  "pool_ids (m @ n) = pool_ids m \<union> pool_ids n"
  by (auto simp: pool_ids_def)

lemma pool_inv_Nil [simp]: "pool_inv []"
  by (simp add: pool_inv_def)

lemma pool_inv_Cons [simp]:
  "pool_inv ((s, e) # m) \<longleftrightarrow> s \<le> e \<and> (\<forall>k \<in> bt_keys m. e < k) \<and> pool_inv m"
  by (auto simp: pool_inv_def bt_keys_def)

lemma pool_inv_sorted: "pool_inv m \<Longrightarrow> bt_sorted m"
  by (induction m) (auto dest!: bspec intro: le_less_trans)

lemma pool_above: "pool_inv m \<Longrightarrow> (\<forall>k \<in> bt_keys m. e < k) \<Longrightarrow> x \<in> pool_ids m \<Longrightarrow> e < x"
  by (induction m) (auto intro: less_le_trans)

text \<open>Removal as one pass over the intervals; the map operations compute the same.\<close>

fun remove_pass :: "u32 \<Rightarrow> available_ids \<Rightarrow> available_ids" where
  "remove_pass i [] = []"
| "remove_pass i ((s, e) # m) =
     (if i < s then (s, e) # m
      else if e < i then (s, e) # remove_pass i m
      else (if s < i then [(s, i - 1)] else []) @ (if i < e then [(i + 1, e)] else []) @ m)"

lemma bt_last_le_none: "(\<forall>k \<in> bt_keys m. i < k) \<Longrightarrow> bt_last_le i m = None"
  by (induction m) (auto simp: bt_last_le_def)

lemma bt_last_le_Cons:
  "bt_last_le i ((s, e) # m) =
     (case bt_last_le i m of Some p \<Rightarrow> Some p | None \<Rightarrow> if s \<le> i then Some (s, e) else None)"
  by (auto simp: bt_last_le_def Let_def)

lemma bt_last_le_Some: "bt_last_le i m = Some (s, e) \<Longrightarrow> (s, e) \<in> set m \<and> s \<le> i"
  using last_in_set [of "filter (\<lambda>(a, b). a \<le> i) m"]
  by (auto simp: bt_last_le_def Let_def split: if_splits)

lemma bt_insert_front: "(\<forall>k' \<in> bt_keys m. k < k') \<Longrightarrow> bt_insert k v m = (k, v) # m"
  by (cases m) auto

lemma available_remove_skip:
  assumes "pool_inv ((s, e) # m)" and "e < i"
  shows "available_remove i ((s, e) # m) = (s, e) # available_remove i m"
proof (cases "bt_last_le i m")
  case None
  with assms show ?thesis by (simp add: available_remove_def bt_last_le_Cons)
next
  case (Some p)
  obtain s' e' where p: "p = (s', e')" by force
  with Some have "(s', e') \<in> set m" "s' \<le> i" by (auto dest: bt_last_le_Some)
  then have k: "s' \<in> bt_keys m" by (force simp: bt_keys_def)
  from assms(1) k have lt: "s < s'" by (auto intro: le_less_trans)
  have ins: "bt_insert k v ((s, e) # n) = (s, e) # bt_insert k v n" if "s < k" for k v n
    using that by auto
  have rem: "bt_remove k ((s, e) # m) = (s, e) # bt_remove k m" if "s < k" for k
    using that by auto
  consider "e' < i" | "i = e'" | "i < e'" by (rule linorder_cases)
  then show ?thesis
  proof cases
    case 3
    have "s < i" using lt \<open>s' \<le> i\<close> by (rule less_le_trans)
    also have "i < i + 1" using 3 by (rule less_succ)
    finally have "s < i + 1" .
    moreover have "s' \<noteq> e'" "\<not> e' < i" "i \<noteq> e'" using 3 \<open>s' \<le> i\<close> by auto
    ultimately show ?thesis using lt Some p
      by (cases "i = s'") (simp_all add: available_remove_def bt_last_le_Cons ins rem
          del: bt_insert.simps bt_remove.simps)
  qed (use lt Some p in \<open>simp_all add: available_remove_def bt_last_le_Cons ins rem
      del: bt_insert.simps bt_remove.simps\<close>)
qed

lemma available_remove_pass: "pool_inv m \<Longrightarrow> available_remove i m = remove_pass i m"
proof (induction m)
  case Nil
  then show ?case by (simp add: available_remove_def bt_last_le_def)
next
  case (Cons p m)
  obtain s e where p: "p = (s, e)" by force
  have inv: "s \<le> e" "\<forall>k \<in> bt_keys m. e < k" "pool_inv m" using Cons.prems p by auto
  consider "i < s" | "e < i" | "s \<le> i" "i \<le> e" by fastforce
  then show ?case
  proof cases
    case 1
    with inv have "\<forall>k \<in> bt_keys (p # m). i < k" by (auto simp: p intro: less_trans le_less_trans)
    then show ?thesis using 1 by (simp add: available_remove_def bt_last_le_none p)
  next
    case 2
    with inv have "\<not> i < s" by auto
    with 2 Cons inv show ?thesis by (simp add: p available_remove_skip)
  next
    case 3
    with inv have "\<forall>k \<in> bt_keys m. i < k" by (auto intro: le_less_trans)
    then have l: "bt_last_le i (p # m) = Some (s, e)" using 3 by (simp add: p bt_last_le_Cons bt_last_le_none)
    have f: "bt_insert (i + 1) e m = (i + 1, e) # m" if "i < e"
    proof (rule bt_insert_front)
      have "i + 1 \<le> e" using succ_le_iff [OF that, of e] that by simp
      with inv(2) show "\<forall>k \<in> bt_keys m. i + 1 < k" by (meson le_less_trans)
    qed
    have s: "s < i + 1" if "i < e" using 3(1) less_succ [OF that] by (rule le_less_trans)
    have n: "\<not> i < s" "\<not> e < i" using 3 by auto
    show ?thesis
    proof (cases "i = e")
      case True
      with l n inv(1) show ?thesis by (simp add: available_remove_def p order_less_le)
    next
      case False
      with 3 have lt: "i < e" by simp
      with 3 have "s \<noteq> e" by auto
      moreover have "i + 1 \<noteq> s" "\<not> i + 1 < s" using s [OF lt] by auto
      ultimately show ?thesis using l f [OF lt] s [OF lt] n lt False
        by (cases "i = s") (simp_all add: available_remove_def p)
    qed
  qed
qed

lemma remove_pass_ids: "pool_inv m \<Longrightarrow> pool_ids (remove_pass i m) = pool_ids m - {i}"
proof (induction m)
  case Nil
  then show ?case by simp
next
  case (Cons p m)
  obtain s e where p: "p = (s, e)" by force
  have inv: "s \<le> e" "\<forall>k \<in> bt_keys m. e < k" "pool_inv m" using Cons.prems p by auto
  have above: "x \<in> pool_ids m \<Longrightarrow> e < x" for x using pool_above [OF inv(3,2)] .
  consider "i < s" | "e < i" | "s \<le> i" "i \<le> e" by fastforce
  then show ?case
  proof cases
    case 1
    with inv above show ?thesis by (fastforce simp: p)
  next
    case 2
    with inv Cons.IH show ?thesis by (auto simp: p)
  next
    case 3
    have l: "pool_ids (if s < i then [(s, i - 1)] else []) = {x. s \<le> x \<and> x < i}"
      by (auto simp: le_pred_iff)
    have r: "pool_ids (if i < e then [(i + 1, e)] else []) = {x. i < x \<and> x \<le> e}"
      by (auto simp: succ_le_iff)
    have "{x. s \<le> x \<and> x < i} \<union> {x. i < x \<and> x \<le> e} = {s..e} - {i}" using 3 by auto
    moreover have "i \<notin> pool_ids m" using above 3 by force
    moreover have "\<not> i < s" "\<not> e < i" using 3 by auto
    then have "remove_pass i (p # m) =
        (if s < i then [(s, i - 1)] else []) @ (if i < e then [(i + 1, e)] else []) @ m"
      by (simp add: p)
    ultimately show ?thesis by (simp only: pool_ids_simps l r p) auto
  qed
qed

lemma remove_pass_keys: "pool_inv m \<Longrightarrow> k \<in> bt_keys (remove_pass i m) \<Longrightarrow> \<exists>j \<in> bt_keys m. j \<le> k"
proof (induction m)
  case Nil
  then show ?case by simp
next
  case (Cons p m)
  obtain s e where p: "p = (s, e)" by force
  from Cons.prems p have "k \<in> bt_keys (remove_pass i m) \<or> k = s \<or> k \<in> bt_keys m \<or> (k = i + 1 \<and> s \<le> i \<and> i < e)"
    by (auto split: if_splits simp: not_less)
  moreover have "s \<le> i + 1" if "s \<le> i" "i < e"
    using that less_succ [OF that(2)] by (meson le_less_trans less_imp_le)
  ultimately show ?case using Cons.IH Cons.prems by (auto simp: p)
qed

lemma remove_pass_inv: "pool_inv m \<Longrightarrow> pool_inv (remove_pass i m)"
proof (induction m)
  case Nil
  then show ?case by simp
next
  case (Cons p m)
  obtain s e where p: "p = (s, e)" by force
  have inv: "s \<le> e" "\<forall>k \<in> bt_keys m. e < k" "pool_inv m" using Cons.prems p by auto
  consider "i < s" | "e < i" "\<not> i < s" | "\<not> i < s" "\<not> e < i" by blast
  then show ?case
  proof cases
    case 1
    with inv show ?thesis by (simp add: p)
  next
    case 2
    have "\<forall>k \<in> bt_keys (remove_pass i m). e < k"
      using inv remove_pass_keys [OF inv(3)] by (blast intro: less_le_trans)
    with 2 inv Cons.IH show ?thesis by (simp add: p)
  next
    case 3
    have r: "i + 1 \<le> e" "i < i + 1" if "i < e"
      using that succ_le_iff [OF that, of e] less_succ by auto
    have l: "s \<le> i - 1" "i - 1 < i" if "s < i"
      using that le_pred_iff [OF that, of s] le_pred_iff [OF that, of "i - 1"] by auto
    have "\<forall>k \<in> bt_keys m. i - 1 < k" if "s < i"
      using inv(2) l(2) [OF that] 3(2) by (meson le_less_trans not_less less_trans)
    moreover have "i - 1 < i + 1" if "s < i" "i < e"
      using l(2) [OF that(1)] r(2) [OF that(2)] by (rule less_trans)
    ultimately show ?thesis using 3 inv r(1) l(1)
      by (cases "s < i"; cases "i < e") (simp_all add: p)
  qed
qed

lemma available_remove_inv: "pool_inv m \<Longrightarrow> pool_inv (available_remove i m)"
  by (simp add: available_remove_pass remove_pass_inv)

lemma available_remove_ids: "pool_inv m \<Longrightarrow> pool_ids (available_remove i m) = pool_ids m - {i}"
  by (simp add: available_remove_pass remove_pass_ids)

lemma available_lowest_None: "pool_inv m \<Longrightarrow> available_lowest m = None \<longleftrightarrow> pool_ids m = {}"
  by (cases m) (auto simp: available_lowest_def bt_first_def)

lemma available_lowest_Some:
  assumes "pool_inv m" and "available_lowest m = Some i"
  shows "i \<in> pool_ids m" and "x \<in> pool_ids m \<Longrightarrow> i \<le> x"
proof -
  from assms obtain e m' where m: "m = (i, e) # m'"
    by (auto simp: available_lowest_def bt_first_def split: list.splits)
  with assms show "i \<in> pool_ids m" by auto
  show "i \<le> x" if "x \<in> pool_ids m"
    using that assms m pool_above [of m' e x] by auto
qed
section \<open>Building a pool from ranges\<close>

lemma unat_u32: "unat w < 2 ^ 32" for w :: u32
proof -
  have "unat w < 2 ^ LENGTH(32)" by (rule unsigned_less)
  then show ?thesis by simp
qed

lemma unat_ucast_u64 [simp]: "unat (ucast w :: u64) = unat w" for w :: u32
  using unat_u32 [of w] by (simp add: unsigned_ucast_eq take_bit_nat_eq_self)

lemma unat_range_end: "unat (range_end r) = unat (sr_start r) + unat (sr_count r)"
proof -
  have "unat (sr_start r) < 2 ^ 32" "unat (sr_count r) < 2 ^ 32"
    by (rule unat_u32)+
  then show ?thesis by (simp add: range_end_def unat_word_ariths)
qed

lemma range_contains_iff:
  "range_contains r i \<longleftrightarrow>
     unat (sr_start r) \<le> unat i \<and> unat i < unat (sr_start r) + unat (sr_count r)"
  by (simp add: range_contains_def word_le_nat_alt word_less_nat_alt unat_range_end)

lemma length_range_ids: "length (range_ids r) = unat (sr_count r)"
  by (simp add: range_ids_def unat_range_end)

lemma set_range_ids: "valid_range r \<Longrightarrow> set (range_ids r) = range_set r"
proof -
  assume v: "valid_range r"
  show ?thesis
  proof (rule set_eqI)
    fix i
    have "i \<in> set (range_ids r) \<longleftrightarrow> (\<exists>n. unat (sr_start r) \<le> n \<and> n < unat (range_end r) \<and> i = of_nat n)"
      by (auto simp: range_ids_def)
    also have "\<dots> \<longleftrightarrow> unat (sr_start r) \<le> unat i \<and> unat i < unat (range_end r)"
      using v by (auto simp: unat_range_end valid_range_def unsigned_of_nat take_bit_nat_eq_self)
    finally show "i \<in> set (range_ids r) \<longleftrightarrow> i \<in> range_set r"
      by (simp add: range_set_def range_contains_iff unat_range_end)
  qed
qed

lemma range_interval_valid:
  assumes "valid_range r"
  shows "fst (range_interval r) \<le> snd (range_interval r)"
    and "{fst (range_interval r)..snd (range_interval r)} = range_set r"
proof -
  let ?s = "unat (sr_start r)" and ?c = "unat (sr_count r)"
  have c: "0 < ?c" "?s + ?c \<le> 2 ^ 32" using assms by (auto simp: valid_range_def unat_eq_zero [symmetric])
  have "snd (range_interval r) = ucast (range_end r - 1)"
    by (simp add: range_interval_def Let_def length_range_ids range_end_def)
  moreover have "unat (range_end r - 1) = ?s + ?c - 1"
    using c by (simp add: unat_sub_if' unat_range_end)
  ultimately have e: "unat (snd (range_interval r)) = ?s + ?c - 1"
    using c by (simp add: unsigned_ucast_eq take_bit_nat_eq_self)
  have f: "fst (range_interval r) = sr_start r" by (simp add: range_interval_def Let_def)
  show "fst (range_interval r) \<le> snd (range_interval r)" using c by (simp add: f e word_le_nat_alt)
  show "{fst (range_interval r)..snd (range_interval r)} = range_set r"
    using c by (auto simp: f e word_le_nat_alt range_set_def range_contains_iff)
qed

lemma pool_inv_snoc:
  "pool_inv (m @ [(s, e)]) \<longleftrightarrow> pool_inv m \<and> s \<le> e \<and> (\<forall>p \<in> set m. snd p < s)"
  by (auto simp: pool_inv_def sorted_wrt_append)

lemma saturating_add_1: "saturating_add pe 1 = (if pe = - 1 then - 1 else pe + 1)" for pe :: u32
proof -
  have m: "unat (- 1 :: u32) = 2 ^ 32 - 1" by (simp add: unsigned_minus_1_eq_mask mask_eq_exp_minus_1)
  have "pe = - 1 \<longleftrightarrow> unat pe = unat (- 1 :: u32)" by (simp only: word_unat_eq_iff)
  with m unat_u32 [of pe] show ?thesis by (auto simp: saturating_add_def)
qed

lemma le_saturating:
  fixes s pe :: u32
  assumes "\<not> s \<le> saturating_add pe 1" shows "pe < s"
proof (cases "pe = - 1")
  case True
  with assms show ?thesis by (simp add: saturating_add_1)
next
  case False
  then have "pe < - 1" by (simp add: order_less_le)
  from assms False have "pe + 1 < s" by (simp add: saturating_add_1)
  with less_succ [OF \<open>pe < - 1\<close>] show ?thesis by (rule less_trans)
qed

lemma union_adjacent:
  fixes s e ps pe :: u32
  assumes "s \<le> saturating_add pe 1" and "ps \<le> s" and "ps \<le> pe" and "s \<le> e"
  shows "{ps..pe} \<union> {s..e} = {ps..max pe e}"
proof -
  have "x < s \<Longrightarrow> x \<le> pe" for x
  proof (cases "pe = - 1")
    case False
    then have "pe < - 1" by (simp add: order_less_le)
    moreover assume "x < s"
    ultimately show "x \<le> pe" using assms(1) False succ_le_iff [of pe "- 1" x]
      by (simp add: saturating_add_1) (meson less_le_trans linorder_not_less)
  qed simp
  with assms(2-4) show ?thesis by (auto simp: max_def not_less)
qed

lemma merge_step_inv:
  assumes "pool_inv m" and "s \<le> e" and "m \<noteq> [] \<Longrightarrow> fst (last m) \<le> s"
  shows "pool_inv (merge_step m (s, e))" and "pool_ids (merge_step m (s, e)) = pool_ids m \<union> {s..e}"
    and "merge_step m (s, e) \<noteq> []" and "fst (last (merge_step m (s, e))) \<le> s"
proof -
  show "merge_step m (s, e) \<noteq> []" by (simp add: merge_step_def)
  show "fst (last (merge_step m (s, e))) \<le> s" using assms(3) by (simp add: merge_step_def)
  show "pool_inv (merge_step m (s, e))"
  proof (cases m rule: rev_cases)
    case Nil
    with assms show ?thesis by (simp add: merge_step_def)
  next
    case (snoc m' p)
    obtain ps pe where p: "p = (ps, pe)" by force
    show ?thesis using assms le_saturating [of s pe] unfolding snoc p
      by (auto simp: merge_step_def pool_inv_def sorted_wrt_append max_def intro: less_trans)
  qed
  show "pool_ids (merge_step m (s, e)) = pool_ids m \<union> {s..e}"
  proof (cases m rule: rev_cases)
    case Nil
    then show ?thesis by (simp add: merge_step_def)
  next
    case (snoc m' p)
    obtain ps pe where p: "p = (ps, pe)" by force
    have "ps \<le> pe" "ps \<le> s" using assms by (auto simp: snoc p pool_inv_snoc)
    then show ?thesis using union_adjacent [of s pe ps e] assms(2)
      by (auto simp: merge_step_def snoc p)
  qed
qed

lemma merge_fold:
  assumes "pool_inv m" and "sorted xs" and "\<forall>p \<in> set xs. fst p \<le> snd p"
    and "m \<noteq> [] \<Longrightarrow> \<forall>p \<in> set xs. fst (last m) \<le> fst p"
  shows "pool_inv (foldl merge_step m xs)
    \<and> pool_ids (foldl merge_step m xs) = pool_ids m \<union> (\<Union>p \<in> set xs. {fst p..snd p})"
  using assms
proof (induction xs arbitrary: m)
  case Nil
  then show ?case by simp
next
  case (Cons p xs)
  obtain s e where p: "p = (s, e)" by force
  have le: "s \<le> e" "m \<noteq> [] \<Longrightarrow> fst (last m) \<le> s" using Cons.prems p by auto
  note step = merge_step_inv [OF Cons.prems(1) le]
  have "\<forall>q \<in> set xs. s \<le> fst q" using Cons.prems(2) p by (auto simp: less_eq_prod_def)
  with step(4) have "\<forall>q \<in> set xs. fst (last (merge_step m (s, e))) \<le> fst q"
    by (blast intro: order_trans)
  with Cons.IH [OF step(1)] Cons.prems step(2) show ?case by (auto simp: p)
qed

lemma available_from_ranges:
  assumes "\<forall>r \<in> set rs. valid_range r"
  shows "pool_inv (available_from_ranges rs)"
    and "pool_ids (available_from_ranges rs) = (\<Union>r \<in> set rs. range_set r)"
proof -
  let ?xs = "sort (map range_interval rs)"
  have "\<forall>p \<in> set ?xs. fst p \<le> snd p" using assms range_interval_valid(1) by auto
  with merge_fold [of "[]" ?xs]
  have m: "pool_inv (foldl merge_step [] ?xs)"
    "pool_ids (foldl merge_step [] ?xs) = (\<Union>r \<in> set rs. {fst (range_interval r)..snd (range_interval r)})"
    by auto
  then show "pool_inv (available_from_ranges rs)"
    by (simp add: available_from_ranges_def bt_collect_sorted pool_inv_sorted)
  show "pool_ids (available_from_ranges rs) = (\<Union>r \<in> set rs. range_set r)"
    using m assms by (simp add: available_from_ranges_def bt_collect_sorted pool_inv_sorted
        range_interval_valid(2))
qed

section \<open>The contract of a pool\<close>

text \<open>
  What the allocator relies on: removal takes one ID out of the pool and the lowest ID is the
  least of those left. Its selection lemmas hold for every pool with these laws.
\<close>

locale id_pool =
  fixes remove :: "'i::linorder \<Rightarrow> 'p \<Rightarrow> 'p"
    and lowest :: "'p \<Rightarrow> 'i option"
    and ids :: "'p \<Rightarrow> 'i set"
    and invar :: "'p \<Rightarrow> bool"
  assumes invar_remove: "invar m \<Longrightarrow> invar (remove i m)"
    and ids_remove: "invar m \<Longrightarrow> ids (remove i m) = ids m - {i}"
    and lowest_None: "invar m \<Longrightarrow> lowest m = None \<longleftrightarrow> ids m = {}"
    and lowest_in: "invar m \<Longrightarrow> lowest m = Some i \<Longrightarrow> i \<in> ids m"
    and lowest_le: "invar m \<Longrightarrow> lowest m = Some i \<Longrightarrow> x \<in> ids m \<Longrightarrow> i \<le> x"
begin

lemma fold_remove:
  "invar m \<Longrightarrow> invar (fold remove us m) \<and> ids (fold remove us m) = ids m - set us"
  by (induction us arbitrary: m) (auto simp: invar_remove ids_remove)

lemma select_None: "invar m \<Longrightarrow> lowest (fold remove us m) = None \<longleftrightarrow> ids m \<subseteq> set us"
  using fold_remove [of m us] by (auto simp: lowest_None)

lemma select_Some:
  assumes "invar m"
  shows "lowest (fold remove us m) = Some i \<longleftrightarrow>
    i \<in> ids m \<and> i \<notin> set us \<and> (\<forall>x \<in> ids m. x \<notin> set us \<longrightarrow> i \<le> x)"
proof
  assume "lowest (fold remove us m) = Some i"
  with fold_remove [OF assms, of us] lowest_in lowest_le
  show "i \<in> ids m \<and> i \<notin> set us \<and> (\<forall>x \<in> ids m. x \<notin> set us \<longrightarrow> i \<le> x)" by fastforce
next
  assume i: "i \<in> ids m \<and> i \<notin> set us \<and> (\<forall>x \<in> ids m. x \<notin> set us \<longrightarrow> i \<le> x)"
  then have "lowest (fold remove us m) \<noteq> None" using select_None [OF assms] by auto
  then obtain j where j: "lowest (fold remove us m) = Some j" by auto
  with fold_remove [OF assms, of us] lowest_in lowest_le i have "j = i"
    by (metis DiffD1 DiffD2 DiffI antisym)
  with j show "lowest (fold remove us m) = Some i" by simp
qed

end

interpretation pool: id_pool available_remove available_lowest pool_ids pool_inv
  by unfold_locales
    (auto simp: available_remove_inv available_remove_ids available_lowest_None
      dest: available_lowest_Some)

section \<open>Range construction\<close>

lemma subid_range_new_exact:
  assumes "subid_range_new s c = Inr r" and "unat s + unat c < 2 ^ 64" and "unat c \<noteq> 2 ^ 32"
  shows "valid_range r" and "unat (sr_start r) = unat s" and "unat (sr_count r) = unat c"
proof -
  have m: "unat (- 1 :: u32) = 2 ^ 32 - 1"
    by (simp add: unsigned_minus_1_eq_mask mask_eq_exp_minus_1)
  then have m1: "unat (ucast (- 1 :: u32) + 1 :: u64) = 2 ^ 32" by (simp add: unat_word_ariths)
  have sum: "unat (s + c) = unat s + unat c" using assms(2) by (simp add: unat_word_ariths)
  have r: "r = \<lparr>sr_start = ucast s, sr_count = ucast c\<rparr>" and c: "c \<noteq> 0"
    and b: "\<not> ucast (- 1 :: u32) < s" "\<not> ucast (- 1 :: u32) + 1 < s + c"
    using assms(1) by (auto simp: subid_range_new_def Let_def split: if_splits)
  from b have "unat s \<le> 2 ^ 32 - 1" "unat s + unat c \<le> 2 ^ 32"
    unfolding word_less_nat_alt m1 sum unat_ucast_u64 m by simp_all
  with assms(3) c show "unat (sr_start r) = unat s" "unat (sr_count r) = unat c" "valid_range r"
    by (simp_all add: r valid_range_def unsigned_ucast_eq take_bit_nat_eq_self word_unat_eq_iff)
qed

section \<open>Properties\<close>

text \<open>
  C27. The interval pool is the set it stands for: for valid ranges, in any order and however
  they overlap, taking some IDs out leaves the lowest remaining ID of their union first, and
  nothing when all of them are taken.
\<close>

theorem pool_lowest_is_least_remaining:
  assumes "\<forall>r \<in> set ranges. valid_range r"
  shows "available_lowest (fold available_remove taken (available_from_ranges ranges)) =
     (let S = (\<Union>r \<in> set ranges. range_set r) - set taken in if S = {} then None else Some (Min S))"
proof -
  let ?S = "(\<Union>r \<in> set ranges. range_set r) - set taken"
  note inv = available_from_ranges [OF assms]
  show ?thesis
  proof (cases "?S = {}")
    case True
    with pool.select_None [OF inv(1), of taken] inv(2) show ?thesis by (auto simp: Let_def)
  next
    case False
    then have "Min ?S \<in> ?S" "\<forall>x \<in> ?S. Min ?S \<le> x" by (auto intro!: Min_in Min_le simp del: Diff_iff)
    then have "available_lowest (fold available_remove taken (available_from_ranges ranges)) = Some (Min ?S)"
      using pool.select_Some [OF inv(1), of taken "Min ?S"] inv(2) by auto
    with False show ?thesis by (simp add: Let_def)
  qed
qed

theorem pool_lowest_is_least_remaining_witness:
  "available_lowest (fold available_remove [5, 6] (available_from_ranges [\<lparr>sr_start = 5, sr_count = 4\<rparr>])) =
     (let S = (\<Union>r \<in> set [\<lparr>sr_start = 5, sr_count = 4\<rparr>]. range_set r) - set [5, 6]
      in if S = {} then None else Some (Min S))"
  by (rule pool_lowest_is_least_remaining) (simp add: valid_range_def)

lemma ucast_max [simp]: "(ucast (- 1 :: u32) :: u64) = 0xFFFFFFFF" "(ucast (- 1 :: u64) :: u32) = - 1"
  by code_simp+

text \<open>
  C36. A range that is accepted stands for exactly the IDs it names, as long as its end does not
  overflow 64 bits and it is not the whole 32-bit space.
\<close>

theorem accepted_range_is_exact:
  assumes "subid_range_new s c = Inr r" and "unat s + unat c < 2 ^ 64" and "unat c \<noteq> 2 ^ 32"
  shows "range_contains r i \<longleftrightarrow> unat s \<le> unat i \<and> unat i < unat s + unat c"
  using subid_range_new_exact [OF assms] by (simp add: range_contains_iff)

theorem accepted_range_is_exact_witness:
  "range_contains \<lparr>sr_start = 100, sr_count = 50\<rparr> 120 \<longleftrightarrow>
     unat (100 :: u64) \<le> unat (120 :: u32) \<and> unat (120 :: u32) < unat (100 :: u64) + unat (50 :: u64)"
  by (rule accepted_range_is_exact) (simp_all add: subid_range_new_def)


end
