(* ===== verification/Delegation.thy ===== *)
theory Delegation
  imports Delegation_Ranges
begin

text \<open>
  Delegation discovery (\<open>sandbox/subid/delegation.rs\<close>): the reader of \<open>getsubids\<close> output, the
  helper invocation with its outcome as an argument, and the process-lifetime cache with the
  file generations it observes.
\<close>

section \<open>Model: reading getsubids output\<close>

definition debug_code :: "int option \<Rightarrow> string" where
  "debug_code c =
     (case c of
        None \<Rightarrow> ''None''
      | Some n \<Rightarrow> ''Some('' @ (if n < 0 then ''-'' else []) @ display_nat (nat \<bar>n\<bar>) @ '')'')"

definition display_delegation_error :: "env \<Rightarrow> delegation_error \<Rightarrow> string" where
  "display_delegation_error E e =
     (case e of
        HelperMissing \<Rightarrow> ''getsubids is not installed or not on PATH''
      | HelperIo detail \<Rightarrow> ''getsubids could not be executed: '' @ detail
      | HelperFailed code err \<Rightarrow>
          ''getsubids failed with status '' @ debug_code code
            @ (if err = [] then [] else '': '' @ err)
      | AccountLookup \<Rightarrow> ''the daemon account has no passwd-database name''
      | CachePoisoned \<Rightarrow> ''delegation cache is poisoned''
      | GenerationChanged \<Rightarrow> ''subordinate-ID delegation changed during discovery''
      | MalformedLine line \<Rightarrow>
          ''malformed getsubids output line '' @ debug_str (unicode_printable E) line
      | MalformedRange line reason \<Rightarrow>
          ''invalid subordinate range in getsubids line ''
            @ debug_str (unicode_printable E) line @ '': '' @ reason
      | RangeError reason \<Rightarrow> ''invalid subordinate range: '' @ reason)"

definition max_u64 :: nat where
  "max_u64 = 2 ^ 64 - 1"

text \<open>One non-empty line, already trimmed at its end.\<close>

definition parse_getsubids_line ::
  "env \<Rightarrow> string \<Rightarrow> (delegation_error, subid_range) result" where
  "parse_getsubids_line E line =
     (case split_once (CHR '':'') line of
        None \<Rightarrow> Inl (MalformedLine line)
      | Some (index, rest) \<Rightarrow>
          if parse_unsigned max_u32 (trim index) = None then Inl (MalformedLine line)
          else case split_whitespace rest of
                 [name, start, count] \<Rightarrow>
                   if name = [] then Inl (MalformedLine line)
                   else (case parse_unsigned max_u64 start of
                           None \<Rightarrow> Inl (MalformedLine line)
                         | Some s \<Rightarrow>
                             (case parse_unsigned max_u64 count of
                                None \<Rightarrow> Inl (MalformedLine line)
                              | Some c \<Rightarrow>
                                  map_err (\<lambda>e. MalformedRange line (display_delegation_error E e))
                                    (subid_range_new (of_nat s) (of_nat c))))
               | _ \<Rightarrow> Inl (MalformedLine line))"

fun parse_getsubids_lines ::
  "env \<Rightarrow> string list \<Rightarrow> (delegation_error, subid_range list) result" where
  "parse_getsubids_lines E [] = Inr []"
| "parse_getsubids_lines E (l # ls) =
     (let line = trim_end l in
      if line = [] then parse_getsubids_lines E ls
      else and_then (parse_getsubids_line E line) (\<lambda>r.
           and_then (parse_getsubids_lines E ls) (\<lambda>rs. Inr (r # rs))))"

definition parse_getsubids_output ::
  "env \<Rightarrow> string \<Rightarrow> (delegation_error, subid_range list) result" where
  "parse_getsubids_output E out = parse_getsubids_lines E (str_lines out)"

text \<open>What running the helper yields: it is not found, cannot run, or exits.\<close>

datatype helper_outcome =
    HelperNotFound
  | HelperSpawnError string
  | HelperExited bool "int option" string string

fun run_getsubids :: "env \<Rightarrow> helper_outcome \<Rightarrow> (delegation_error, subid_range list) result" where
  "run_getsubids E HelperNotFound = Inl HelperMissing"
| "run_getsubids E (HelperSpawnError detail) = Inl (HelperIo detail)"
| "run_getsubids E (HelperExited success code out err) =
     (if \<not> success then Inl (HelperFailed code (trim (from_utf8_lossy err)))
      else parse_getsubids_output E (from_utf8_lossy out))"

definition query_for_account ::
  "env \<Rightarrow> helper_outcome \<Rightarrow> helper_outcome \<Rightarrow> (delegation_error, delegation) result" where
  "query_for_account E uid_run gid_run =
     and_then (run_getsubids E uid_run) (\<lambda>us.
     and_then (run_getsubids E gid_run) (\<lambda>gs.
     Inr \<lparr>uid_ranges = us, gid_ranges = gs\<rparr>))"

section \<open>Model: the cache\<close>

record file_generation =
  fg_present :: bool
  fg_len :: nat
  fg_modified :: "nat option"

text \<open>The metadata of a path, when it can be read: its length and modification time.\<close>

definition file_generation_read :: "(nat \<times> nat option) option \<Rightarrow> file_generation" where
  "file_generation_read md =
     (case md of
        Some (len, modified) \<Rightarrow> \<lparr>fg_present = True, fg_len = len, fg_modified = modified\<rparr>
      | None \<Rightarrow> \<lparr>fg_present = False, fg_len = 0, fg_modified = None\<rparr>)"

record delegation_generation =
  dg_subuid :: file_generation
  dg_subgid :: file_generation
  dg_nsswitch :: file_generation

record delegation_cache =
  dc_account :: "(delegation_error, string) result option"
  dc_cached :: "(delegation_generation \<times> delegation) option"
  dc_poisoned :: bool

text \<open>
  What one query observes of the host, in the order the code looks: the generation, the account
  name, the first query, the generation again, a second query and the final generation.
\<close>

record observation =
  ob_before :: delegation_generation
  ob_account :: "(delegation_error, string) result"
  ob_first :: "(delegation_error, delegation) result"
  ob_after :: delegation_generation
  ob_second :: "(delegation_error, delegation) result"
  ob_final :: delegation_generation

definition cache_publish ::
  "delegation_generation \<Rightarrow> delegation \<Rightarrow> (delegation_cache, delegation_error, unit) io" where
  "cache_publish g d c =
     (if dc_poisoned c then (Inl CachePoisoned, c)
      else if (case dc_cached c of None \<Rightarrow> True | Some (g', _) \<Rightarrow> g' \<noteq> g)
      then (Inr (), c\<lparr>dc_cached := Some (g, d)\<rparr>)
      else (Inr (), c))"

text \<open>\<open>get_or_init\<close>: the first lookup is kept, an error too.\<close>

definition current_account_name ::
  "(delegation_error, string) result \<Rightarrow> (delegation_cache, delegation_error, string) io" where
  "current_account_name lookup c =
     (case dc_account c of
        Some r \<Rightarrow> (r, c)
      | None \<Rightarrow> (lookup, c\<lparr>dc_account := Some lookup\<rparr>))"

definition query_uncached ::
  "observation \<Rightarrow> (delegation_cache, delegation_error, delegation) io" where
  "query_uncached ob =
     io_bind (current_account_name (ob_account ob)) (\<lambda>account.
     io_bind (io_lift (ob_first ob)) (\<lambda>d.
     if ob_before ob \<noteq> ob_after ob then
       io_bind (io_lift (ob_second ob)) (\<lambda>d2.
       if ob_final ob \<noteq> ob_after ob then io_err GenerationChanged
       else io_then (cache_publish (ob_final ob) d2) (io_ok d2))
     else io_then (cache_publish (ob_before ob) d) (io_ok d)))"

definition query_with_generation ::
  "bool \<Rightarrow> observation \<Rightarrow> (delegation_cache, delegation_error, delegation) io" where
  "query_with_generation force ob c =
     (if \<not> force then
        (if dc_poisoned c then (Inl CachePoisoned, c)
         else case dc_cached c of
                Some (g, d) \<Rightarrow> if g = ob_before ob then (Inr d, c) else query_uncached ob c
              | None \<Rightarrow> query_uncached ob c)
      else query_uncached ob c)"

definition cache_query :: "observation \<Rightarrow> (delegation_cache, delegation_error, delegation) io" where
  "cache_query ob = query_with_generation False ob"

definition cache_refresh :: "observation \<Rightarrow> (delegation_cache, delegation_error, delegation) io" where
  "cache_refresh ob = query_with_generation True ob"

section \<open>Reading: what an accepted line denotes\<close>

lemma parse_getsubids_line_ok:
  assumes "parse_getsubids_line E line = Inr r"
  obtains index rest name start count s c where
    "line = index @ CHR '':'' # rest" "split_whitespace rest = [name, start, count]"
    "parse_unsigned max_u64 start = Some s" "parse_unsigned max_u64 count = Some c"
    "subid_range_new (of_nat s) (of_nat c) = Inr r"
  using assms that
  by (auto simp: parse_getsubids_line_def map_err_def split: option.splits list.splits if_splits sum.splits
      dest: split_once_Some)

section \<open>The cache\<close>

text \<open>An observation during which the sources did not change, with the value it read.\<close>

definition stable_read :: "observation \<Rightarrow> delegation_generation \<Rightarrow> delegation \<Rightarrow> bool" where
  "stable_read ob g d \<longleftrightarrow>
     (ob_first ob = Inr d \<and> ob_before ob = g \<and> ob_after ob = g)
     \<or> (ob_second ob = Inr d \<and> ob_after ob = g \<and> ob_final ob = g)"

lemma query_uncached_stable:
  assumes "query_uncached ob c = (Inr d, c')"
  shows "\<exists>g. stable_read ob g d \<and>
    (dc_cached c' = dc_cached c \<and> (\<exists>d'. dc_cached c = Some (g, d')) \<or> dc_cached c' = Some (g, d))"
  using assms
  by (auto simp: query_uncached_def io_simps current_account_name_def cache_publish_def stable_read_def
      split: if_splits sum.splits option.splits prod.splits)

lemma query_uncached_error:
  assumes "query_uncached ob c = (Inl e, c')"
  shows "dc_cached c' = dc_cached c"
  using assms
  by (auto simp: query_uncached_def io_simps current_account_name_def cache_publish_def
      split: if_splits sum.splits option.splits prod.splits)

section \<open>Properties\<close>

text \<open>
  C35. A query answers with ranges that were read while the sources did not change: the cached
  answer of the generation it just observed, or the result of a read between two equal
  generations; what it leaves in the cache was read that way too.
\<close>

theorem query_answers_stable_read:
  assumes "cache_query ob c = (Inr d, c')"
  shows "dc_cached c = Some (ob_before ob, d) \<and> c' = c
    \<or> (\<exists>g. stable_read ob g d \<and> (dc_cached c' = dc_cached c \<or> dc_cached c' = Some (g, d)))"
proof (cases "query_uncached ob c = (Inr d, c')")
  case True
  from query_uncached_stable [OF this] show ?thesis by blast
next
  case False
  with assms show ?thesis
    by (auto simp: cache_query_def query_with_generation_def split: if_splits option.splits)
qed

definition example_generation :: delegation_generation where
  "example_generation = \<lparr>dg_subuid = file_generation_read None, dg_subgid = file_generation_read None,
     dg_nsswitch = file_generation_read None\<rparr>"

definition example_observation :: "delegation \<Rightarrow> observation" where
  "example_observation d = \<lparr>ob_before = example_generation, ob_account = Inr ''daemon'', ob_first = Inr d,
     ob_after = example_generation, ob_second = Inr d, ob_final = example_generation\<rparr>"

definition empty_cache :: delegation_cache where
  "empty_cache = \<lparr>dc_account = None, dc_cached = None, dc_poisoned = False\<rparr>"

lemma example_query:
  "cache_query (example_observation d) empty_cache =
     (Inr d, \<lparr>dc_account = Some (Inr ''daemon''), dc_cached = Some (example_generation, d), dc_poisoned = False\<rparr>)"
  by (simp add: cache_query_def query_with_generation_def query_uncached_def empty_cache_def
      example_observation_def current_account_name_def cache_publish_def io_simps)

theorem query_answers_stable_read_witness:
  "let d = \<lparr>uid_ranges = [], gid_ranges = []\<rparr>; ob = example_observation d;
       c' = \<lparr>dc_account = Some (Inr ''daemon''), dc_cached = Some (example_generation, d), dc_poisoned = False\<rparr>
   in dc_cached empty_cache = Some (ob_before ob, d) \<and> c' = empty_cache
    \<or> (\<exists>g. stable_read ob g d \<and> (dc_cached c' = dc_cached empty_cache \<or> dc_cached c' = Some (g, d)))"
  unfolding Let_def by (rule query_answers_stable_read [OF example_query])

text \<open>
  C38. A forced refresh whose sources show the cached generation reads the delegation anew and
  returns it, and yet keeps the old snapshot: the next query answers with the old one again.
\<close>

theorem refresh_keeps_old_snapshot:
  assumes "dc_cached c = Some (g, old)" and "\<not> dc_poisoned c" and "dc_account c = Some (Inr name)"
    and "ob_before ob = g" and "ob_after ob = g" and "ob_first ob = Inr new"
  shows "cache_refresh ob c = (Inr new, c) \<and> cache_query ob c = (Inr old, c)"
  using assms by (simp add: cache_refresh_def cache_query_def query_with_generation_def query_uncached_def
      current_account_name_def cache_publish_def io_simps)

theorem refresh_keeps_old_snapshot_witness:
  "let new = \<lparr>uid_ranges = [\<lparr>sr_start = 1, sr_count = 1\<rparr>], gid_ranges = []\<rparr>;
       old = \<lparr>uid_ranges = [], gid_ranges = []\<rparr>;
       c = \<lparr>dc_account = Some (Inr ''daemon''), dc_cached = Some (example_generation, old), dc_poisoned = False\<rparr>
   in cache_refresh (example_observation new) c = (Inr new, c) \<and> cache_query (example_observation new) c = (Inr old, c)"
  unfolding Let_def by (rule refresh_keeps_old_snapshot) (simp_all add: example_observation_def)

end
