(* ===== verification/Lease_Ledger.thy ===== *)
theory Lease_Ledger
  imports Metadata Posix_Rules
begin

text \<open>
  The durable lease ledger (\<open>sandbox/subid/ledger.rs\<close>): the record of one leased UID and GID, its
  encoder and decoder, and the store of one file per record with its temporary files, its lock
  and every point where a system call can fail.
\<close>

section \<open>Model: lease records\<close>

definition LEASE_VERSION :: nat where "LEASE_VERSION = 1"
definition MAX_RECORD_BYTES :: nat where "MAX_RECORD_BYTES = 4 * 1024"
definition LEASE_ID_HEX :: nat where "LEASE_ID_HEX = 32"
definition RECORD_SUFFIX :: string where "RECORD_SUFFIX = ''.toml''"
definition LEASE_TEMP_PREFIX :: string where "LEASE_TEMP_PREFIX = ''.lease.toml.tmp''"
definition LOCK_FILE_BASENAME :: string where "LOCK_FILE_BASENAME = ''.lease.lock''"

datatype lease_state = LeaseReserved | LeaseActive | LeaseReleasing | LeaseQuarantined

fun lease_state_as_str :: "lease_state \<Rightarrow> string" where
  "lease_state_as_str LeaseReserved = ''reserved''"
| "lease_state_as_str LeaseActive = ''active''"
| "lease_state_as_str LeaseReleasing = ''releasing''"
| "lease_state_as_str LeaseQuarantined = ''quarantined''"

datatype ledger_error =
    LeIo string string io_error
  | LeUnsafeDirectory string string
  | LeUnknownFileName string
  | LeCorruptRecord string string
  | LeMissingRecord string
  | LeTooLarge nat
  | LeNotUtf8
  | LeToml string
  | LeUnsupportedVersion u32
  | LeInvalidLeaseId string
  | LeMismatchedLeaseId string string
  | LeInvalidSandboxId string
  | LeInvalidOwner string
  | LeZeroId
  | LeInvalidState string
  | LeInvalidQuarantineReason

definition parse_lease_state :: "string \<Rightarrow> (ledger_error, lease_state) result" where
  "parse_lease_state raw =
     (if raw = ''reserved'' then Inr LeaseReserved
      else if raw = ''active'' then Inr LeaseActive
      else if raw = ''releasing'' then Inr LeaseReleasing
      else if raw = ''quarantined'' then Inr LeaseQuarantined
      else Inl (LeInvalidState raw))"

record lease_record =
  lr_lease_id :: string
  lr_sandbox_id :: sandbox_id
  lr_owner :: key_fingerprint
  lr_uid :: u32
  lr_gid :: u32
  lr_state :: lease_state
  lr_quarantine_reason :: "string option"

definition lease_with_state :: "lease_record \<Rightarrow> lease_state \<Rightarrow> lease_record" where
  "lease_with_state r st =
     r\<lparr>lr_state := st,
       lr_quarantine_reason := (if st = LeaseQuarantined then lr_quarantine_reason r else None)\<rparr>"

definition with_quarantine_reason :: "lease_record \<Rightarrow> string \<Rightarrow> lease_record" where
  "with_quarantine_reason r reason =
     (lease_with_state r LeaseQuarantined)\<lparr>lr_quarantine_reason := Some reason\<rparr>"

definition lease_encode :: "env \<Rightarrow> lease_record \<Rightarrow> string" where
  "lease_encode E r =
     ''version = '' @ display_nat LEASE_VERSION @ newline
     @ ''lease_id = '' @ debug_str (unicode_printable E) (lr_lease_id r) @ newline
     @ ''sandbox_id = '' @ debug_str (unicode_printable E) (id_as_str (lr_sandbox_id r)) @ newline
     @ ''owner = '' @ debug_str (unicode_printable E) (fp_as_str (lr_owner r)) @ newline
     @ ''uid = '' @ display_nat (unat (lr_uid r)) @ newline
     @ ''gid = '' @ display_nat (unat (lr_gid r)) @ newline
     @ ''state = '' @ debug_str (unicode_printable E) (lease_state_as_str (lr_state r)) @ newline
     @ (case lr_quarantine_reason r of
          None \<Rightarrow> []
        | Some reason \<Rightarrow>
            ''quarantine_reason = '' @ debug_str (unicode_printable E) reason @ newline)"

definition lease_file_name :: "lease_record \<Rightarrow> string" where
  "lease_file_name r = lr_lease_id r @ RECORD_SUFFIX"

text \<open>\<open>format!("{token:032x}")\<close>: the token is the random number the code draws.\<close>

definition new_lease_id :: "128 word \<Rightarrow> string" where
  "new_lease_id token =
     (let h = display_radix 16 (unat token) in replicate (32 - length h) (CHR ''0'') @ h)"

definition lease_id_byte :: "char \<Rightarrow> bool" where
  "lease_id_byte c \<longleftrightarrow> is_ascii_digit c \<or> (97 \<le> byte c \<and> byte c \<le> 102)"

definition validate_lease_id :: "string \<Rightarrow> (ledger_error, unit) result" where
  "validate_lease_id s =
     (if length s = LEASE_ID_HEX \<and> list_all lease_id_byte s then Inr () else Inl (LeInvalidLeaseId s))"

record raw_lease =
  rl_version :: u32
  rl_lease_id :: string
  rl_sandbox_id :: string
  rl_owner :: string
  rl_uid :: u32
  rl_gid :: u32
  rl_state :: string
  rl_quarantine_reason :: "string option"

definition raw_lease_of :: "toml_table \<Rightarrow> raw_lease option" where
  "raw_lease_of t =
     (if only_fields t [''version'', ''lease_id'', ''sandbox_id'', ''owner'', ''uid'', ''gid'', ''state'',
                        ''quarantine_reason''] then
        (case (u32_field t ''version'', string_field t ''lease_id'', string_field t ''sandbox_id'',
               string_field t ''owner'', u32_field t ''uid'', u32_field t ''gid'',
               string_field t ''state'', optional_string_field t ''quarantine_reason'') of
           (Some v, Some l, Some i, Some ow, Some u, Some g, Some st, Some q) \<Rightarrow>
             Some \<lparr>rl_version = v, rl_lease_id = l, rl_sandbox_id = i, rl_owner = ow, rl_uid = u,
                   rl_gid = g, rl_state = st, rl_quarantine_reason = q\<rparr>
         | _ \<Rightarrow> None)
      else None)"

definition toml_lease :: "env \<Rightarrow> string \<Rightarrow> (ledger_error, raw_lease) result" where
  "toml_lease E text =
     (case toml_table_of E text of
        Inl e \<Rightarrow> Inl (LeToml e)
      | Inr t \<Rightarrow> ok_or (LeToml (serde_error_of E text)) (raw_lease_of t))"

definition lease_decode :: "env \<Rightarrow> string \<Rightarrow> string \<Rightarrow> (ledger_error, lease_record) result" where
  "lease_decode E bytes expected =
     (if MAX_RECORD_BYTES < length bytes then Inl (LeTooLarge (length bytes))
      else and_then (validate_lease_id expected) (\<lambda>_.
      and_then (ok_or LeNotUtf8 (from_utf8 bytes)) (\<lambda>text.
      and_then (toml_lease E text) (\<lambda>raw.
      if unat (rl_version raw) \<noteq> LEASE_VERSION then Inl (LeUnsupportedVersion (rl_version raw))
      else if rl_lease_id raw \<noteq> expected then Inl (LeMismatchedLeaseId expected (rl_lease_id raw))
      else and_then (validate_lease_id (rl_lease_id raw)) (\<lambda>_.
      and_then (map_err (\<lambda>e. LeInvalidSandboxId (display_invalid_id e))
                        (parse_id (rl_sandbox_id raw))) (\<lambda>i.
      and_then (map_err (\<lambda>e. LeInvalidOwner (display_fingerprint_error e))
                        (parse_fingerprint (rl_owner raw))) (\<lambda>owner.
      if rl_uid raw = 0 \<or> rl_gid raw = 0 then Inl LeZeroId
      else and_then (parse_lease_state (rl_state raw)) (\<lambda>st.
      if rl_quarantine_reason raw \<noteq> None \<and> st \<noteq> LeaseQuarantined then Inl LeInvalidQuarantineReason
      else Inr \<lparr>lr_lease_id = rl_lease_id raw, lr_sandbox_id = i, lr_owner = owner, lr_uid = rl_uid raw,
                lr_gid = rl_gid raw, lr_state = st,
                lr_quarantine_reason = rl_quarantine_reason raw\<rparr>))))))))"

definition display_ledger_error :: "env \<Rightarrow> ledger_error \<Rightarrow> string" where
  "display_ledger_error E e =
     (let q = debug_str (unicode_printable E) in
      case e of
        LeIo root op src \<Rightarrow> ''could not '' @ op @ '' under '' @ from_utf8_lossy root @ '': ''
                            @ display_io_error E src
      | LeUnsafeDirectory root reason \<Rightarrow>
          ''lease directory '' @ from_utf8_lossy root @ '' is unsafe: '' @ reason
      | LeUnknownFileName n \<Rightarrow>
          ''unexpected file '' @ q n @ '' in the lease directory (expected <lease-id>.toml)''
      | LeCorruptRecord n reason \<Rightarrow> ''lease record '' @ q n @ '' is corrupt: '' @ reason
      | LeMissingRecord l \<Rightarrow> ''lease record '' @ l @ '' does not exist''
      | LeTooLarge n \<Rightarrow> ''lease record is '' @ display_nat n @ '' bytes, limit is ''
                         @ display_nat MAX_RECORD_BYTES
      | LeNotUtf8 \<Rightarrow> ''lease record is not valid UTF-8''
      | LeToml s \<Rightarrow> ''lease record is not valid TOML: '' @ s
      | LeUnsupportedVersion v \<Rightarrow>
          ''lease record version '' @ display_nat (unat v) @ '' is unsupported''
      | LeInvalidLeaseId l \<Rightarrow> ''lease id '' @ q l @ '' is not '' @ display_nat LEASE_ID_HEX
                               @ '' lowercase hex characters''
      | LeMismatchedLeaseId expected found \<Rightarrow>
          ''lease record names incarnation '' @ q found @ '', expected '' @ q expected
      | LeInvalidSandboxId r \<Rightarrow> ''lease record sandbox id is invalid: '' @ r
      | LeInvalidOwner r \<Rightarrow> ''lease record owner is invalid: '' @ r
      | LeZeroId \<Rightarrow> ''lease record maps UID or GID 0''
      | LeInvalidState s \<Rightarrow> ''lease record state '' @ q s @ '' is invalid''
      | LeInvalidQuarantineReason \<Rightarrow>
          ''lease record has a quarantine reason but is not quarantined'')"

section \<open>Model: the store\<close>

text \<open>
  The store is the path of its directory; the state is the file system below that path. The lock
  descriptor carries no state of its own: a held \<open>flock\<close> is what makes each of the allocator's
  operations one step.
\<close>

record lease_store =
  ls_root :: string

type_synonym 'a ledger_io = "(fsys, ledger_error, 'a) io"

definition ledger_io_error :: "string \<Rightarrow> string \<Rightarrow> io_error \<Rightarrow> ledger_error" where
  "ledger_io_error op root src = LeIo root op src"

definition store_io :: "lease_store \<Rightarrow> string \<Rightarrow> io_error \<Rightarrow> ledger_error" where
  "store_io st op src = ledger_io_error op (ls_root st) src"

definition validate_ownership :: "env \<Rightarrow> string \<Rightarrow> fd \<Rightarrow> unit ledger_io" where
  "validate_ownership E root d =
     io_bind (io_map_err (ledger_io_error ''stat the lease directory'' root) (fstat d)) (\<lambda>st.
     if \<not> is_directory (st_mode st) then io_err (LeUnsafeDirectory root ''not a directory'')
     else if st_uid st \<noteq> env_euid E
       then io_err (LeUnsafeDirectory root ''not owned by the daemon user'')
     else if group_world_writable (st_mode st)
       then io_err (LeUnsafeDirectory root ''group or world writable'')
     else io_ok ())"

text \<open>\<open>openat\<close> with \<open>O_RDWR | O_CREAT | O_NOFOLLOW\<close>, without \<open>O_EXCL\<close>.\<close>

definition open_or_create :: "env \<Rightarrow> fd \<Rightarrow> string \<Rightarrow> u32 \<Rightarrow> fd sys" where
  "open_or_create E parent name mode = syscall (\<lambda>s.
     (case children s parent of
        None \<Rightarrow> (Inl (OsError ENOENT), s)
      | Some cs \<Rightarrow>
          (case map_of cs name of
             None \<Rightarrow>
               (Inr (parent @ [name]),
                modify_dir parent (dir_put name (RegFile \<lparr>fa_uid = env_euid E, fa_perm = mode\<rparr> [])) s)
           | Some (Symlink a) \<Rightarrow> (Inl (OsError ELOOP), s)
           | Some (Directory a ds) \<Rightarrow> (Inl (OsError EISDIR), s)
           | Some n \<Rightarrow> (Inr (parent @ [name]), s))))"

definition open_lock_file :: "env \<Rightarrow> string \<Rightarrow> fd \<Rightarrow> unit ledger_io" where
  "open_lock_file E root d =
     io_bind (io_map_err (ledger_io_error ''open the lease ledger lock file'' root)
       (open_or_create E d LOCK_FILE_BASENAME 0x180)) (\<lambda>f.
     io_bind (io_map_err (ledger_io_error ''stat the lease ledger lock file'' root) (fstat f)) (\<lambda>st.
     if \<not> is_regular (st_mode st)
       then io_err (LeUnsafeDirectory root ''ledger lock file is not a regular file'')
     else if st_uid st \<noteq> env_euid E
       then io_err (LeUnsafeDirectory root ''ledger lock file is not owned by the daemon user'')
     else if group_world_writable (st_mode st)
       then io_err (LeUnsafeDirectory root ''ledger lock file is group or world writable'')
     else io_ok ()))"

text \<open>
  \<open>create_dir\<close> makes a directory with the default mode, \<open>set_permissions\<close> narrows it. The parent
  of the ledger is outside the tree: opening, checking and syncing it only can fail or not.
\<close>

definition create_root_dir :: "env \<Rightarrow> unit sys" where
  "create_root_dir E = syscall (\<lambda>s.
     (case fs_root s of
        None \<Rightarrow> (Inr (), s\<lparr>fs_root := Some (Directory \<lparr>fa_uid = env_euid E, fa_perm = 0x1FF\<rparr> [])\<rparr>)
      | Some n \<Rightarrow> (Inl (OsError EEXIST), s)))"

fun chmod_node :: "u32 \<Rightarrow> node \<Rightarrow> node" where
  "chmod_node m (Directory a cs) = Directory (a\<lparr>fa_perm := m\<rparr>) cs"
| "chmod_node m (RegFile a b) = RegFile (a\<lparr>fa_perm := m\<rparr>) b"
| "chmod_node m n = n"

definition set_root_permissions :: "u32 \<Rightarrow> unit sys" where
  "set_root_permissions m =
     syscall (\<lambda>s. (Inr (), s\<lparr>fs_root := map_option (chmod_node m) (fs_root s)\<rparr>))"

definition sync_parent_directory :: "string \<Rightarrow> unit ledger_io" where
  "sync_parent_directory root =
     io_then (io_map_err (ledger_io_error ''open the lease directory parent'' root)
       (io_then (syscall (io_ok ())) (syscall (io_ok ()))))
     (io_map_err (ledger_io_error ''fsync the lease directory parent'' root)
       (syscall_retry (io_ok ())))"

definition lease_store_open :: "env \<Rightarrow> string \<Rightarrow> lease_store ledger_io" where
  "lease_store_open E root =
     io_then
       (io_match (create_root_dir E)
          (\<lambda>e. if \<not> errno_is e EEXIST
               then io_err (ledger_io_error ''create the lease directory'' root e) else io_ok ())
          (\<lambda>_. io_then (io_map_err (ledger_io_error ''set the lease directory mode'' root)
                          (set_root_permissions 0x1C0))
                (sync_parent_directory root)))
     (io_bind (io_map_err (ledger_io_error ''open the lease directory'' root)
                (open_directory_path root)) (\<lambda>d.
      io_then (validate_ownership E root d)
     (io_then (open_lock_file E root d) (io_ok \<lparr>ls_root = root\<rparr>))))"

definition store_open_root :: "env \<Rightarrow> lease_store \<Rightarrow> fd ledger_io" where
  "store_open_root E st =
     io_bind (io_map_err (store_io st ''open the lease directory'')
       (open_directory_path (ls_root st))) (\<lambda>d.
     io_then (validate_ownership E (ls_root st) d) (io_ok d))"

definition store_trip :: "lease_store \<Rightarrow> fault_point \<Rightarrow> unit ledger_io" where
  "store_trip st p = io_map_err (ledger_io_error ''injected lease fault'' (ls_root st)) (trip p)"

text \<open>\<open>flock\<close> is repeated while a signal interrupts it.\<close>

definition store_lock :: "lease_store \<Rightarrow> unit ledger_io" where
  "store_lock st = io_map_err (store_io st ''lock the lease ledger'') (syscall_retry (io_ok ()))"

definition store_read_named :: "env \<Rightarrow> lease_store \<Rightarrow> fd \<Rightarrow> string \<Rightarrow> lease_record ledger_io" where
  "store_read_named E st d name =
     (case strip_suffix name RECORD_SUFFIX of
        None \<Rightarrow> io_err (LeUnknownFileName name)
      | Some lease_id \<Rightarrow>
          if \<not> is_ok (validate_lease_id lease_id) then io_err (LeUnknownFileName name)
          else io_bind (io_map_err (store_io st ''stat a lease record'') (stat_at d name)) (\<lambda>stat.
          if \<not> is_regular (st_mode stat) then io_err (LeUnknownFileName name)
          else if group_world_writable (st_mode stat)
            then io_err (LeCorruptRecord name ''record is group or world writable'')
          else io_bind (io_map_err (store_io st ''read a lease record'')
                         (read_file_at d name MAX_RECORD_BYTES)) (\<lambda>bytes.
          io_lift (map_err (\<lambda>e. LeCorruptRecord name (display_ledger_error E e))
                     (lease_decode E bytes lease_id)))))"

fun store_load_names :: "env \<Rightarrow> lease_store \<Rightarrow> fd \<Rightarrow> string list \<Rightarrow> lease_record list ledger_io" where
  "store_load_names E st d [] = io_ok []"
| "store_load_names E st d (raw # raws) =
     (let name = from_utf8_lossy raw in
      if starts_with name LEASE_TEMP_PREFIX then store_load_names E st d raws
      else if name = LOCK_FILE_BASENAME then store_load_names E st d raws
      else io_bind (store_read_named E st d name) (\<lambda>r.
           io_bind (store_load_names E st d raws) (\<lambda>rs. io_ok (r # rs))))"

definition store_load :: "env \<Rightarrow> lease_store \<Rightarrow> lease_record list ledger_io" where
  "store_load E st =
     io_bind (store_open_root E st) (\<lambda>d.
     io_bind (io_map_err (store_io st ''scan'') (read_names d)) (\<lambda>names.
     io_bind (store_load_names E st d names) (\<lambda>rs.
     io_ok (sort_key lr_lease_id rs))))"

definition remove_stale_temps :: "env \<Rightarrow> lease_store \<Rightarrow> unit ledger_io" where
  "remove_stale_temps E st =
     io_bind (store_open_root E st) (\<lambda>d.
     io_bind (io_map_err (store_io st ''scan'') (read_names d)) (\<lambda>names.
     io_for names (\<lambda>raw.
       let name = from_utf8_lossy raw in
       if starts_with name LEASE_TEMP_PREFIX
       then io_map_err (store_io st ''remove a stale temp file'') (unlink_at d name False)
       else io_ok ())))"

definition store_read :: "env \<Rightarrow> lease_store \<Rightarrow> string \<Rightarrow> lease_record option ledger_io" where
  "store_read E st lease_id =
     io_then (io_lift (validate_lease_id lease_id))
     (io_bind (store_open_root E st) (\<lambda>d.
      let name = lease_id @ RECORD_SUFFIX in
      io_match (stat_at d name)
        (\<lambda>e. if errno_is e ENOENT then io_ok None else io_err (store_io st ''stat a lease record'' e))
        (\<lambda>_. io_bind (store_read_named E st d name) (\<lambda>r. io_ok (Some r)))))"

definition lease_temp_name :: "env \<Rightarrow> u64 \<Rightarrow> string" where
  "lease_temp_name E c =
     LEASE_TEMP_PREFIX @ ''-'' @ display_nat (env_pid E) @ ''-'' @ display_nat (unat c)"

text \<open>The closure of \<open>write\<close>, up to its \<open>Ok\<close>.\<close>

definition write_steps :: "env \<Rightarrow> lease_store \<Rightarrow> fd \<Rightarrow> string \<Rightarrow> lease_record \<Rightarrow> unit ledger_io" where
  "write_steps E st d temp record =
     io_then (store_trip st LeaseTempCreate)
     (io_bind (io_map_err (store_io st ''create a lease temp file'') (create_file_at E d temp 0x180)) (\<lambda>f.
      io_then (store_trip st LeaseWrite)
     (io_then (io_map_err (store_io st ''write a lease record'')
                (write_all d temp (lease_encode E record)))
     (io_then (store_trip st LeaseFileSync)
     (io_then (io_map_err (store_io st ''fsync a lease record'') sync_file)
     (io_then (store_trip st LeaseRename)
     (io_then (io_map_err (store_io st ''rename a lease record into place'')
                (rename_in d temp (lease_file_name record)))
     (io_then (store_trip st LeaseParentSync)
     (io_map_err (store_io st ''fsync the lease directory'') (sync_directory d))))))))))"

definition store_write :: "env \<Rightarrow> lease_store \<Rightarrow> lease_record \<Rightarrow> unit ledger_io" where
  "store_write E st record =
     io_bind (store_open_root E st) (\<lambda>d.
     io_bind fetch_counter (\<lambda>c.
     with_cleanup (write_steps E st d (lease_temp_name E c) record)
       (unlink_at d (lease_temp_name E c) False)))"

definition store_remove :: "env \<Rightarrow> lease_store \<Rightarrow> string \<Rightarrow> unit ledger_io" where
  "store_remove E st lease_id =
     io_then (io_lift (validate_lease_id lease_id))
     (io_bind (store_open_root E st) (\<lambda>d.
      io_then (store_trip st LeaseUnlink)
     (io_then (io_match (unlink_at d (lease_id @ RECORD_SUFFIX) False)
        (\<lambda>e. if errno_is e ENOENT then io_err (LeMissingRecord lease_id)
              else io_err (store_io st ''unlink a lease record'' e))
        io_ok)
     (io_then (store_trip st LeaseUnlinkSync)
     (io_map_err (store_io st ''fsync the lease directory after unlink'') (sync_directory d))))))"

end
