(* ===== verification/Lease_Store.thy ===== *)
theory Lease_Store
  imports Lease_Ledger
begin

text \<open>
  What the lease store does (\<open>sandbox/subid/ledger.rs\<close>): the directory represents a ledger, a map
  from lease IDs to records, and each operation of the store is that operation on the map, for
  every pattern of failing calls. The contract is a locale; the allocator is proved against it.
\<close>

section \<open>What the directory holds\<close>

text \<open>The scan passes over temporary files and the lock file; the rest is what it sees.\<close>

definition hidden :: "string \<Rightarrow> bool" where
  "hidden raw \<longleftrightarrow> starts_with (from_utf8_lossy raw) LEASE_TEMP_PREFIX
     \<or> from_utf8_lossy raw = LOCK_FILE_BASENAME"

definition visible :: "dirents \<Rightarrow> string \<Rightarrow> node option" where
  "visible cs n = (if hidden n then None else map_of cs n)"

text \<open>A daemon-owned directory, private enough, whose visible entries are \<open>V\<close>.\<close>

definition holds :: "env \<Rightarrow> (string \<Rightarrow> node option) \<Rightarrow> fsys \<Rightarrow> bool" where
  "holds E V s \<longleftrightarrow> (\<exists>a cs. fs_root s = Some (Directory a cs) \<and> fa_uid a = env_euid E
     \<and> \<not> group_world_writable (fa_perm a) \<and> distinct (map fst cs) \<and> visible cs = V)"

lemma display_radix_ascii: "is_ascii (display_radix 10 n)"
proof (induction "10::nat" n rule: display_radix.induct)
  case (1 n)
  have "d < 10 \<Longrightarrow> byte (digit_char d) < 128" for d by (simp add: digit_char_def)
  with 1 show ?case by (cases "n < 10") (simp_all add: display_radix.simps [of 10 n])
qed

lemma hidden_temp [simp]: "hidden (lease_temp_name E c)"
  by (simp add: hidden_def lease_temp_name_def from_utf8_lossy_ascii LEASE_TEMP_PREFIX_def
      display_nat_def display_radix_ascii starts_with_def)

lemma lease_id_byte_ascii: "lease_id_byte c \<Longrightarrow> byte c < 128 \<and> c \<noteq> CHR ''.''"
  by (auto simp: lease_id_byte_def is_ascii_digit_def)

lemma validate_lease_id_ok:
  "validate_lease_id l = Inr u \<longleftrightarrow> length l = 32 \<and> list_all lease_id_byte l"
  by (simp add: validate_lease_id_def LEASE_ID_HEX_def)

lemma record_name_ascii:
  assumes "validate_lease_id l = Inr ()"
  shows "is_ascii (l @ RECORD_SUFFIX)"
  using assms by (auto simp: validate_lease_id_ok RECORD_SUFFIX_def is_ascii_def list_all_iff
      dest: lease_id_byte_ascii)

lemma record_name_visible:
  assumes "validate_lease_id l = Inr ()"
  shows "\<not> hidden (l @ RECORD_SUFFIX)"
proof -
  obtain c t where l: "l = c # t" "lease_id_byte c"
    using assms by (cases l) (auto simp: validate_lease_id_ok)
  have "from_utf8_lossy (l @ RECORD_SUFFIX) = c # t @ RECORD_SUFFIX"
    using from_utf8_lossy_ascii [OF record_name_ascii [OF assms]] l by simp
  with lease_id_byte_ascii [OF l(2)] show ?thesis
    by (simp add: hidden_def starts_with_def LEASE_TEMP_PREFIX_def LOCK_FILE_BASENAME_def)
qed

section \<open>Opening the directory\<close>

text \<open>The errors that say nothing about a record: a failing call or an unsafe directory.\<close>

fun environmental :: "ledger_error \<Rightarrow> bool" where
  "environmental (LeIo root op e) = True"
| "environmental (LeUnsafeDirectory root reason) = True"
| "environmental _ = False"

lemma environmental_io [simp]:
  "environmental (ledger_io_error op root e)" "environmental (store_io st op e)"
  by (simp_all add: ledger_io_error_def store_io_def)

lemma validate_ownership_rule:
  assumes "r = Some (Directory a cs)"
  shows "io_valid (tree r) (validate_ownership E root [])
     (\<lambda>_ s. tree r s \<and> fa_uid a = env_euid E \<and> \<not> group_world_writable (fa_perm a))
     (\<lambda>e s. tree r s \<and> environmental e)"
  unfolding validate_ownership_def
proof (rule io_valid_bind)
  show "io_valid (tree r) (io_map_err (ledger_io_error ''stat the lease directory'' root) (fstat []))
      (\<lambda>st s. tree r s \<and> st = stat_of (Directory a cs)) (\<lambda>e s. tree r s \<and> environmental e)"
    by (rule io_valid_map_err, rule io_valid_conseq [OF fstat_rule]) (auto simp: assms)
qed (rule io_validI, auto simp: io_simps split: if_splits)

lemma store_open_root_rule:
  "io_valid (tree r) (store_open_root E st)
     (\<lambda>d s. tree r s \<and> d = []) (\<lambda>e s. tree r s \<and> environmental e)"
  unfolding store_open_root_def
proof (rule io_valid_bind)
  show "io_valid (tree r) (io_map_err (store_io st ''open the lease directory'') (open_directory_path (ls_root st)))
      (\<lambda>v s. tree r s \<and> v = [] \<and> (\<exists>a cs. r = Some (Directory a cs))) (\<lambda>e s. tree r s \<and> environmental e)"
    by (rule io_valid_map_err, rule io_valid_conseq [OF open_directory_path_rule]) auto
next
  fix x
  show "io_valid (\<lambda>s. tree r s \<and> x = [] \<and> (\<exists>a cs. r = Some (Directory a cs)))
      (io_then (validate_ownership E (ls_root st) x) (io_ok x)) (\<lambda>d s. tree r s \<and> d = [])
      (\<lambda>e s. tree r s \<and> environmental e)"
  proof (rule io_valid_pure, elim conjE exE, simp only:)
    fix a cs
    show "io_valid (tree (Some (Directory a cs))) (io_then (validate_ownership E (ls_root st) []) (io_ok []))
        (\<lambda>d s. tree (Some (Directory a cs)) s \<and> d = [])
        (\<lambda>e s. tree (Some (Directory a cs)) s \<and> environmental e)"
      by (rule io_valid_then [where M = "tree (Some (Directory a cs))"],
          rule io_valid_conseq [OF validate_ownership_rule]) (auto intro!: io_validI simp: io_simps)
  qed
qed

section \<open>Writing a record\<close>

abbreviation ledger_root :: "fattr \<Rightarrow> dirents \<Rightarrow> fsys \<Rightarrow> bool" where
  "ledger_root a cs \<equiv> tree (Some (Directory a cs))"

text \<open>The directory with visible entries \<open>V\<close>, and a temporary file with the given bytes.\<close>

definition shows_dir :: "fattr \<Rightarrow> (string \<Rightarrow> node option) \<Rightarrow> fsys \<Rightarrow> bool" where
  "shows_dir a V s \<longleftrightarrow> (\<exists>cs. (distinct (map fst cs) \<and> visible cs = V) \<and> ledger_root a cs s)"

definition shows_temp ::
  "fattr \<Rightarrow> (string \<Rightarrow> node option) \<Rightarrow> string \<Rightarrow> node \<Rightarrow> fsys \<Rightarrow> bool" where
  "shows_temp a V temp n s \<longleftrightarrow>
     (\<exists>cs. (distinct (map fst cs) \<and> visible cs = V \<and> map_of cs temp = Some n) \<and> ledger_root a cs s)"

lemma shows_root:
  assumes "ledger_root b cs s"
  shows "shows_dir a V s \<longleftrightarrow> b = a \<and> distinct (map fst cs) \<and> visible cs = V"
    and "shows_temp a V t n s \<longleftrightarrow> b = a \<and> distinct (map fst cs) \<and> visible cs = V \<and> map_of cs t = Some n"
  using assms by (auto simp: shows_dir_def shows_temp_def)

lemma from_shows_dir:
  assumes "\<And>cs. distinct (map fst cs) \<Longrightarrow> visible cs = V \<Longrightarrow> io_valid (ledger_root a cs) m Q R"
  shows "io_valid (shows_dir a V) m Q R"
  unfolding shows_dir_def by (rule io_valid_ex) (use assms in blast)

lemma from_shows_temp:
  assumes "\<And>cs. distinct (map fst cs) \<Longrightarrow> visible cs = V \<Longrightarrow> map_of cs t = Some n \<Longrightarrow>
    io_valid (ledger_root a cs) m Q R"
  shows "io_valid (shows_temp a V t n) m Q R"
  unfolding shows_temp_def by (rule io_valid_ex) (use assms in blast)

lemma visible_dir_put_hidden: "hidden t \<Longrightarrow> visible (dir_put t n cs) = visible cs"
  by (auto simp: visible_def fun_eq_iff)

lemma visible_dir_del_hidden: "hidden t \<Longrightarrow> visible (dir_del t cs) = visible cs"
  by (auto simp: visible_def fun_eq_iff)

lemma visible_dir_put: "\<not> hidden t \<Longrightarrow> visible (dir_put t n cs) = (visible cs)(t \<mapsto> n)"
  by (auto simp: visible_def fun_eq_iff)

lemma visible_dir_del: "\<not> hidden t \<Longrightarrow> visible (dir_del t cs) = (visible cs)(t := None)"
  by (auto simp: visible_def fun_eq_iff)

text \<open>A call that leaves the tree alone keeps whatever holds of it.\<close>

lemma keeps_shows_dir:
  assumes "\<And>r. io_valid (tree r) m (\<lambda>_. tree r) (\<lambda>e s. io_fault e \<and> tree r s)"
  shows "io_valid (shows_dir a V) (io_map_err g m) (\<lambda>_. shows_dir a V) (\<lambda>_. shows_dir a V)"
  by (rule io_valid_map_err, rule from_shows_dir, rule io_valid_conseq [OF assms]) (auto simp: shows_root)

lemma keeps_shows_temp:
  assumes "\<And>r. io_valid (tree r) m (\<lambda>_. tree r) (\<lambda>e s. io_fault e \<and> tree r s)"
  shows "io_valid (shows_temp a V t n) (io_map_err g m) (\<lambda>_. shows_temp a V t n) (\<lambda>_. shows_dir a V)"
  by (rule io_valid_map_err, rule from_shows_temp, rule io_valid_conseq [OF assms]) (auto simp: shows_root)

lemma create_temp_rule:
  assumes "hidden t"
  shows "io_valid (shows_dir a V) (io_map_err g (create_file_at E [] t mode))
     (\<lambda>_. shows_temp a V t (RegFile \<lparr>fa_uid = env_euid E, fa_perm = mode\<rparr> [])) (\<lambda>_. shows_dir a V)"
  by (rule io_valid_map_err, rule from_shows_dir, rule io_valid_conseq [OF create_file_at_rule])
    (auto simp: shows_root visible_dir_put_hidden [OF assms])

lemma write_temp_rule:
  assumes "hidden t"
  shows "io_valid (shows_temp a V t (RegFile b [])) (io_map_err g (write_all [] t bytes))
     (\<lambda>_. shows_temp a V t (RegFile b bytes)) (\<lambda>_. shows_dir a V)"
  by (rule io_valid_map_err, rule from_shows_temp, rule io_valid_conseq [OF write_all_rule])
    (auto simp: shows_root append_file_def visible_dir_put_hidden [OF assms])

lemma rename_temp_rule:
  assumes "hidden t" and "\<not> hidden name"
  shows "io_valid (shows_temp a V t n) (io_map_err g (rename_in [] t name))
     (\<lambda>_. shows_dir a (V(name \<mapsto> n))) (\<lambda>_. shows_dir a V)"
  by (rule io_valid_map_err, rule from_shows_temp, rule io_valid_conseq [OF rename_in_rule])
    (auto simp: shows_root visible_dir_put [OF assms(2)] visible_dir_del_hidden [OF assms(1)])

lemma unlink_temp_rule:
  assumes "hidden t"
  shows "io_valid (shows_dir a V) (unlink_at [] t b) (\<lambda>_. shows_dir a V) (\<lambda>_. shows_dir a V)"
  by (rule from_shows_dir, rule io_valid_conseq [OF unlink_at_rule])
    (auto simp: shows_root visible_dir_del_hidden [OF assms])

text \<open>On success the record is in place; on failure the old entries or the new ones are.\<close>

lemma write_steps_rule:
  fixes E lr
  defines "n \<equiv> RegFile \<lparr>fa_uid = env_euid E, fa_perm = 0x180\<rparr> (lease_encode E lr)"
  assumes t: "hidden t" and name: "\<not> hidden (lease_file_name lr)"
  shows "io_valid (shows_dir a V) (write_steps E st [] t lr)
     (\<lambda>_. shows_dir a (V(lease_file_name lr \<mapsto> n)))
     (\<lambda>_ s. shows_dir a V s \<or> shows_dir a (V(lease_file_name lr \<mapsto> n)) s)"
proof -
  let ?D = "shows_dir a V" and ?D' = "shows_dir a (V(lease_file_name lr \<mapsto> n))"
  let ?R = "\<lambda>_ s. ?D s \<or> ?D' s"
  let ?e = "RegFile \<lparr>fa_uid = env_euid E, fa_perm = 0x180\<rparr> []"
  have old: "io_valid P m Q (\<lambda>_. ?D) \<Longrightarrow> io_valid P m Q ?R" for P Q and m :: "'x ledger_io"
    by (erule io_valid_conseq) auto
  have new: "io_valid P m Q (\<lambda>_. ?D') \<Longrightarrow> io_valid P m Q ?R" for P Q and m :: "'x ledger_io"
    by (erule io_valid_conseq) auto
  show ?thesis
    unfolding write_steps_def store_trip_def
    apply (rule io_valid_then [where M = ?D], rule old, rule keeps_shows_dir, rule trip_rule)
    apply (rule io_valid_bind [where M = "\<lambda>_. shows_temp a V t ?e"], rule old, rule create_temp_rule [OF t])
    apply (rule io_valid_then [where M = "shows_temp a V t ?e"], rule old, rule keeps_shows_temp, rule trip_rule)
    apply (rule io_valid_then [where M = "shows_temp a V t n"], rule old,
        (simp only: n_def, rule write_temp_rule [OF t]))
    apply (rule io_valid_then [where M = "shows_temp a V t n"], rule old, rule keeps_shows_temp, rule trip_rule)
    apply (rule io_valid_then [where M = "shows_temp a V t n"], rule old, rule keeps_shows_temp, rule sync_file_rule)
    apply (rule io_valid_then [where M = "shows_temp a V t n"], rule old, rule keeps_shows_temp, rule trip_rule)
    apply (rule io_valid_then [where M = ?D'], rule old, rule rename_temp_rule [OF t name])
    apply (rule io_valid_then [where M = ?D'], rule new, rule keeps_shows_dir, rule trip_rule)
    apply (rule new, rule keeps_shows_dir, rule sync_directory_rule)
    done
qed

section \<open>The ledger a directory represents\<close>

lemma lease_decode_sound:
  assumes "lease_decode E bytes l = Inr r"
  shows "lr_lease_id r = l" and "validate_lease_id l = Inr ()" and "length bytes \<le> MAX_RECORD_BYTES"
    and "valid_id (lr_sandbox_id r)" and "valid_fingerprint (lr_owner r)"
    and "lr_uid r \<noteq> 0" and "lr_gid r \<noteq> 0"
    and "lr_quarantine_reason r \<noteq> None \<Longrightarrow> lr_state r = LeaseQuarantined"
  using assms unfolding lease_decode_def success_simps
  by (auto dest: parse_id_valid parse_fingerprint_valid)

text \<open>
  The entries \<open>V\<close> represent the ledger \<open>L\<close>: every entry is the record file of a lease of \<open>L\<close>, and
  every lease of \<open>L\<close> has a private regular file that decodes to it.
\<close>

type_synonym ledger = "string \<Rightarrow> lease_record option"

definition represents :: "env \<Rightarrow> (string \<Rightarrow> node option) \<Rightarrow> ledger \<Rightarrow> bool" where
  "represents E V L \<longleftrightarrow>
     (\<forall>n. V n \<noteq> None \<longrightarrow> (\<exists>l \<in> dom L. n = l @ RECORD_SUFFIX))
     \<and> (\<forall>l r. L l = Some r \<longrightarrow> (\<exists>b bytes. V (l @ RECORD_SUFFIX) = Some (RegFile b bytes)
          \<and> \<not> group_world_writable (fa_perm b) \<and> lease_decode E bytes l = Inr r))"

definition ledger_at :: "env \<Rightarrow> ledger \<Rightarrow> fsys \<Rightarrow> bool" where
  "ledger_at E L s \<longleftrightarrow> (\<exists>a V. fa_uid a = env_euid E \<and> \<not> group_world_writable (fa_perm a)
     \<and> represents E V L \<and> shows_dir a V s)"

lemma represents_lease:
  assumes "represents E V L" and "L l = Some r"
  shows "lr_lease_id r = l" and "validate_lease_id l = Inr ()" and "\<not> hidden (l @ RECORD_SUFFIX)"
proof -
  from assms obtain bytes where d: "lease_decode E bytes l = Inr r" unfolding represents_def by blast
  show "lr_lease_id r = l" "validate_lease_id l = Inr ()" by (rule lease_decode_sound [OF d])+
  show "\<not> hidden (l @ RECORD_SUFFIX)" by (rule record_name_visible [OF lease_decode_sound(2) [OF d]])
qed

lemma represents_update:
  assumes V: "represents E V L" and "\<not> group_world_writable (fa_perm b)"
    and d: "lease_decode E bytes (lr_lease_id r) = Inr r"
  shows "represents E (V(lease_file_name r \<mapsto> RegFile b bytes)) (L(lr_lease_id r \<mapsto> r))"
  using assms by (auto simp: represents_def lease_file_name_def)

lemma represents_remove:
  "represents E V L \<Longrightarrow> represents E (V(l @ RECORD_SUFFIX := None)) (L(l := None))"
  unfolding represents_def by (simp add: fun_upd_apply) blast

lemma from_ledger_at:
  assumes "\<And>a V. fa_uid a = env_euid E \<Longrightarrow> \<not> group_world_writable (fa_perm a) \<Longrightarrow> represents E V L \<Longrightarrow>
    io_valid (shows_dir a V) m Q R"
  shows "io_valid (ledger_at E L) m Q R"
proof -
  let ?C = "\<lambda>(a :: fattr, V). fa_uid a = env_euid E \<and> \<not> group_world_writable (fa_perm a) \<and> represents E V L"
  have "io_valid (\<lambda>s. \<exists>x. ?C x \<and> shows_dir (fst x) (snd x) s) m Q R"
    by (rule io_valid_ex) (auto intro: assms)
  then show ?thesis by (rule io_valid_pre) (auto simp: ledger_at_def)
qed

lemma ledger_atI:
  "shows_dir a V s \<Longrightarrow> fa_uid a = env_euid E \<Longrightarrow> \<not> group_world_writable (fa_perm a) \<Longrightarrow> represents E V L
     \<Longrightarrow> ledger_at E L s"
  by (auto simp: ledger_at_def)

lemma store_open_root_shows:
  "io_valid (shows_dir a V) (store_open_root E st) (\<lambda>d s. shows_dir a V s \<and> d = [])
     (\<lambda>e s. shows_dir a V s \<and> environmental e)"
  by (rule from_shows_dir, rule io_valid_conseq [OF store_open_root_rule]) (auto simp: shows_root)

section \<open>Publishing and removing a record\<close>

lemma fetch_counter_rule:
  "io_valid (shows_dir a V) fetch_counter (\<lambda>_. shows_dir a V) (\<lambda>_. shows_dir a V)"
  by (rule io_validI) (auto simp: fetch_counter_def shows_dir_def)

lemma store_write_shows:
  fixes E lr
  assumes "\<not> hidden (lease_file_name lr)"
  defines "n \<equiv> RegFile \<lparr>fa_uid = env_euid E, fa_perm = 0x180\<rparr> (lease_encode E lr)"
  shows "io_valid (shows_dir a V) (store_write E st lr)
     (\<lambda>_. shows_dir a (V(lease_file_name lr \<mapsto> n)))
     (\<lambda>_ s. shows_dir a V s \<or> shows_dir a (V(lease_file_name lr \<mapsto> n)) s)"
  unfolding store_write_def
proof (rule io_valid_bind)
  show "io_valid (shows_dir a V) (store_open_root E st) (\<lambda>d s. shows_dir a V s \<and> d = [])
     (\<lambda>_ s. shows_dir a V s \<or> shows_dir a (V(lease_file_name lr \<mapsto> n)) s)"
    by (rule io_valid_conseq [OF store_open_root_shows]) auto
next
  fix d
  let ?R = "\<lambda>_ s. shows_dir a V s \<or> shows_dir a (V(lease_file_name lr \<mapsto> n)) s"
  have fc: "io_valid (shows_dir a V) fetch_counter (\<lambda>_. shows_dir a V) ?R"
    by (rule io_valid_conseq [OF fetch_counter_rule]) auto
  have un: "io_valid (?R e) (unlink_at [] (lease_temp_name E c) False) (\<lambda>_. ?R e) (\<lambda>_. ?R e)" for e :: ledger_error and c
    by (rule io_valid_disj) (rule unlink_temp_rule [OF hidden_temp])+
  have "io_valid (shows_dir a V) (with_cleanup (write_steps E st [] (lease_temp_name E c) lr)
      (unlink_at [] (lease_temp_name E c) False)) (\<lambda>_. shows_dir a (V(lease_file_name lr \<mapsto> n))) ?R" for c
    unfolding n_def
    by (rule with_cleanup_rule [OF write_steps_rule [OF hidden_temp assms(1)]]) (rule un [unfolded n_def])
  note steps = this
  show "io_valid (\<lambda>s. shows_dir a V s \<and> d = []) (io_bind fetch_counter (\<lambda>c.
     with_cleanup (write_steps E st d (lease_temp_name E c) lr) (unlink_at d (lease_temp_name E c) False)))
     (\<lambda>_. shows_dir a (V(lease_file_name lr \<mapsto> n))) ?R"
    by (rule io_valid_pure, hypsubst, rule io_valid_bind [OF fc], rule steps)
qed

text \<open>The document the encoder writes for the record is read back as that record.\<close>

definition record_readable :: "env \<Rightarrow> lease_record \<Rightarrow> bool" where
  "record_readable E lr \<longleftrightarrow> lease_decode E (lease_encode E lr) (lr_lease_id lr) = Inr lr"

lemma store_write_rule:
  assumes "record_readable E lr"
  shows "io_valid (ledger_at E L) (store_write E st lr)
     (\<lambda>_. ledger_at E (L(lr_lease_id lr \<mapsto> lr)))
     (\<lambda>_ s. ledger_at E L s \<or> ledger_at E (L(lr_lease_id lr \<mapsto> lr)) s)"
proof (rule from_ledger_at)
  fix a :: fattr and V assume a: "fa_uid a = env_euid E" "\<not> group_world_writable (fa_perm a)" and V: "represents E V L"
  have d: "lease_decode E (lease_encode E lr) (lr_lease_id lr) = Inr lr"
    using assms by (simp add: record_readable_def)
  have h: "\<not> hidden (lease_file_name lr)"
    using record_name_visible [OF lease_decode_sound(2) [OF d]] by (simp add: lease_file_name_def)
  have m: "\<not> group_world_writable (fa_perm \<lparr>fa_uid = env_euid E, fa_perm = 0x180\<rparr>)"
    by (simp add: group_world_writable_def mode_bits_def)
  note V' = represents_update [OF V m d]
  show "io_valid (shows_dir a V) (store_write E st lr) (\<lambda>_. ledger_at E (L(lr_lease_id lr \<mapsto> lr)))
     (\<lambda>_ s. ledger_at E L s \<or> ledger_at E (L(lr_lease_id lr \<mapsto> lr)) s)"
    by (rule io_valid_conseq [OF store_write_shows [OF h]])
      (auto intro: ledger_atI [OF _ a V] ledger_atI [OF _ a V'])
qed

lemma unlink_record_rule:
  assumes "\<not> hidden name"
  shows "io_valid (shows_dir a V) (unlink_at [] name False)
     (\<lambda>_ s. shows_dir a (V(name := None)) s \<and> V name \<noteq> None)
     (\<lambda>e s. shows_dir a V s \<and> (e = OsError ENOENT \<longrightarrow> V name = None))"
  by (rule from_shows_dir, rule io_valid_conseq [OF unlink_at_rule])
    (use assms in \<open>auto simp: shows_root visible_dir_del visible_def\<close>)

lemma io_error_kind:
  assumes "\<And>r. io_valid (tree r) m (\<lambda>_. tree r) (\<lambda>e s. io_fault e \<and> tree r s)"
  shows "io_valid (shows_dir a V) (io_map_err (store_io st op) m) (\<lambda>_. shows_dir a V)
    (\<lambda>e s. environmental e \<and> shows_dir a V s)"
  by (rule io_valid_map_err, rule from_shows_dir, rule io_valid_conseq [OF assms])
    (auto simp: shows_root)

lemma store_trip_kind:
  "io_valid (shows_dir a V) (store_trip st p) (\<lambda>_. shows_dir a V)
    (\<lambda>e s. environmental e \<and> shows_dir a V s)"
  using io_error_kind [OF trip_rule, where op = "''injected lease fault''" and st = st and p2 = p]
  by (simp add: store_trip_def store_io_def [abs_def])

text \<open>
  Removal: on success the file was there and is gone; the error of a missing record leaves
  everything as it was, any other error leaves the directory with or without the file.
\<close>

lemma store_remove_shows:
  assumes n: "\<not> hidden (l @ RECORD_SUFFIX)" and v: "validate_lease_id l = Inr ()"
  shows "io_valid (shows_dir a V) (store_remove E st l)
     (\<lambda>_ s. shows_dir a (V(l @ RECORD_SUFFIX := None)) s \<and> V (l @ RECORD_SUFFIX) \<noteq> None)
     (\<lambda>e s. e = LeMissingRecord l \<and> shows_dir a V s \<and> V (l @ RECORD_SUFFIX) = None
       \<or> e \<noteq> LeMissingRecord l \<and> (shows_dir a V s \<or> shows_dir a (V(l @ RECORD_SUFFIX := None)) s))"
    (is "io_valid ?P _ ?Q ?R")
proof -
  let ?W = "\<lambda>s. shows_dir a (V(l @ RECORD_SUFFIX := None)) s \<and> V (l @ RECORD_SUFFIX) \<noteq> None"
  have lift: "io_lift (validate_lease_id l) = (io_ok () :: unit ledger_io)"
    by (simp add: v io_lift_def io_ok_def fun_eq_iff)
  have root: "io_valid ?P (store_open_root E st) (\<lambda>d s. ?P s \<and> d = []) ?R"
    by (rule io_valid_conseq [OF store_open_root_shows]) auto
  have t1: "io_valid ?P (store_trip st LeaseUnlink) (\<lambda>_. ?P) ?R"
    by (rule io_valid_conseq [OF store_trip_kind]) auto
  have un: "io_valid ?P (io_match (unlink_at [] (l @ RECORD_SUFFIX) False)
        (\<lambda>e. if errno_is e ENOENT then io_err (LeMissingRecord l)
              else io_err (store_io st ''unlink a lease record'' e)) io_ok) (\<lambda>_. ?W) ?R"
    by (rule io_valid_match [OF unlink_record_rule [OF n]], rule io_validI)
      (auto intro!: io_validI simp: io_simps errno_is_def store_io_def ledger_io_error_def split: if_splits)
  have t2: "io_valid ?W (store_trip st LeaseUnlinkSync) (\<lambda>_. ?W) ?R"
    by (rule io_valid_pure, rule io_valid_conseq [OF store_trip_kind]) auto
  have sy: "io_valid ?W (io_map_err (store_io st ''fsync the lease directory after unlink'')
      (sync_directory [])) ?Q ?R"
    by (rule io_valid_pure, rule io_valid_conseq [OF io_error_kind [OF sync_directory_rule]]) auto
  have "io_valid ?P (io_bind (store_open_root E st) (\<lambda>d. io_then (store_trip st LeaseUnlink)
      (io_then (io_match (unlink_at d (l @ RECORD_SUFFIX) False)
        (\<lambda>e. if errno_is e ENOENT then io_err (LeMissingRecord l)
              else io_err (store_io st ''unlink a lease record'' e)) io_ok)
      (io_then (store_trip st LeaseUnlinkSync)
      (io_map_err (store_io st ''fsync the lease directory after unlink'') (sync_directory d)))))) ?Q ?R"
    by (rule io_valid_bind [OF root], rule io_valid_pure, hypsubst)
      (intro io_valid_then [OF t1] io_valid_then [OF un] io_valid_then [OF t2] sy)
  then show ?thesis
    by (simp add: store_remove_def lift io_then_def io_bind_def [abs_def] io_ok_def [abs_def])
qed

lemma store_remove_rule:
  "io_valid (ledger_at E L) (store_remove E st l)
     (\<lambda>_ s. ledger_at E (L(l := None)) s \<and> L l \<noteq> None)
     (\<lambda>e s. e = LeMissingRecord l \<and> ledger_at E L s \<and> L l = None
       \<or> e \<noteq> LeMissingRecord l \<and> (ledger_at E L s \<or> ledger_at E (L(l := None)) s))"
proof (cases "validate_lease_id l = Inr ()")
  case False
  then have v: "validate_lease_id l = Inl (LeInvalidLeaseId l)"
    by (auto simp: validate_lease_id_def split: if_splits)
  show ?thesis by (rule io_validI) (auto simp: store_remove_def io_simps v)
next
  case True
  show ?thesis
  proof (rule from_ledger_at)
    fix a :: fattr and V
    assume a: "fa_uid a = env_euid E" "\<not> group_world_writable (fa_perm a)" and V: "represents E V L"
    have None: "V (l @ RECORD_SUFFIX) = None \<longleftrightarrow> L l = None" using V by (force simp: represents_def)
    note at = ledger_atI [OF _ a V] ledger_atI [OF _ a represents_remove [OF V, of l]]
    show "io_valid (shows_dir a V) (store_remove E st l)
        (\<lambda>_ s. ledger_at E (L(l := None)) s \<and> L l \<noteq> None)
        (\<lambda>e s. e = LeMissingRecord l \<and> ledger_at E L s \<and> L l = None
          \<or> e \<noteq> LeMissingRecord l \<and> (ledger_at E L s \<or> ledger_at E (L(l := None)) s))"
      by (rule io_valid_conseq [OF store_remove_shows [OF record_name_visible [OF True] True]])
        (use None in \<open>auto intro: at\<close>)
  qed
qed

section \<open>Reading records\<close>

text \<open>Reading the file of a lease of the ledger yields that lease.\<close>

lemma store_read_named_rule:
  assumes V: "represents E (visible cs) L" and L: "L l = Some r"
  shows "io_valid (ledger_root a cs) (store_read_named E st [] (l @ RECORD_SUFFIX))
     (\<lambda>v s. ledger_root a cs s \<and> v = r) (\<lambda>e s. ledger_root a cs s \<and> environmental e)"
proof -
  let ?n = "l @ RECORD_SUFFIX" and ?T = "ledger_root a cs"
  obtain b bytes where f: "visible cs ?n = Some (RegFile b bytes)"
    and b: "\<not> group_world_writable (fa_perm b)" and d: "lease_decode E bytes l = Inr r"
    using V L unfolding represents_def by blast
  have l: "lookup (Some (Directory a cs)) ([] @ [?n]) = Some (RegFile b bytes)"
    using f by (simp add: lookup_Cons visible_def split: if_splits)
  have len: "length bytes \<le> MAX_RECORD_BYTES" by (rule lease_decode_sound(3) [OF d])
  have st: "io_valid ?T (io_map_err (store_io st ''stat a lease record'') (stat_at [] ?n))
      (\<lambda>v s. ?T s \<and> v = stat_of (RegFile b bytes)) (\<lambda>e s. ?T s \<and> environmental e)"
    by (rule io_valid_map_err, rule io_valid_conseq [OF stat_at_rule]) (use l in auto)
  have rd: "io_valid ?T (io_map_err (store_io st ''read a lease record'') (read_file_at [] ?n MAX_RECORD_BYTES))
      (\<lambda>v s. ?T s \<and> v = bytes) (\<lambda>e s. ?T s \<and> environmental e)"
    by (rule io_valid_map_err, rule io_valid_conseq [OF read_file_at_rule]) (use l in auto)
  have tl: "io_valid (\<lambda>s. ?T s \<and> v = bytes)
      (io_lift (map_err (\<lambda>e. LeCorruptRecord ?n (display_ledger_error E e)) (lease_decode E v l)))
      (\<lambda>v s. ?T s \<and> v = r) (\<lambda>e s. ?T s \<and> environmental e)" for v
    by (rule io_validI) (auto simp: io_simps d)
  show ?thesis
    unfolding store_read_named_def strip_suffix_append option.case
    using b lease_decode_sound(2) [OF d]
    by (auto intro!: io_valid_bind [OF st] io_valid_pure io_valid_bind [OF rd tl])
qed

text \<open>The names the scan goes through and the records it returns.\<close>

lemma store_load_names_rule:
  assumes V: "represents E (visible cs) L"
  shows "set names \<subseteq> fst ` set cs \<Longrightarrow>
    io_valid (ledger_root a cs) (store_load_names E st [] names)
     (\<lambda>rs s. ledger_root a cs s \<and> map lease_file_name rs = filter (\<lambda>n. \<not> hidden n) names
        \<and> (\<forall>r \<in> set rs. L (lr_lease_id r) = Some r))
     (\<lambda>e s. ledger_root a cs s \<and> environmental e)"
proof (induction names)
  case Nil
  show ?case by (rule io_validI) (auto simp: io_simps)
next
  case (Cons n ns)
  let ?T = "ledger_root a cs"
  let ?E = "\<lambda>e s. ?T s \<and> environmental e"
  have IH: "io_valid ?T (store_load_names E st [] ns)
     (\<lambda>rs s. ?T s \<and> map lease_file_name rs = filter (\<lambda>n. \<not> hidden n) ns
        \<and> (\<forall>r \<in> set rs. L (lr_lease_id r) = Some r)) ?E"
    using Cons by simp
  show ?case
  proof (cases "hidden n")
    case True
    with IH show ?thesis by (auto simp: hidden_def)
  next
    case False
    obtain m where "map_of cs n = Some m" using Cons.prems
      by (metis domIff dom_map_of_conv_image_fst list.set_intros(1) option.exhaust subsetD)
    with False have "visible cs n \<noteq> None" by (simp add: visible_def)
    with V obtain l r where l: "L l = Some r" "n = l @ RECORD_SUFFIX" unfolding represents_def by blast
    have id: "lr_lease_id r = l" by (rule represents_lease(1) [OF V l(1)])
    have fn: "lease_file_name r = l @ RECORD_SUFFIX" by (simp add: lease_file_name_def id)
    have u: "from_utf8_lossy n = n"
      using from_utf8_lossy_ascii [OF record_name_ascii [OF represents_lease(2) [OF V l(1)]]] l(2) by simp
    have eq: "store_load_names E st [] (n # ns) =
        io_bind (store_read_named E st [] n) (\<lambda>r. io_bind (store_load_names E st [] ns) (\<lambda>rs. io_ok (r # rs)))"
      using False by (simp add: hidden_def u)
    show ?thesis unfolding eq unfolding l(2)
    proof (rule io_valid_bind [OF store_read_named_rule [OF V l(1)]], rule io_valid_pure,
        rule io_valid_bind [OF IH], rule io_validI)
    qed (use False l id fn in \<open>auto simp: io_simps\<close>)
  qed
qed

text \<open>A scan that succeeds returns every lease of the ledger once, in the order of the lease IDs.\<close>

definition listing :: "ledger \<Rightarrow> lease_record list \<Rightarrow> bool" where
  "listing L rs \<longleftrightarrow> (\<forall>l r. L l = Some r \<longleftrightarrow> r \<in> set rs \<and> lr_lease_id r = l)
     \<and> distinct (map lr_lease_id rs) \<and> sorted (map lr_lease_id rs)"

lemma lease_file_name_inject: "lease_file_name r = lease_file_name q \<longleftrightarrow> lr_lease_id r = lr_lease_id q"
  by (simp add: lease_file_name_def)

lemma listing_sort:
  assumes V: "represents E (visible cs) L" and d: "distinct (map fst cs)"
    and names: "map lease_file_name rs = filter (\<lambda>n. \<not> hidden n)
      (filter (\<lambda>n. n \<noteq> ''.'' \<and> n \<noteq> ''..'') (map fst cs))"
    and L: "\<forall>r \<in> set rs. L (lr_lease_id r) = Some r"
  shows "listing L (sort_key lr_lease_id rs)"
proof -
  have "distinct (map lease_file_name rs)" unfolding names using d by simp
  then have dist: "distinct (map lr_lease_id rs)"
    by (auto simp: distinct_map inj_on_def lease_file_name_inject)
  have "r \<in> set rs" if l: "L l = Some r" for l r
  proof -
    have n: "visible cs (l @ RECORD_SUFFIX) \<noteq> None" using V l by (fastforce simp: represents_def)
    have "l @ RECORD_SUFFIX \<in> fst ` set cs"
      using n by (auto simp: visible_def split: if_splits dest!: map_of_SomeD intro: rev_image_eqI)
    then have "l @ RECORD_SUFFIX \<in> set (map lease_file_name rs)"
      using represents_lease(3) [OF V l] unfolding names by (auto simp: RECORD_SUFFIX_def)
    then obtain q where "q \<in> set rs" "lr_lease_id q = l" by (auto simp: lease_file_name_def)
    with L l show ?thesis by force
  qed
  then have "L l = Some r \<longleftrightarrow> r \<in> set rs \<and> lr_lease_id r = l" for l r
    using L represents_lease(1) [OF V] by blast
  moreover have "distinct (map lr_lease_id (sort_key lr_lease_id rs))"
    using dist by (simp add: distinct_map)
  ultimately show ?thesis using L by (simp add: listing_def)
qed

lemma store_load_rule:
  "io_valid (ledger_at E L) (store_load E st)
     (\<lambda>rs s. ledger_at E L s \<and> listing L rs) (\<lambda>e s. ledger_at E L s \<and> environmental e)"
proof (rule from_ledger_at, rule from_shows_dir)
  fix a :: fattr and V cs
  assume a: "fa_uid a = env_euid E" "\<not> group_world_writable (fa_perm a)" and V: "represents E V L"
    and cs: "distinct (map fst cs)" "visible cs = V"
  let ?T = "ledger_root a cs" and ?E = "\<lambda>e s. ledger_root a cs s \<and> environmental e"
  let ?N = "filter (\<lambda>n. n \<noteq> ''.'' \<and> n \<noteq> ''..'') (map fst cs)"
  note V' = V [folded cs(2)]
  have scan: "io_valid ?T (io_map_err (store_io st ''scan'') (read_names [])) (\<lambda>ns s. ?T s \<and> ns = ?N) ?E"
    by (rule io_valid_map_err, rule io_valid_conseq [OF read_names_rule]) auto
  have sub: "set ?N \<subseteq> fst ` set cs" by auto
  have tl: "io_valid (\<lambda>s. ?T s \<and> map lease_file_name rs = filter (\<lambda>n. \<not> hidden n) ?N
        \<and> (\<forall>r \<in> set rs. L (lr_lease_id r) = Some r)) (io_ok (sort_key lr_lease_id rs))
      (\<lambda>rs s. ?T s \<and> listing L rs) ?E" for rs
    by (rule io_validI) (use listing_sort [OF V' cs(1)] in \<open>auto simp: io_simps\<close>)
  have "io_valid ?T (store_load E st) (\<lambda>rs s. ?T s \<and> listing L rs) ?E"
    unfolding store_load_def
    by (rule io_valid_bind [OF store_open_root_rule], rule io_valid_pure, hypsubst,
        rule io_valid_bind [OF scan], rule io_valid_pure, hypsubst,
        rule io_valid_bind [OF store_load_names_rule [OF V' sub] tl])
  then show "io_valid ?T (store_load E st) (\<lambda>rs s. ledger_at E L s \<and> listing L rs)
      (\<lambda>e s. ledger_at E L s \<and> environmental e)"
    by (rule io_valid_conseq) (use cs in \<open>auto intro!: ledger_atI [OF _ a V] simp: shows_root\<close>)
qed

lemma store_read_rule:
  "io_valid (ledger_at E L) (store_read E st l)
     (\<lambda>v s. ledger_at E L s \<and> v = L l)
     (\<lambda>e s. ledger_at E L s \<and> (environmental e \<or> e = LeInvalidLeaseId l))"
proof (cases "validate_lease_id l = Inr ()")
  case False
  then have v: "validate_lease_id l = Inl (LeInvalidLeaseId l)"
    by (auto simp: validate_lease_id_def split: if_splits)
  show ?thesis by (rule io_validI) (auto simp: store_read_def io_simps v)
next
  case True
  have lift: "io_then (io_lift (validate_lease_id l)) m = m" for m :: "'b ledger_io"
    by (simp add: True io_simps fun_eq_iff)
  show ?thesis
  proof (rule from_ledger_at, rule from_shows_dir)
    fix a :: fattr and V cs
    assume a: "fa_uid a = env_euid E" "\<not> group_world_writable (fa_perm a)" and V: "represents E V L"
      and cs: "distinct (map fst cs)" "visible cs = V"
    let ?T = "ledger_root a cs" and ?E = "\<lambda>e s. ledger_root a cs s \<and> environmental e"
    let ?n = "l @ RECORD_SUFFIX"
    note V' = V [folded cs(2)]
    have look: "lookup (Some (Directory a cs)) ([] @ [?n]) = visible cs ?n"
      using record_name_visible [OF True] by (simp add: lookup_Cons visible_def)
    have None: "visible cs ?n = None \<longleftrightarrow> L l = None" using V' by (force simp: represents_def)
    have st: "io_valid ?T (stat_at [] ?n) (\<lambda>v s. ?T s \<and> L l \<noteq> None)
        (\<lambda>e s. ?T s \<and> (io_fault e \<or> e = OsError ENOENT \<and> L l = None))"
      by (rule io_valid_conseq [OF stat_at_rule]) (use look None in auto)
    have err: "io_valid (\<lambda>s. ?T s \<and> (io_fault e \<or> e = OsError ENOENT \<and> L l = None))
        (if errno_is e ENOENT then io_ok None else io_err (store_io st ''stat a lease record'' e))
        (\<lambda>v s. ?T s \<and> v = L l) ?E" for e
      by (rule io_validI) (auto simp: io_simps errno_is_def split: if_splits)
    have ok: "io_valid ?T (io_bind (store_read_named E st [] ?n) (\<lambda>r. io_ok (Some r)))
        (\<lambda>v s. ?T s \<and> v = L l) ?E" if l: "L l = Some r" for r
      by (rule io_valid_bind [OF store_read_named_rule [OF V' l]], rule io_validI)
        (auto simp: io_simps l)
    have "io_valid ?T (store_read E st l) (\<lambda>v s. ?T s \<and> v = L l) ?E"
      unfolding store_read_def lift Let_def
      by (rule io_valid_bind [OF store_open_root_rule], rule io_valid_pure, hypsubst,
          rule io_valid_match [OF st _ err], rule io_valid_pure) (use ok in blast)
    then show "io_valid ?T (store_read E st l) (\<lambda>v s. ledger_at E L s \<and> v = L l)
        (\<lambda>e s. ledger_at E L s \<and> (environmental e \<or> e = LeInvalidLeaseId l))"
      by (rule io_valid_conseq) (use cs in \<open>auto intro!: ledger_atI [OF _ a V] simp: shows_root\<close>)
  qed
qed

section \<open>Maintenance\<close>

text \<open>Sweeping temporary files never touches a record, whatever fails.\<close>

lemma remove_stale_temps_rule:
  "io_valid (ledger_at E L) (remove_stale_temps E st)
     (\<lambda>_. ledger_at E L) (\<lambda>_. ledger_at E L)"
proof (rule from_ledger_at)
  fix a :: fattr and V
  assume a: "fa_uid a = env_euid E" "\<not> group_world_writable (fa_perm a)" and V: "represents E V L"
  let ?D = "shows_dir a V"
  have scan: "io_valid ?D (io_map_err (store_io st ''scan'') (read_names [])) (\<lambda>_. ?D) (\<lambda>_. ?D)"
    by (rule io_valid_map_err, rule from_shows_dir, rule io_valid_conseq [OF read_names_rule])
      (auto simp: shows_root)
  have step: "io_valid ?D (let name = from_utf8_lossy raw in
       if starts_with name LEASE_TEMP_PREFIX
       then io_map_err (store_io st ''remove a stale temp file'') (unlink_at [] name False)
       else io_ok ()) (\<lambda>_. ?D) (\<lambda>_. ?D)" for raw
    unfolding Let_def
    by (rule io_valid_if, rule io_valid_map_err, rule unlink_temp_rule, simp add: hidden_def)
      (rule io_validI, auto simp: io_simps)
  have "io_valid ?D (remove_stale_temps E st) (\<lambda>_. ?D) (\<lambda>_. ?D)"
    unfolding remove_stale_temps_def
  proof (rule io_valid_bind)
    show "io_valid ?D (store_open_root E st) (\<lambda>d s. ?D s \<and> d = []) (\<lambda>_. ?D)"
      by (rule io_valid_conseq [OF store_open_root_shows]) auto
  qed (rule io_valid_pure, hypsubst, rule io_valid_bind [OF scan], rule io_valid_for, rule step)
  then show "io_valid ?D (remove_stale_temps E st) (\<lambda>_. ledger_at E L) (\<lambda>_. ledger_at E L)"
    by (rule io_valid_conseq) (auto intro: ledger_atI [OF _ a V])
qed

text \<open>Taking the lock changes nothing but the schedule.\<close>

lemma store_lock_rule:
  "io_valid (ledger_at E L) (store_lock st) (\<lambda>_. ledger_at E L) (\<lambda>e s. ledger_at E L s \<and> environmental e)"
proof (rule from_ledger_at, rule from_shows_dir)
  fix a :: fattr and V cs
  assume a: "fa_uid a = env_euid E" "\<not> group_world_writable (fa_perm a)" and V: "represents E V L"
    and cs: "distinct (map fst cs)" "visible cs = V"
  show "io_valid (ledger_root a cs) (store_lock st) (\<lambda>_. ledger_at E L)
      (\<lambda>e s. ledger_at E L s \<and> environmental e)"
    unfolding store_lock_def
    by (rule io_valid_map_err, rule syscall_retry_rule)
      (use cs in \<open>auto intro!: io_validI ledger_atI [OF _ a V] simp: shows_root io_simps\<close>)
qed

section \<open>The contract of a record store\<close>

text \<open>
  What the allocator relies on: the state represents a map of records, reading and listing return
  it, writing and removing change one key, and a failing write or removal leaves the map as it was
  or as the call would have made it.
\<close>

locale record_store =
  fixes at :: "ledger \<Rightarrow> 's \<Rightarrow> bool"
    and scan :: "('s, 'e, lease_record list) io"
    and get :: "string \<Rightarrow> ('s, 'e, lease_record option) io"
    and put :: "lease_record \<Rightarrow> ('s, 'e, unit) io"
    and del :: "string \<Rightarrow> ('s, 'e, unit) io"
    and readable :: "lease_record \<Rightarrow> bool"
  assumes load_law: "io_valid (at L) scan (\<lambda>rs s. at L s \<and> listing L rs) (\<lambda>_. at L)"
    and read_law: "io_valid (at L) (get l) (\<lambda>v s. at L s \<and> v = L l) (\<lambda>_. at L)"
    and write_law: "readable r \<Longrightarrow> io_valid (at L) (put r) (\<lambda>_. at (L(lr_lease_id r \<mapsto> r)))
      (\<lambda>_ s. at L s \<or> at (L(lr_lease_id r \<mapsto> r)) s)"
    and remove_law: "io_valid (at L) (del l) (\<lambda>_ s. at (L(l := None)) s \<and> L l \<noteq> None)
      (\<lambda>_ s. at L s \<or> at (L(l := None)) s)"
begin

lemma write_then_read:
  assumes "readable r"
  shows "io_valid (at L) (io_then (put r) (get (lr_lease_id r)))
    (\<lambda>v s. v = Some r \<and> at (L(lr_lease_id r \<mapsto> r)) s) (\<lambda>_ s. at L s \<or> at (L(lr_lease_id r \<mapsto> r)) s)"
  by (rule io_valid_then, rule write_law [OF assms], rule io_valid_conseq [OF read_law]) auto

lemma remove_then_read:
  "io_valid (at L) (io_then (del l) (get l))
    (\<lambda>v s. v = None \<and> at (L(l := None)) s) (\<lambda>_ s. at L s \<or> at (L(l := None)) s)"
  by (rule io_valid_then [where M = "at (L(l := None))"], rule io_valid_conseq [OF remove_law])
    (auto intro!: io_valid_conseq [OF read_law])

end

interpretation store: record_store "ledger_at E" "store_load E st" "store_read E st"
    "store_write E st" "store_remove E st" "record_readable E" for E st
proof
  fix L l r
  show "io_valid (ledger_at E L) (store_load E st) (\<lambda>rs s. ledger_at E L s \<and> listing L rs) (\<lambda>_. ledger_at E L)"
    by (rule io_valid_conseq [OF store_load_rule]) auto
  show "io_valid (ledger_at E L) (store_read E st l) (\<lambda>v s. ledger_at E L s \<and> v = L l) (\<lambda>_. ledger_at E L)"
    by (rule io_valid_conseq [OF store_read_rule]) auto
  show "record_readable E r \<Longrightarrow> io_valid (ledger_at E L) (store_write E st r)
      (\<lambda>_. ledger_at E (L(lr_lease_id r \<mapsto> r)))
      (\<lambda>_ s. ledger_at E L s \<or> ledger_at E (L(lr_lease_id r \<mapsto> r)) s)"
    by (rule store_write_rule)
  show "io_valid (ledger_at E L) (store_remove E st l)
      (\<lambda>_ s. ledger_at E (L(l := None)) s \<and> L l \<noteq> None)
      (\<lambda>_ s. ledger_at E L s \<or> ledger_at E (L(l := None)) s)"
    by (rule io_valid_conseq [OF store_remove_rule]) auto
qed

section \<open>Records that read back\<close>

definition valid_lease :: "lease_record \<Rightarrow> bool" where
  "valid_lease r \<longleftrightarrow> validate_lease_id (lr_lease_id r) = Inr () \<and> valid_id (lr_sandbox_id r)
     \<and> valid_fingerprint (lr_owner r) \<and> lr_uid r \<noteq> 0 \<and> lr_gid r \<noteq> 0
     \<and> (lr_quarantine_reason r \<noteq> None \<longrightarrow> lr_state r = LeaseQuarantined)"

definition lease_table :: "lease_record \<Rightarrow> toml_table" where
  "lease_table r =
     [(''version'', TomlInteger 1), (''lease_id'', TomlString (lr_lease_id r)),
      (''sandbox_id'', TomlString (id_as_str (lr_sandbox_id r))),
      (''owner'', TomlString (fp_as_str (lr_owner r))), (''uid'', TomlInteger (int (unat (lr_uid r)))),
      (''gid'', TomlInteger (int (unat (lr_gid r)))),
      (''state'', TomlString (lease_state_as_str (lr_state r)))]
     @ (case lr_quarantine_reason r of None \<Rightarrow> [] | Some q \<Rightarrow> [(''quarantine_reason'', TomlString q)])"

text \<open>What the code relies on in the TOML crate, for the document of one record.\<close>

definition toml_reads_lease :: "env \<Rightarrow> lease_record \<Rightarrow> bool" where
  "toml_reads_lease E r \<longleftrightarrow> toml_table_of E (lease_encode E r) = Inr (lease_table r)"

lemma parse_lease_state_as_str [simp]: "parse_lease_state (lease_state_as_str s) = Inr s"
  by (cases s) (simp_all add: parse_lease_state_def)

lemma lease_state_plain: "plain_ascii (lease_state_as_str s)"
  by (cases s) (simp_all add: plain_ascii_def)

lemma lease_id_plain: "validate_lease_id l = Inr () \<Longrightarrow> plain_ascii l"
  by (auto simp: validate_lease_id_ok plain_ascii_def list_all_iff lease_id_byte_def is_ascii_digit_def)

lemma raw_lease_of_table:
  "raw_lease_of (lease_table r) =
     Some \<lparr>rl_version = 1, rl_lease_id = lr_lease_id r, rl_sandbox_id = id_as_str (lr_sandbox_id r),
           rl_owner = fp_as_str (lr_owner r), rl_uid = lr_uid r, rl_gid = lr_gid r,
           rl_state = lease_state_as_str (lr_state r), rl_quarantine_reason = lr_quarantine_reason r\<rparr>"
proof -
  have u: "u32_field (lease_table r) ''uid'' = Some (lr_uid r)"
    "u32_field (lease_table r) ''gid'' = Some (lr_gid r)"
    by (rule u32_field_nat, simp add: lease_table_def)+
  show ?thesis
    by (simp add: raw_lease_of_def u)
      (auto simp: lease_table_def only_fields_def string_field_def optional_string_field_def u32_field_def
        split: option.splits)
qed

lemma lease_readable:
  assumes "valid_lease r" and "toml_reads_lease E r"
    and "from_utf8 (lease_encode E r) = Some t" and "length (lease_encode E r) \<le> MAX_RECORD_BYTES"
  shows "record_readable E r"
  using assms from_utf8_same [OF assms(3)]
  by (auto simp: record_readable_def lease_decode_def and_then_def ok_or_def map_err_def toml_lease_def
      toml_reads_lease_def raw_lease_of_table LEASE_VERSION_def valid_lease_def valid_fingerprint_def)

lemma length_display_radix:
  assumes "1 < b"
  shows "0 < k \<Longrightarrow> n < b ^ k \<Longrightarrow> length (display_radix b n) \<le> k"
proof (induction k arbitrary: n)
  case 0
  then show ?case by simp
next
  case (Suc k)
  show ?case
  proof (cases "n < b")
    case True
    then show ?thesis by (simp add: display_radix.simps [of b n])
  next
    case False
    with Suc.prems have "0 < k" by (cases k) auto
    moreover have "n div b < b ^ k" using Suc.prems by (simp add: less_mult_imp_div_less mult.commute)
    ultimately have "length (display_radix b (n div b)) \<le> k" by (rule Suc.IH)
    with False assms show ?thesis by (simp add: display_radix.simps [of b n])
  qed
qed

lemma length_display_u32: "length (display_nat (unat (w::u32))) \<le> 10"
proof -
  have "unat w < 2 ^ 32" using unsigned_less [of w] by simp
  then show ?thesis unfolding display_nat_def by (intro length_display_radix) simp_all
qed

text \<open>A record with no quarantine reason always fits and is plain ASCII.\<close>

text \<open>A reason that the encoder leaves as it is and that keeps the record below its limit.\<close>

definition short_reason :: "lease_record \<Rightarrow> bool" where
  "short_reason r = (case lr_quarantine_reason r of None \<Rightarrow> True | Some q \<Rightarrow> plain_ascii q \<and> length q \<le> 1000)"

lemma lease_encode_short:
  assumes "valid_lease r" and "short_reason r"
  shows "is_ascii (lease_encode E r)" and "length (lease_encode E r) \<le> MAX_RECORD_BYTES"
proof -
  have one: "display_nat LEASE_VERSION = ''1''" by code_simp
  have p: "plain_ascii (lr_lease_id r)" "plain_ascii (id_as_str (lr_sandbox_id r))" "plain_ascii (fp_as_str (lr_owner r))"
    using assms by (auto simp: valid_lease_def valid_id_def grammar_plain fingerprint_plain lease_id_plain)
  show "is_ascii (lease_encode E r)"
    using p assms(2) by (auto simp: lease_encode_def short_reason_def debug_str_plain lease_state_plain plain_ascii_is_ascii
        newline_def display_nat_def display_radix_ascii split: option.splits)
  have "length (lr_lease_id r) = 32" "length (id_as_str (lr_sandbox_id r)) \<le> 64" "length (fp_as_str (lr_owner r)) = 50"
    using assms by (auto simp: valid_lease_def validate_lease_id_ok valid_id_def id_grammar_def fingerprint_length)
  moreover have "length (lease_state_as_str (lr_state r)) \<le> 11" by (cases "lr_state r") simp_all
  ultimately show "length (lease_encode E r) \<le> MAX_RECORD_BYTES"
    using p assms(2) length_display_u32 [of "lr_uid r"] length_display_u32 [of "lr_gid r"]
    by (auto simp: lease_encode_def short_reason_def debug_str_plain lease_state_plain newline_def MAX_RECORD_BYTES_def
        one split: option.splits)
qed

lemma short_lease_readable:
  assumes "valid_lease r" and "short_reason r" and "toml_reads_lease E r"
  shows "record_readable E r"
  by (rule lease_readable [OF assms(1,3) from_utf8_ascii]) (rule lease_encode_short [OF assms(1,2)])+

lemma plain_lease_readable:
  assumes "valid_lease r" and "lr_quarantine_reason r = None" and "toml_reads_lease E r"
  shows "record_readable E r"
  by (rule short_lease_readable [OF assms(1) _ assms(3)]) (simp add: short_reason_def assms(2))

end
