(* ===== verification/Subid_Allocator.thy ===== *)
theory Subid_Allocator
  imports Delegation Lease_Store
begin

text \<open>
  The subordinate-ID allocator (\<open>sandbox/subid/mod.rs\<close>): its operations on the lease store, its
  in-memory index and acknowledgements, and its errors. The ledger lock and the selection mutex
  make each operation one step. A random lease token is an argument; a poisoned mutex is a flag.
\<close>

section \<open>Model: state and errors\<close>

record pool_capacity =
  pc_delegated :: nat
  pc_free :: nat
  pc_reserved :: nat
  pc_active :: nat
  pc_releasing :: nat
  pc_quarantined :: nat

datatype allocator_error =
    AeLedger ledger_error
  | AeCorrupt string
  | AeStateConflict string
  | AeMissingLease string
  | AeUndelegated string bool bool
  | AeSelectionPoisoned
  | AeExhausted pool_capacity pool_capacity
  | AeLookup string

definition display_pool_capacity :: "pool_capacity \<Rightarrow> string" where
  "display_pool_capacity c =
     display_nat (pc_delegated c) @ '' delegated, '' @ display_nat (pc_free c) @ '' free, ''
     @ display_nat (pc_reserved c) @ '' reserved, '' @ display_nat (pc_active c) @ '' active, ''
     @ display_nat (pc_releasing c) @ '' releasing, '' @ display_nat (pc_quarantined c) @ '' quarantined''"

definition em_dash :: string where
  "em_dash = [CHR 0xE2, CHR 0x80, CHR 0x94]"

definition display_allocator_error :: "env \<Rightarrow> allocator_error \<Rightarrow> string" where
  "display_allocator_error E e =
     (case e of
        AeLedger le \<Rightarrow> ''lease ledger: '' @ display_ledger_error E le
      | AeCorrupt reason \<Rightarrow> ''lease ledger is corrupt: '' @ reason
      | AeStateConflict reason \<Rightarrow> ''lease state conflict: '' @ reason
      | AeMissingLease l \<Rightarrow> ''lease '' @ l @ '' does not exist (stale or already released)''
      | AeUndelegated l u g \<Rightarrow>
          ''lease '' @ l @ '' IDs are '' @ (if u then ''still'' else ''no longer'') @ '' (UID) / ''
          @ (if g then ''still'' else ''no longer'')
          @ '' (GID) inside the current subordinate delegation; new isolated launches using it fail closed''
      | AeSelectionPoisoned \<Rightarrow> ''subordinate-ID allocator selection lock is poisoned''
      | AeExhausted u g \<Rightarrow>
          ''no free subordinate UID or GID remains '' @ em_dash @ '' UID pool: '' @ display_pool_capacity u
          @ ''; GID pool: '' @ display_pool_capacity g
          @ ''; let pending releases finish, repair quarantined leases, or enlarge the delegation''
      | AeLookup reason \<Rightarrow> ''sandbox lookup failed during lease reconciliation: '' @ reason)"

record allocator =
  al_store :: lease_store
  al_fs :: fsys
  al_lease_ids :: "sandbox_id \<Rightarrow> string option"
  al_pending :: "string set"
  al_selection_poisoned :: bool
  al_ids_poisoned :: bool
  al_pending_poisoned :: bool

type_synonym 'a alloc_io = "(allocator, allocator_error, 'a) io"

definition allocator_new :: "lease_store \<Rightarrow> fsys \<Rightarrow> allocator" where
  "allocator_new st fs =
     \<lparr>al_store = st, al_fs = fs, al_lease_ids = Map.empty, al_pending = {},
      al_selection_poisoned = False, al_ids_poisoned = False, al_pending_poisoned = False\<rparr>"

text \<open>\<open>From<ledger::Error>\<close>: an operation of the store, with its error wrapped.\<close>

definition on_store :: "(lease_store \<Rightarrow> 'a ledger_io) \<Rightarrow> 'a alloc_io" where
  "on_store m a =
     (case m (al_store a) (al_fs a) of (r, fs) \<Rightarrow> (map_err AeLedger r, a\<lparr>al_fs := fs\<rparr>))"

definition lock_selection :: "unit alloc_io" where
  "lock_selection a = (if al_selection_poisoned a then (Inl AeSelectionPoisoned, a) else (Inr (), a))"

definition with_lease_ids ::
  "((sandbox_id \<Rightarrow> string option) \<Rightarrow> (sandbox_id \<Rightarrow> string option)) \<Rightarrow> unit alloc_io" where
  "with_lease_ids f a =
     (if al_ids_poisoned a then (Inl AeSelectionPoisoned, a)
      else (Inr (), a\<lparr>al_lease_ids := f (al_lease_ids a)\<rparr>))"

definition get_lease_id :: "sandbox_id \<Rightarrow> string option alloc_io" where
  "get_lease_id i a =
     (if al_ids_poisoned a then (Inl AeSelectionPoisoned, a) else (Inr (al_lease_ids a i), a))"

definition insert_pending :: "string \<Rightarrow> unit alloc_io" where
  "insert_pending l a =
     (if al_pending_poisoned a then (Inl AeSelectionPoisoned, a)
      else (Inr (), a\<lparr>al_pending := insert l (al_pending a)\<rparr>))"

text \<open>\<open>HashSet::remove\<close> tells whether the value was there.\<close>

definition remove_pending :: "string \<Rightarrow> bool alloc_io" where
  "remove_pending l a =
     (if al_pending_poisoned a then (Inl AeSelectionPoisoned, a)
      else (Inr (l \<in> al_pending a), a\<lparr>al_pending := al_pending a - {l}\<rparr>))"

section \<open>Model: validation and capacity\<close>

definition same_incarnation :: "lease_record \<Rightarrow> lease_record \<Rightarrow> bool" where
  "same_incarnation current expected \<longleftrightarrow>
     lr_lease_id current = lr_lease_id expected \<and> lr_sandbox_id current = lr_sandbox_id expected
     \<and> lr_owner current = lr_owner expected \<and> lr_uid current = lr_uid expected
     \<and> lr_gid current = lr_gid expected"

fun check_unique ::
  "u32 set \<Rightarrow> u32 set \<Rightarrow> sandbox_id set \<Rightarrow> lease_record list \<Rightarrow> (allocator_error, unit) result" where
  "check_unique us gs is [] = Inr ()"
| "check_unique us gs is (r # rs) =
     (if lr_uid r \<in> us
      then Inl (AeCorrupt (''UID '' @ display_nat (unat (lr_uid r)) @ '' appears in more than one lease record''))
      else if lr_gid r \<in> gs
      then Inl (AeCorrupt (''GID '' @ display_nat (unat (lr_gid r)) @ '' appears in more than one lease record''))
      else if lr_sandbox_id r \<in> is
      then Inl (AeCorrupt (''sandbox '' @ id_as_str (lr_sandbox_id r) @ '' holds more than one lease record''))
      else check_unique (insert (lr_uid r) us) (insert (lr_gid r) gs) (insert (lr_sandbox_id r) is) rs)"

definition validate_uniqueness :: "lease_record list \<Rightarrow> (allocator_error, unit) result" where
  "validate_uniqueness rs = check_unique {} {} {} rs"

datatype id_kind = Uid | Gid

definition id_of :: "id_kind \<Rightarrow> lease_record \<Rightarrow> u32" where
  "id_of k r = (case k of Uid \<Rightarrow> lr_uid r | Gid \<Rightarrow> lr_gid r)"

definition count_state :: "lease_state \<Rightarrow> lease_record list \<Rightarrow> nat" where
  "count_state st rs = length (filter (\<lambda>r. lr_state r = st) rs)"

text \<open>\<open>delegated.saturating_sub(used)\<close> is truncated subtraction.\<close>

definition capacity :: "subid_range list \<Rightarrow> lease_record list \<Rightarrow> id_kind \<Rightarrow> pool_capacity" where
  "capacity ranges rs k =
     (let delegated = sum_list (map (\<lambda>r. length (range_ids r)) ranges);
          used = length (filter (\<lambda>r. list_ex (\<lambda>x. range_contains x (id_of k r)) ranges) rs)
      in \<lparr>pc_delegated = delegated, pc_free = delegated - used,
          pc_reserved = count_state LeaseReserved rs, pc_active = count_state LeaseActive rs,
          pc_releasing = count_state LeaseReleasing rs, pc_quarantined = count_state LeaseQuarantined rs\<rparr>)"

section \<open>Model: operations\<close>

definition alloc_load :: "env \<Rightarrow> lease_record list alloc_io" where
  "alloc_load E =
     io_bind (on_store (store_load E)) (\<lambda>rs.
     io_then (io_lift (validate_uniqueness rs))
     (io_then (with_lease_ids (\<lambda>_. map_of (rev (map (\<lambda>r. (lr_sandbox_id r, lr_lease_id r)) rs))))
     (io_ok rs)))"

definition alloc_load_indexed :: "env \<Rightarrow> (sandbox_id, lease_record) btree_map alloc_io" where
  "alloc_load_indexed E =
     io_bind (alloc_load E) (\<lambda>rs. io_ok (bt_collect (map (\<lambda>r. (lr_sandbox_id r, r)) rs)))"

definition lease_for :: "env \<Rightarrow> sandbox_id \<Rightarrow> lease_record option alloc_io" where
  "lease_for E i =
     io_bind (get_lease_id i) (\<lambda>known.
     case known of
       None \<Rightarrow> io_bind (alloc_load_indexed E) (\<lambda>m. io_ok (bt_get m i))
     | Some l \<Rightarrow>
         io_bind (on_store (\<lambda>st. store_read E st l)) (\<lambda>found.
         case found of
           Some r \<Rightarrow>
             if lr_sandbox_id r = i then io_ok (Some r)
             else io_err (AeCorrupt (''lease '' @ lr_lease_id r @ '' is indexed for sandbox ''
                    @ id_as_str i @ '' but names sandbox '' @ id_as_str (lr_sandbox_id r)))
         | None \<Rightarrow> io_bind (alloc_load_indexed E) (\<lambda>m. io_ok (bt_get m i))))"

text \<open>The selection of \<open>claim\<close>: the lowest free UID and GID, or the capacity report.\<close>

definition select_ids ::
  "env \<Rightarrow> delegation \<Rightarrow> lease_record list \<Rightarrow> (allocator_error, u32 \<times> u32) result" where
  "select_ids E d rs =
     (let au = fold available_remove (map lr_uid rs)
                 (available_remove (env_euid E) (available_remove 0 (available_from_ranges (uid_ranges d))));
          ag = fold available_remove (map lr_gid rs)
                 (available_remove (env_egid E) (available_remove 0 (available_from_ranges (gid_ranges d))));
          exhausted = AeExhausted (capacity (uid_ranges d) rs Uid) (capacity (gid_ranges d) rs Gid)
      in and_then (ok_or exhausted (available_lowest au)) (\<lambda>u.
         and_then (ok_or exhausted (available_lowest ag)) (\<lambda>g. Inr (u, g))))"

definition alloc_claim ::
  "env \<Rightarrow> 128 word \<Rightarrow> sandbox_id \<Rightarrow> key_fingerprint \<Rightarrow> delegation \<Rightarrow> lease_record alloc_io" where
  "alloc_claim E token i owner d =
     io_then (on_store store_lock)
     (io_then lock_selection
     (io_then (on_store (remove_stale_temps E))
     (io_bind (alloc_load E) (\<lambda>rs.
      if list_ex (\<lambda>r. lr_sandbox_id r = i) rs
      then io_err (AeStateConflict (''sandbox '' @ id_as_str i
             @ '' already holds a lease; one durable sandbox has exactly one incarnation lease''))
      else io_bind (io_lift (select_ids E d rs)) (\<lambda>(u, g).
      let r = \<lparr>lr_lease_id = new_lease_id token, lr_sandbox_id = i, lr_owner = owner, lr_uid = u,
               lr_gid = g, lr_state = LeaseActive, lr_quarantine_reason = None\<rparr>
      in io_then (on_store (\<lambda>st. store_write E st r))
         (io_then (insert_pending (lr_lease_id r))
         (io_then (with_lease_ids (\<lambda>m. m(lr_sandbox_id r \<mapsto> lr_lease_id r)))
         (io_ok r))))))))"

definition mutation_guard :: "unit alloc_io" where
  "mutation_guard = io_then (on_store store_lock) lock_selection"

definition read_existing :: "env \<Rightarrow> lease_record \<Rightarrow> lease_record alloc_io" where
  "read_existing E expected =
     io_bind (on_store (\<lambda>st. store_read E st (lr_lease_id expected))) (\<lambda>found.
     io_lift (ok_or (AeMissingLease (lr_lease_id expected)) found))"

fun join_or :: "string list \<Rightarrow> string" where
  "join_or [] = []"
| "join_or [x] = x"
| "join_or (x # y # xs) = x @ '' or '' @ join_or (y # xs)"

definition expected_record :: "env \<Rightarrow> lease_record \<Rightarrow> string list \<Rightarrow> lease_record alloc_io" where
  "expected_record E expected states =
     io_bind (read_existing E expected) (\<lambda>current.
     if \<not> same_incarnation current expected
     then io_err (AeStateConflict (''lease '' @ lr_lease_id expected
            @ '' is not the expected incarnation (sandbox/owner/IDs changed)''))
     else if lease_state_as_str (lr_state current) \<notin> set states
     then io_err (AeStateConflict (''lease '' @ lr_lease_id expected @ '' is ''
            @ lease_state_as_str (lr_state current) @ '', expected '' @ join_or states))
     else io_ok current)"

definition alloc_activate :: "env \<Rightarrow> lease_record \<Rightarrow> lease_record alloc_io" where
  "alloc_activate E expected =
     io_then mutation_guard
     (io_bind (read_existing E expected) (\<lambda>current.
      if \<not> same_incarnation current expected
      then io_err (AeStateConflict (''lease '' @ lr_lease_id expected
             @ '' is not the expected incarnation (sandbox/owner/IDs changed)''))
      else if lr_state expected = LeaseActive \<and> lr_state current = LeaseActive
      then io_bind (remove_pending (lr_lease_id expected)) (\<lambda>acknowledged.
           if acknowledged then io_ok current
           else io_err (AeStateConflict (''lease '' @ lr_lease_id expected @ '' is already active'')))
      else if lr_state expected = LeaseReserved \<and> lr_state current = LeaseReserved
      then let next = lease_with_state current LeaseActive in
           io_then (on_store (\<lambda>st. store_write E st next)) (io_ok next)
      else io_err (AeStateConflict (''lease '' @ lr_lease_id expected @ '' is ''
             @ lease_state_as_str (lr_state current) @ '', expected Reserved or a pending Active claim''))))"

definition alloc_transition ::
  "env \<Rightarrow> lease_record \<Rightarrow> lease_state list \<Rightarrow> lease_state \<Rightarrow> lease_record alloc_io" where
  "alloc_transition E expected from to =
     io_then mutation_guard
     (io_bind (expected_record E expected (map lease_state_as_str from)) (\<lambda>current.
      let next = lease_with_state current to in
      io_then (on_store (\<lambda>st. store_write E st next)) (io_ok next)))"

definition begin_release :: "env \<Rightarrow> lease_record \<Rightarrow> unit alloc_io" where
  "begin_release E expected =
     io_then (alloc_transition E expected [LeaseActive, LeaseReserved] LeaseReleasing) (io_ok ())"

text \<open>The tail that \<open>finish_release\<close> and \<open>free_reserved_absent\<close> share.\<close>

definition remove_expected :: "env \<Rightarrow> lease_record \<Rightarrow> string \<Rightarrow> unit alloc_io" where
  "remove_expected E expected st_name =
     io_then mutation_guard
     (io_then (expected_record E expected [st_name])
     (io_then (on_store (\<lambda>st. store_remove E st (lr_lease_id expected)))
     (io_then (remove_pending (lr_lease_id expected))
     (with_lease_ids (\<lambda>m. m(lr_sandbox_id expected := None))))))"

definition finish_release :: "env \<Rightarrow> lease_record \<Rightarrow> unit alloc_io" where
  "finish_release E expected = remove_expected E expected ''releasing''"

definition free_reserved_absent :: "env \<Rightarrow> lease_record \<Rightarrow> unit alloc_io" where
  "free_reserved_absent E expected = remove_expected E expected ''reserved''"

definition alloc_quarantine :: "env \<Rightarrow> lease_record \<Rightarrow> string \<Rightarrow> unit alloc_io" where
  "alloc_quarantine E expected reason =
     io_then mutation_guard
     (io_bind (read_existing E expected) (\<lambda>current.
      if \<not> same_incarnation current expected
      then io_err (AeStateConflict (''lease '' @ lr_lease_id expected @ '' is not the expected incarnation''))
      else io_then (on_store (\<lambda>st. store_write E st (with_quarantine_reason current reason)))
           (io_then (remove_pending (lr_lease_id expected)) (io_ok ()))))"

definition validate_delegated :: "lease_record \<Rightarrow> delegation \<Rightarrow> (allocator_error, unit) result" where
  "validate_delegated r d =
     (let u = contains_uid d (lr_uid r); g = contains_gid d (lr_gid r) in
      if u \<and> g then Inr () else Inl (AeUndelegated (lr_lease_id r) u g))"

definition open_allocator :: "env \<Rightarrow> string \<Rightarrow> fsys \<Rightarrow> (allocator_error, allocator) result \<times> fsys" where
  "open_allocator E root fs =
     (case lease_store_open E root fs of
        (Inl e, t) \<Rightarrow> (Inl (AeLedger e), t)
      | (Inr st, t) \<Rightarrow> (Inr (allocator_new st t), t))"

end
