(* ===== verification/Subid_Rules.thy ===== *)
theory Subid_Rules
  imports Subid_Allocator
begin

text \<open>
  What the allocator does (\<open>sandbox/subid/mod.rs\<close>): selection against sets of free IDs, the rule
  of each operation over the map of leases, the abstract ledger it refines, and what every run
  keeps of the ledger.
\<close>

section \<open>What the allocator promises\<close>

definition unique_ids :: "ledger \<Rightarrow> bool" where
  "unique_ids L \<longleftrightarrow> (\<forall>l m r q. L l = Some r \<longrightarrow> L m = Some q \<longrightarrow> l \<noteq> m \<longrightarrow>
     lr_uid r \<noteq> lr_uid q \<and> lr_gid r \<noteq> lr_gid q \<and> lr_sandbox_id r \<noteq> lr_sandbox_id q)"

definition free_uids :: "env \<Rightarrow> delegation \<Rightarrow> ledger \<Rightarrow> u32 set" where
  "free_uids E d L = {u. contains_uid d u} - {0, env_euid E} - lr_uid ` ran L"

definition free_gids :: "env \<Rightarrow> delegation \<Rightarrow> ledger \<Rightarrow> u32 set" where
  "free_gids E d L = {g. contains_gid d g} - {0, env_egid E} - lr_gid ` ran L"

definition least_of :: "u32 \<Rightarrow> u32 set \<Rightarrow> bool" where
  "least_of x S \<longleftrightarrow> x \<in> S \<and> (\<forall>y \<in> S. x \<le> y)"

definition valid_delegation :: "delegation \<Rightarrow> bool" where
  "valid_delegation d \<longleftrightarrow> list_all valid_range (uid_ranges d) \<and> list_all valid_range (gid_ranges d)"

text \<open>
  The abstract claim: the ledger is unambiguous, the sandbox holds no lease, and the new record
  is active with the least free UID and the least free GID.
\<close>

definition claim_spec ::
  "env \<Rightarrow> 128 word \<Rightarrow> sandbox_id \<Rightarrow> key_fingerprint \<Rightarrow> delegation \<Rightarrow> ledger \<Rightarrow> lease_record \<Rightarrow> bool" where
  "claim_spec E token i owner d L r \<longleftrightarrow>
     unique_ids L \<and> i \<notin> lr_sandbox_id ` ran L
     \<and> lr_lease_id r = new_lease_id token \<and> lr_sandbox_id r = i \<and> lr_owner r = owner
     \<and> lr_state r = LeaseActive \<and> lr_quarantine_reason r = None
     \<and> least_of (lr_uid r) (free_uids E d L) \<and> least_of (lr_gid r) (free_gids E d L)"

section \<open>Selection\<close>

lemma contains_uid_pool: "{u. contains_uid d u} = (\<Union>r \<in> set (uid_ranges d). range_set r)"
  by (auto simp: contains_uid_def list_ex_iff range_set_def)

lemma contains_gid_pool: "{g. contains_gid d g} = (\<Union>r \<in> set (gid_ranges d). range_set r)"
  by (auto simp: contains_gid_def list_ex_iff range_set_def)

text \<open>Removing a list of IDs from the pool of some valid ranges and taking the lowest one left.\<close>

lemma lowest_free:
  fixes us :: "u32 list"
  assumes "list_all valid_range ranges"
  defines "S \<equiv> (\<Union>r \<in> set ranges. range_set r) - set us"
  shows "available_lowest (fold available_remove us (available_from_ranges ranges)) = None \<longleftrightarrow> S = {}"
    and "available_lowest (fold available_remove us (available_from_ranges ranges)) = Some x \<longleftrightarrow> least_of x S"
  using pool.select_None [of "available_from_ranges ranges" us]
    pool.select_Some [of "available_from_ranges ranges" us x] available_from_ranges [of ranges] assms(1)
  by (auto simp: S_def least_of_def list_all_iff)

lemma listing_ran: "listing L rs \<Longrightarrow> set rs = ran L"
  by (force simp: listing_def ran_def)

lemma select_ids_spec:
  assumes d: "valid_delegation d" and L: "listing L rs"
  shows "select_ids E d rs = Inr (u, g) \<longleftrightarrow> least_of u (free_uids E d L) \<and> least_of g (free_gids E d L)"
    and "select_ids E d rs = Inl e \<longleftrightarrow> (free_uids E d L = {} \<or> free_gids E d L = {})
      \<and> e = AeExhausted (capacity (uid_ranges d) rs Uid) (capacity (gid_ranges d) rs Gid)"
proof -
  have v: "list_all valid_range (uid_ranges d)" "list_all valid_range (gid_ranges d)"
    using d by (simp_all add: valid_delegation_def)
  have U: "(\<Union>r \<in> set (uid_ranges d). range_set r) - set (0 # env_euid E # map lr_uid rs) = free_uids E d L"
    using listing_ran [OF L] by (auto simp: free_uids_def contains_uid_pool)
  have G: "(\<Union>r \<in> set (gid_ranges d). range_set r) - set (0 # env_egid E # map lr_gid rs) = free_gids E d L"
    using listing_ran [OF L] by (auto simp: free_gids_def contains_gid_pool)
  note lu = lowest_free [OF v(1), of "0 # env_euid E # map lr_uid rs", unfolded U]
  note lg = lowest_free [OF v(2), of "0 # env_egid E # map lr_gid rs", unfolded G]
  show "select_ids E d rs = Inr (u, g) \<longleftrightarrow> least_of u (free_uids E d L) \<and> least_of g (free_gids E d L)"
    using lu lg by (simp add: select_ids_def Let_def success_simps)
  show "select_ids E d rs = Inl e \<longleftrightarrow> (free_uids E d L = {} \<or> free_gids E d L = {})
      \<and> e = AeExhausted (capacity (uid_ranges d) rs Uid) (capacity (gid_ranges d) rs Gid)"
    using lu(1) lg(1) by (auto simp: select_ids_def Let_def and_then_def ok_or_def split: option.splits)
qed

section \<open>Uniqueness\<close>

lemma check_unique_ok:
  "check_unique us gs is rs = Inr () \<longleftrightarrow>
     distinct (map lr_uid rs) \<and> set (map lr_uid rs) \<inter> us = {}
     \<and> distinct (map lr_gid rs) \<and> set (map lr_gid rs) \<inter> gs = {}
     \<and> distinct (map lr_sandbox_id rs) \<and> set (map lr_sandbox_id rs) \<inter> is = {}"
  by (induction us gs "is" rs rule: check_unique.induct) auto

lemma validate_uniqueness_ok:
  assumes "listing L rs"
  shows "validate_uniqueness rs = Inr () \<longleftrightarrow> unique_ids L"
proof -
  have L: "L l = Some r \<longleftrightarrow> r \<in> set rs \<and> lr_lease_id r = l" for l r
    using assms by (simp add: listing_def)
  have "distinct rs" and inj: "inj_on lr_lease_id (set rs)"
    using assms by (auto simp: listing_def distinct_map)
  then have "validate_uniqueness rs = Inr () \<longleftrightarrow>
      inj_on lr_uid (set rs) \<and> inj_on lr_gid (set rs) \<and> inj_on lr_sandbox_id (set rs)"
    by (simp add: validate_uniqueness_def check_unique_ok distinct_map)
  also have "\<dots> \<longleftrightarrow> unique_ids L"
    using inj unfolding unique_ids_def L inj_on_def by blast
  finally show ?thesis .
qed

section \<open>Rules of the steps\<close>

abbreviation at_ledger :: "env \<Rightarrow> ledger \<Rightarrow> allocator \<Rightarrow> bool" where
  "at_ledger E L a \<equiv> ledger_at E L (al_fs a)"

lemma on_store_rule:
  assumes "\<And>st. io_valid P (m st) Q R"
  shows "io_valid (\<lambda>a. P (al_fs a)) (on_store m) (\<lambda>x a. Q x (al_fs a))
    (\<lambda>e a. \<exists>le. e = AeLedger le \<and> R le (al_fs a))"
proof (rule io_validI)
  fix s e t assume P: "P (al_fs s)" and m: "on_store m s = (Inl e, t)"
  obtain le where "m (al_store s) (al_fs s) = (Inl le, al_fs t)" "e = AeLedger le"
    using m by (auto simp: on_store_def map_err_def split: prod.splits sum.splits)
  with io_valid_err [OF assms P] show "\<exists>le. e = AeLedger le \<and> R le (al_fs t)" by auto
next
  fix s x t assume P: "P (al_fs s)" and m: "on_store m s = (Inr x, t)"
  have "m (al_store s) (al_fs s) = (Inr x, al_fs t)"
    using m by (auto simp: on_store_def map_err_def split: prod.splits sum.splits)
  with io_valid_ok [OF assms P] show "Q x (al_fs t)" by auto
qed

text \<open>The in-memory steps keep the store as it is.\<close>

lemma memory_rules:
  "io_valid (\<lambda>a. P (al_fs a)) lock_selection (\<lambda>_ a. P (al_fs a)) (\<lambda>_ a. P (al_fs a))"
  "io_valid (\<lambda>a. P (al_fs a)) (with_lease_ids f) (\<lambda>_ a. P (al_fs a)) (\<lambda>_ a. P (al_fs a))"
  "io_valid (\<lambda>a. P (al_fs a)) (get_lease_id i) (\<lambda>_ a. P (al_fs a)) (\<lambda>_ a. P (al_fs a))"
  "io_valid (\<lambda>a. P (al_fs a)) (insert_pending l) (\<lambda>_ a. P (al_fs a)) (\<lambda>_ a. P (al_fs a))"
  "io_valid (\<lambda>a. P (al_fs a)) (remove_pending l) (\<lambda>_ a. P (al_fs a)) (\<lambda>_ a. P (al_fs a))"
  by (rule io_validI; auto simp: lock_selection_def with_lease_ids_def get_lease_id_def
      insert_pending_def remove_pending_def split: if_splits)+

lemma guard_rule:
  "io_valid (at_ledger E L) mutation_guard (\<lambda>_. at_ledger E L) (\<lambda>_. at_ledger E L)"
  unfolding mutation_guard_def
proof (rule io_valid_then)
  show "io_valid (at_ledger E L) (on_store store_lock) (\<lambda>_. at_ledger E L) (\<lambda>_. at_ledger E L)"
    by (rule io_valid_conseq [OF on_store_rule [OF store_lock_rule]]) auto
qed (rule memory_rules)

lemma alloc_load_rule:
  "io_valid (at_ledger E L) (alloc_load E)
    (\<lambda>rs a. at_ledger E L a \<and> listing L rs \<and> unique_ids L) (\<lambda>_. at_ledger E L)"
  unfolding alloc_load_def
proof (rule io_valid_bind)
  show "io_valid (at_ledger E L) (on_store (store_load E)) (\<lambda>rs a. at_ledger E L a \<and> listing L rs)
      (\<lambda>_. at_ledger E L)"
    by (rule io_valid_conseq [OF on_store_rule [OF store.load_law]]) auto
next
  fix rs :: "lease_record list"
  let ?M = "with_lease_ids (\<lambda>_. map_of (rev (map (\<lambda>r. (lr_sandbox_id r, lr_lease_id r)) rs)))"
  have v: "io_valid (\<lambda>a. at_ledger E L a \<and> listing L rs) (io_lift (validate_uniqueness rs))
      (\<lambda>_ a. at_ledger E L a \<and> listing L rs \<and> unique_ids L) (\<lambda>_. at_ledger E L)"
    by (rule io_validI) (auto simp: io_simps validate_uniqueness_ok)
  have m: "io_valid (\<lambda>a. at_ledger E L a \<and> listing L rs \<and> unique_ids L) ?M
      (\<lambda>_ a. at_ledger E L a \<and> listing L rs \<and> unique_ids L) (\<lambda>_. at_ledger E L)"
    by (rule io_validI) (auto simp: with_lease_ids_def split: if_splits)
  show "io_valid (\<lambda>a. at_ledger E L a \<and> listing L rs)
      (io_then (io_lift (validate_uniqueness rs)) (io_then ?M (io_ok rs)))
      (\<lambda>rs a. at_ledger E L a \<and> listing L rs \<and> unique_ids L) (\<lambda>_. at_ledger E L)"
    by (rule io_valid_then [OF v], rule io_valid_then [OF m], rule io_valid_io_ok)
qed

lemma read_existing_rule:
  "io_valid (at_ledger E L) (read_existing E expected)
    (\<lambda>r a. at_ledger E L a \<and> L (lr_lease_id expected) = Some r) (\<lambda>_. at_ledger E L)"
  unfolding read_existing_def
proof (rule io_valid_bind)
  show "io_valid (at_ledger E L) (on_store (\<lambda>st. store_read E st (lr_lease_id expected)))
      (\<lambda>v a. at_ledger E L a \<and> v = L (lr_lease_id expected)) (\<lambda>_. at_ledger E L)"
    by (rule io_valid_conseq [OF on_store_rule [OF store.read_law]]) auto
qed (rule io_validI, auto simp: io_simps ok_or_def split: option.splits)

text \<open>The record found is the expected incarnation, in one of the named states.\<close>

lemma expected_record_rule:
  "io_valid (at_ledger E L) (expected_record E expected states)
    (\<lambda>r a. at_ledger E L a \<and> L (lr_lease_id expected) = Some r \<and> same_incarnation r expected
       \<and> lease_state_as_str (lr_state r) \<in> set states) (\<lambda>_. at_ledger E L)"
  unfolding expected_record_def
  by (rule io_valid_bind [OF read_existing_rule], rule io_validI) (auto simp: io_simps split: if_splits)

lemma write_rule:
  assumes "record_readable E r"
  shows "io_valid (at_ledger E L) (on_store (\<lambda>st. store_write E st r))
    (\<lambda>_. at_ledger E (L(lr_lease_id r \<mapsto> r)))
    (\<lambda>_ a. at_ledger E L a \<or> at_ledger E (L(lr_lease_id r \<mapsto> r)) a)"
  by (rule io_valid_conseq [OF on_store_rule [OF store.write_law [OF assms]]]) auto

section \<open>Claiming\<close>

lemma digit_char_lease: "d < 16 \<Longrightarrow> lease_id_byte (digit_char d)"
  by (auto simp: lease_id_byte_def digit_char_def is_ascii_digit_def)

lemma display_radix_hex: "list_all lease_id_byte (display_radix 16 n)"
proof (induction "16::nat" n rule: display_radix.induct)
  case (1 n)
  then show ?case
    by (cases "n < 16") (simp_all add: display_radix.simps [of 16 n] digit_char_lease)
qed

text \<open>Every token yields a well-formed lease ID.\<close>

lemma new_lease_id_valid: "validate_lease_id (new_lease_id token) = Inr ()"
proof -
  have "unat token < 2 ^ 128" using unsigned_less [of token] by simp
  then have "length (display_radix 16 (unat token)) \<le> 32" by (intro length_display_radix) simp_all
  moreover have "lease_id_byte (CHR ''0'')" by (simp add: lease_id_byte_def is_ascii_digit_def)
  ultimately show ?thesis
    using display_radix_hex [of "unat token"]
    by (auto simp: validate_lease_id_ok new_lease_id_def Let_def list_all_iff)
qed

text \<open>
  What the code relies on in the TOML crate for records without a quarantine reason, whose
  documents hold plain strings and integers only.
\<close>

definition toml_reads_plain :: "env \<Rightarrow> bool" where
  "toml_reads_plain E \<longleftrightarrow>
     (\<forall>r. valid_lease r \<longrightarrow> lr_quarantine_reason r = None \<longrightarrow> toml_reads_lease E r)"

lemma valid_readable:
  "toml_reads_plain E \<Longrightarrow> valid_lease r \<Longrightarrow> lr_quarantine_reason r = None \<Longrightarrow> record_readable E r"
  by (simp add: toml_reads_plain_def plain_lease_readable)

lemma alloc_claim_rule:
  assumes d: "valid_delegation d" and i: "valid_id i" and ow: "valid_fingerprint owner"
    and t: "toml_reads_plain E"
  shows "io_valid (at_ledger E L) (alloc_claim E token i owner d)
    (\<lambda>r a. claim_spec E token i owner d L r \<and> at_ledger E (L(lr_lease_id r \<mapsto> r)) a)
    (\<lambda>_ a. at_ledger E L a \<or> (\<exists>r. claim_spec E token i owner d L r \<and> at_ledger E (L(lr_lease_id r \<mapsto> r)) a))"
    (is "io_valid ?L _ ?Q ?R")
proof -
  have old: "io_valid P m Q (\<lambda>_. ?L) \<Longrightarrow> io_valid P m Q ?R" for P Q and m :: "'x alloc_io"
    by (erule io_valid_conseq) auto
  have s1: "io_valid ?L (on_store store_lock) (\<lambda>_. ?L) ?R"
    by (rule io_valid_conseq [OF on_store_rule [OF store_lock_rule]]) auto
  have s2: "io_valid ?L lock_selection (\<lambda>_. ?L) ?R" by (rule old [OF memory_rules(1)])
  have s3: "io_valid ?L (on_store (remove_stale_temps E)) (\<lambda>_. ?L) ?R"
    by (rule io_valid_conseq [OF on_store_rule [OF remove_stale_temps_rule]]) auto
  have s4: "io_valid ?L (alloc_load E) (\<lambda>rs a. ?L a \<and> listing L rs \<and> unique_ids L) ?R"
    by (rule old [OF alloc_load_rule])
  have pub: "io_valid ?L (io_then (on_store (\<lambda>st. store_write E st r))
         (io_then (insert_pending (lr_lease_id r))
         (io_then (with_lease_ids (\<lambda>m. m(lr_sandbox_id r \<mapsto> lr_lease_id r))) (io_ok r)))) ?Q ?R"
    if c: "claim_spec E token i owner d L r" for r
  proof -
    have "valid_lease r"
      using c i ow by (auto simp: claim_spec_def valid_lease_def new_lease_id_valid least_of_def
          free_uids_def free_gids_def)
    with c have rd: "record_readable E r" by (intro valid_readable [OF t]) (simp_all add: claim_spec_def)
    let ?N = "at_ledger E (L(lr_lease_id r \<mapsto> r))"
    have new: "io_valid ?N m (\<lambda>_. ?N) (\<lambda>_. ?N) \<Longrightarrow> io_valid ?N m (\<lambda>_. ?N) ?R" for m :: "'x alloc_io"
      by (erule io_valid_conseq) (use c in auto)
    show ?thesis
      by (rule io_valid_then [where M = ?N], rule io_valid_conseq [OF write_rule [OF rd, of L]])
        (use c in \<open>auto intro!: io_valid_then [OF new [OF memory_rules(4)]]
          io_valid_then [OF new [OF memory_rules(2)]] io_valid_pre [OF io_valid_io_ok]\<close>)
  qed
  have tail: "io_valid (\<lambda>a. ?L a \<and> listing L rs \<and> unique_ids L)
     (if list_ex (\<lambda>r. lr_sandbox_id r = i) rs
      then io_err (AeStateConflict (''sandbox '' @ id_as_str i
             @ '' already holds a lease; one durable sandbox has exactly one incarnation lease''))
      else io_bind (io_lift (select_ids E d rs)) (\<lambda>(u, g).
      let r = \<lparr>lr_lease_id = new_lease_id token, lr_sandbox_id = i, lr_owner = owner, lr_uid = u,
               lr_gid = g, lr_state = LeaseActive, lr_quarantine_reason = None\<rparr>
      in io_then (on_store (\<lambda>st. store_write E st r))
         (io_then (insert_pending (lr_lease_id r))
         (io_then (with_lease_ids (\<lambda>m. m(lr_sandbox_id r \<mapsto> lr_lease_id r)))
         (io_ok r))))) ?Q ?R" for rs
  proof (rule io_valid_pure, rule io_valid_if)
    show "io_valid ?L (io_err e) ?Q ?R" for e by (rule io_validI) (auto simp: io_simps)
  next
    assume l: "listing L rs \<and> unique_ids L" and no: "\<not> list_ex (\<lambda>r. lr_sandbox_id r = i) rs"
    have sel: "io_valid ?L (io_lift (select_ids E d rs))
        (\<lambda>p a. ?L a \<and> least_of (fst p) (free_uids E d L) \<and> least_of (snd p) (free_gids E d L)) ?R"
      using l by (intro io_validI) (auto simp: io_simps select_ids_spec(1) [OF d])
    have "i \<notin> lr_sandbox_id ` ran L"
      using no listing_ran l by (auto simp: list_ex_iff)
    then show "io_valid ?L (io_bind (io_lift (select_ids E d rs)) (\<lambda>(u, g).
      let r = \<lparr>lr_lease_id = new_lease_id token, lr_sandbox_id = i, lr_owner = owner, lr_uid = u,
               lr_gid = g, lr_state = LeaseActive, lr_quarantine_reason = None\<rparr>
      in io_then (on_store (\<lambda>st. store_write E st r))
         (io_then (insert_pending (lr_lease_id r))
         (io_then (with_lease_ids (\<lambda>m. m(lr_sandbox_id r \<mapsto> lr_lease_id r)))
         (io_ok r))))) ?Q ?R"
      using l unfolding Let_def case_prod_beta
      by (intro io_valid_bind [OF sel] io_valid_pure pub) (simp add: claim_spec_def)
  qed
  show ?thesis
    unfolding alloc_claim_def
    by (intro io_valid_then [OF s1] io_valid_then [OF s2] io_valid_then [OF s3] io_valid_bind [OF s4] tail)
qed

section \<open>The abstract ledger\<close>

text \<open>
  What the allocator does to the map of leases: it adds a claim, promotes a reservation, starts a
  release, quarantines a record, or frees a record that is being released or was only reserved.
\<close>

inductive ledger_step :: "env \<Rightarrow> ledger \<Rightarrow> ledger \<Rightarrow> bool" for E where
  claim: "claim_spec E token i owner d L r \<Longrightarrow> new_lease_id token \<notin> dom L \<Longrightarrow>
    ledger_step E L (L(lr_lease_id r \<mapsto> r))"
| promote: "L l = Some r \<Longrightarrow> lr_state r = LeaseReserved \<Longrightarrow>
    ledger_step E L (L(l \<mapsto> lease_with_state r LeaseActive))"
| release: "L l = Some r \<Longrightarrow> lr_state r = LeaseActive \<or> lr_state r = LeaseReserved \<Longrightarrow>
    ledger_step E L (L(l \<mapsto> lease_with_state r LeaseReleasing))"
| quarantine: "L l = Some r \<Longrightarrow> ledger_step E L (L(l \<mapsto> with_quarantine_reason r reason))"
| free: "L l = Some r \<Longrightarrow> lr_state r = LeaseReleasing \<or> lr_state r = LeaseReserved \<Longrightarrow>
    ledger_step E L (L(l := None))"

inductive_cases ledger_stepE: "ledger_step E L L'"

text \<open>The ledger is as it was, or one step further; the operations' rules hold for any relation of their steps.\<close>

definition moved_by :: "(ledger \<Rightarrow> ledger \<Rightarrow> bool) \<Rightarrow> env \<Rightarrow> ledger \<Rightarrow> allocator \<Rightarrow> bool" where
  "moved_by T E L a \<longleftrightarrow> (\<exists>L'. (L' = L \<or> T L L') \<and> at_ledger E L' a)"

lemma moved_same: "at_ledger E L a \<Longrightarrow> moved_by T E L a"
  by (auto simp: moved_by_def)

lemma moved_step: "T L L' \<Longrightarrow> at_ledger E L' a \<Longrightarrow> moved_by T E L a"
  by (auto simp: moved_by_def)

abbreviation moved :: "env \<Rightarrow> ledger \<Rightarrow> allocator \<Rightarrow> bool" where
  "moved E \<equiv> moved_by (ledger_step E) E"

lemma at_ledger_valid:
  assumes "at_ledger E L a" and "L l = Some r"
  shows "valid_lease r" and "lr_lease_id r = l"
proof -
  from assms obtain bytes where d: "lease_decode E bytes l = Inr r"
    unfolding ledger_at_def represents_def by blast
  from lease_decode_sound [OF d] show "valid_lease r" "lr_lease_id r = l" by (auto simp: valid_lease_def)
qed

lemma valid_with_state: "valid_lease r \<Longrightarrow> st \<noteq> LeaseQuarantined \<Longrightarrow> valid_lease (lease_with_state r st)"
  by (simp add: valid_lease_def lease_with_state_def)

lemma write_moved:
  assumes "record_readable E r" and "T L (L(lr_lease_id r \<mapsto> r))"
  shows "io_valid (at_ledger E L) (on_store (\<lambda>st. store_write E st r)) (\<lambda>_. at_ledger E (L(lr_lease_id r \<mapsto> r)))
    (\<lambda>_. moved_by T E L)"
  by (rule io_valid_conseq [OF write_rule [OF assms(1)]]) (auto intro: moved_same moved_step [where T = T, OF assms(2)])

text \<open>The record in the ledger gives a valid record of the same lease.\<close>

lemma from_lease:
  assumes "L l = Some r \<Longrightarrow> valid_lease r \<Longrightarrow> lr_lease_id r = l \<Longrightarrow> io_valid (at_ledger E L) m Q R"
  shows "io_valid (\<lambda>a. at_ledger E L a \<and> L l = Some r) m Q R"
proof (rule io_validI)
  fix s e t assume s: "at_ledger E L s \<and> L l = Some r" and m: "m s = (Inl e, t)"
  with at_ledger_valid [of E L s l r] assms have "io_valid (at_ledger E L) m Q R" by simp
  from io_valid_err [OF this _ m] s show "R e t" by simp
next
  fix s x t assume s: "at_ledger E L s \<and> L l = Some r" and m: "m s = (Inr x, t)"
  with at_ledger_valid [of E L s l r] assms have "io_valid (at_ledger E L) m Q R" by simp
  from io_valid_ok [OF this _ m] s show "Q x t" by simp
qed

lemma guard_moved: "io_valid (at_ledger E L) mutation_guard (\<lambda>_. at_ledger E L) (\<lambda>_. moved_by T E L)"
  by (rule io_valid_conseq [OF guard_rule]) (auto intro: moved_same)

lemma with_state_id [simp]: "lr_lease_id (lease_with_state r st) = lr_lease_id r"
  "lr_lease_id (with_quarantine_reason r q) = lr_lease_id r"
  by (simp_all add: lease_with_state_def with_quarantine_reason_def)

lemma with_state_state [simp]: "lr_state (lease_with_state r st) = st"
  "lr_state (with_quarantine_reason r q) = LeaseQuarantined"
  by (simp_all add: lease_with_state_def with_quarantine_reason_def)

text \<open>Publishing the next state of the current record.\<close>

lemma publish_next:
  assumes t: "toml_reads_plain E" and st: "st \<noteq> LeaseQuarantined"
    and step: "L l = Some r \<Longrightarrow> T L (L(l \<mapsto> lease_with_state r st))"
  shows "io_valid (\<lambda>a. at_ledger E L a \<and> L l = Some r)
    (io_then (on_store (\<lambda>s. store_write E s (lease_with_state r st))) (io_ok (lease_with_state r st)))
    (\<lambda>v a. L l = Some r \<and> v = lease_with_state r st \<and> at_ledger E (L(l \<mapsto> v)) a) (\<lambda>_. moved_by T E L)"
proof (rule from_lease)
  assume l: "L l = Some r" "valid_lease r" "lr_lease_id r = l"
  have rd: "record_readable E (lease_with_state r st)"
    by (rule valid_readable [OF t valid_with_state [OF l(2) st]]) (simp add: lease_with_state_def st)
  show "io_valid (at_ledger E L)
    (io_then (on_store (\<lambda>s. store_write E s (lease_with_state r st))) (io_ok (lease_with_state r st)))
    (\<lambda>v a. L l = Some r \<and> v = lease_with_state r st \<and> at_ledger E (L(l \<mapsto> v)) a) (\<lambda>_. moved_by T E L)"
    by (rule io_valid_then [OF write_moved [OF rd]])
      (use step l in \<open>auto intro!: io_validI simp: io_simps\<close>)
qed

section \<open>The other operations\<close>

lemma lease_state_as_str_simps [simp]:
  "lease_state_as_str s = ''active'' \<longleftrightarrow> s = LeaseActive"
  "lease_state_as_str s = ''reserved'' \<longleftrightarrow> s = LeaseReserved"
  "lease_state_as_str s = ''releasing'' \<longleftrightarrow> s = LeaseReleasing"
  "lease_state_as_str s = ''quarantined'' \<longleftrightarrow> s = LeaseQuarantined"
  by (cases s; simp)+

lemma expected_moved:
  "io_valid (at_ledger E L) (expected_record E x states)
    (\<lambda>r a. (at_ledger E L a \<and> L (lr_lease_id x) = Some r) \<and> same_incarnation r x
       \<and> lease_state_as_str (lr_state r) \<in> set states) (\<lambda>_. moved_by T E L)"
  by (rule io_valid_conseq [OF expected_record_rule [of E L]]) (auto intro: moved_same)

lemma read_existing_moved:
  "io_valid (at_ledger E L) (read_existing E x)
    (\<lambda>r a. at_ledger E L a \<and> L (lr_lease_id x) = Some r) (\<lambda>_. moved_by T E L)"
  by (rule io_valid_conseq [OF read_existing_rule [of E L]]) (auto intro: moved_same)

text \<open>
  A transition: the expected incarnation was in one of the given states and now is in the next.
\<close>

lemma transition_rule:
  assumes t: "toml_reads_plain E" and to: "to \<noteq> LeaseQuarantined"
    and step: "\<And>r. L (lr_lease_id x) = Some r \<Longrightarrow> same_incarnation r x \<Longrightarrow> lr_state r \<in> set from \<Longrightarrow>
      T L (L(lr_lease_id x \<mapsto> lease_with_state r to))"
  shows "io_valid (at_ledger E L) (alloc_transition E x from to)
    (\<lambda>v a. \<exists>r. L (lr_lease_id x) = Some r \<and> same_incarnation r x \<and> lr_state r \<in> set from
       \<and> v = lease_with_state r to \<and> at_ledger E (L(lr_lease_id x \<mapsto> v)) a)
    (\<lambda>_. moved_by T E L)"
  unfolding alloc_transition_def Let_def
proof (rule io_valid_then [OF guard_moved], rule io_valid_bind [OF expected_moved], rule io_valid_pure)
  fix r assume r: "same_incarnation r x \<and> lease_state_as_str (lr_state r) \<in> set (map lease_state_as_str from)"
  have inj: "lease_state_as_str s = lease_state_as_str u \<longleftrightarrow> s = u" for s u by (cases u) auto
  with r have "lr_state r \<in> set from" by auto
  with r step show "io_valid (\<lambda>a. at_ledger E L a \<and> L (lr_lease_id x) = Some r)
      (io_then (on_store (\<lambda>s. store_write E s (lease_with_state r to))) (io_ok (lease_with_state r to)))
      (\<lambda>v a. \<exists>r. L (lr_lease_id x) = Some r \<and> same_incarnation r x \<and> lr_state r \<in> set from
         \<and> v = lease_with_state r to \<and> at_ledger E (L(lr_lease_id x \<mapsto> v)) a) (\<lambda>_. moved_by T E L)"
    by (intro io_valid_conseq [OF publish_next [OF t to, of L "lr_lease_id x" r]]) auto
qed

lemma begin_release_by:
  assumes t: "toml_reads_plain E"
    and step: "\<And>r. L (lr_lease_id x) = Some r \<Longrightarrow> same_incarnation r x \<Longrightarrow>
      lr_state r = LeaseActive \<or> lr_state r = LeaseReserved \<Longrightarrow> T L (L(lr_lease_id x \<mapsto> lease_with_state r LeaseReleasing))"
  shows "io_valid (at_ledger E L) (begin_release E x)
    (\<lambda>_ a. \<exists>r. L (lr_lease_id x) = Some r \<and> same_incarnation r x
       \<and> (lr_state r = LeaseActive \<or> lr_state r = LeaseReserved)
       \<and> at_ledger E (L(lr_lease_id x \<mapsto> lease_with_state r LeaseReleasing)) a)
    (\<lambda>_. moved_by T E L)"
    (is "io_valid _ _ (\<lambda>_. ?N) _")
  unfolding begin_release_def
proof (rule io_valid_then)
  show "io_valid (at_ledger E L) (alloc_transition E x [LeaseActive, LeaseReserved] LeaseReleasing)
      (\<lambda>_. ?N) (\<lambda>_. moved_by T E L)"
    by (rule io_valid_conseq [OF transition_rule [OF t, of LeaseReleasing L x _ T]]) (auto intro: step)
qed (rule io_valid_io_ok)

lemma begin_release_rule:
  assumes t: "toml_reads_plain E"
  shows "io_valid (at_ledger E L) (begin_release E x)
    (\<lambda>_ a. \<exists>r. L (lr_lease_id x) = Some r \<and> same_incarnation r x
       \<and> (lr_state r = LeaseActive \<or> lr_state r = LeaseReserved)
       \<and> at_ledger E (L(lr_lease_id x \<mapsto> lease_with_state r LeaseReleasing)) a)
    (\<lambda>_. moved E L)"
  by (rule begin_release_by [OF t]) (rule ledger_step.release)

text \<open>Activation: a reservation is promoted; a published claim is acknowledged without a write.\<close>

lemma activate_by:
  assumes t: "toml_reads_plain E"
    and step: "\<And>r. L (lr_lease_id x) = Some r \<Longrightarrow> same_incarnation r x \<Longrightarrow> lr_state r = LeaseReserved \<Longrightarrow>
      T L (L(lr_lease_id x \<mapsto> lease_with_state r LeaseActive))"
  shows "io_valid (at_ledger E L) (alloc_activate E x)
    (\<lambda>v a. \<exists>r. L (lr_lease_id x) = Some r \<and> same_incarnation r x \<and> lr_state v = LeaseActive
       \<and> (lr_state r = LeaseActive \<and> v = r \<and> at_ledger E L a
          \<or> lr_state r = LeaseReserved \<and> v = lease_with_state r LeaseActive
             \<and> at_ledger E (L(lr_lease_id x \<mapsto> v)) a))
    (\<lambda>_. moved_by T E L)" (is "io_valid _ _ ?Q ?R")
  unfolding alloc_activate_def Let_def
proof (rule io_valid_then [OF guard_moved], rule io_valid_bind [OF read_existing_moved], intro io_valid_if)
  fix r :: lease_record
  let ?P = "\<lambda>a. at_ledger E L a \<and> L (lr_lease_id x) = Some r"
  show "io_valid ?P (io_err e) ?Q ?R" for e by (rule io_validI) (auto simp: io_simps intro: moved_same)
  show "io_valid ?P (io_err e) ?Q ?R" for e by (rule io_validI) (auto simp: io_simps intro: moved_same)
  assume same: "\<not> \<not> same_incarnation r x"
  { assume "lr_state x = LeaseActive \<and> lr_state r = LeaseActive"
    with same show "io_valid ?P (io_bind (remove_pending (lr_lease_id x)) (\<lambda>acknowledged.
           if acknowledged then io_ok r
           else io_err (AeStateConflict (''lease '' @ lr_lease_id x @ '' is already active'')))) ?Q ?R"
      by (intro io_validI) (auto simp: io_simps remove_pending_def intro: moved_same split: if_splits) }
  assume "lr_state x = LeaseReserved \<and> lr_state r = LeaseReserved"
  with same show "io_valid ?P (io_then (on_store (\<lambda>st. store_write E st (lease_with_state r LeaseActive)))
      (io_ok (lease_with_state r LeaseActive))) ?Q ?R"
    by (intro io_valid_conseq [OF publish_next [OF t, of LeaseActive L "lr_lease_id x" r T]]) (auto intro: step)
qed

lemma activate_rule:
  assumes t: "toml_reads_plain E"
  shows "io_valid (at_ledger E L) (alloc_activate E x)
    (\<lambda>v a. \<exists>r. L (lr_lease_id x) = Some r \<and> same_incarnation r x \<and> lr_state v = LeaseActive
       \<and> (lr_state r = LeaseActive \<and> v = r \<and> at_ledger E L a
          \<or> lr_state r = LeaseReserved \<and> v = lease_with_state r LeaseActive
             \<and> at_ledger E (L(lr_lease_id x \<mapsto> v)) a))
    (\<lambda>_. moved E L)"
  by (rule activate_by [OF t]) (rule ledger_step.promote)

text \<open>Freeing: the expected incarnation was in the named state and its record is gone.\<close>

lemma remove_expected_by:
  assumes free: "\<And>r. L (lr_lease_id x) = Some r \<Longrightarrow> same_incarnation r x \<Longrightarrow> lease_state_as_str (lr_state r) = n \<Longrightarrow>
      T L (L(lr_lease_id x := None))"
  shows "io_valid (at_ledger E L) (remove_expected E x n)
    (\<lambda>_ a. \<exists>r. L (lr_lease_id x) = Some r \<and> same_incarnation r x \<and> lease_state_as_str (lr_state r) = n
       \<and> at_ledger E (L(lr_lease_id x := None)) a)
    (\<lambda>_. moved_by T E L)" (is "io_valid _ _ ?Q ?R")
proof -
  let ?N = "at_ledger E (L(lr_lease_id x := None))"
  let ?C = "\<lambda>r. L (lr_lease_id x) = Some r \<and> same_incarnation r x \<and> lease_state_as_str (lr_state r) = n"
  have step: "T L (L(lr_lease_id x := None))" if "?C r" for r
    using that by (intro free) auto
  have rm: "io_valid (at_ledger E L) (on_store (\<lambda>st. store_remove E st (lr_lease_id x))) (\<lambda>_. ?N) ?R"
    if "?C r" for r
    by (rule io_valid_conseq [OF on_store_rule [OF store.remove_law]])
      (use step [OF that] in \<open>auto simp: fun_upd_def intro: moved_same moved_step\<close>)
  have mem: "io_valid ?N (io_then (remove_pending (lr_lease_id x))
      (with_lease_ids (\<lambda>m. m(lr_sandbox_id x := None)))) (\<lambda>_. ?N) ?R" if c: "?C r" for r
  proof (rule io_valid_then)
    show "io_valid ?N (remove_pending (lr_lease_id x)) (\<lambda>_. ?N) ?R"
      by (rule io_valid_conseq [OF memory_rules(5)], assumption+, rule moved_step [where T = T, OF step [OF c]])
    show "io_valid ?N (with_lease_ids (\<lambda>m. m(lr_sandbox_id x := None))) (\<lambda>_. ?N) ?R"
      by (rule io_valid_conseq [OF memory_rules(2)], assumption+, rule moved_step [where T = T, OF step [OF c]])
  qed
  have ex: "io_valid (at_ledger E L) (expected_record E x [n])
      (\<lambda>_ a. \<exists>r. ?C r \<and> at_ledger E L a) ?R"
    by (rule io_valid_conseq [OF expected_moved]) auto
  have tail: "io_valid (\<lambda>a. \<exists>r. ?C r \<and> at_ledger E L a)
      (io_then (on_store (\<lambda>st. store_remove E st (lr_lease_id x))) (io_then (remove_pending (lr_lease_id x))
      (with_lease_ids (\<lambda>m. m(lr_sandbox_id x := None))))) ?Q ?R"
    by (rule io_valid_ex, rule io_valid_conseq [OF io_valid_then [OF rm mem]]) auto
  show ?thesis
    unfolding remove_expected_def
    by (rule io_valid_then [OF guard_moved], rule io_valid_then [OF ex tail])
qed

lemma remove_expected_rule:
  assumes n: "n = ''releasing'' \<or> n = ''reserved''"
  shows "io_valid (at_ledger E L) (remove_expected E x n)
    (\<lambda>_ a. \<exists>r. L (lr_lease_id x) = Some r \<and> same_incarnation r x \<and> lease_state_as_str (lr_state r) = n
       \<and> at_ledger E (L(lr_lease_id x := None)) a)
    (\<lambda>_. moved E L)"
  by (rule remove_expected_by) (use n in \<open>auto intro!: ledger_step.free\<close>)

text \<open>Freeing a record that is absent or another incarnation fails before it touches the store.\<close>

lemma remove_expected_stale:
  assumes "\<forall>r. L (lr_lease_id x) = Some r \<longrightarrow> \<not> same_incarnation r x"
  shows "io_valid (at_ledger E L) (remove_expected E x n) (\<lambda>_ _. False) (\<lambda>_. at_ledger E L)"
  unfolding remove_expected_def
proof (rule io_valid_then [OF guard_rule], rule io_valid_then)
  show "io_valid (at_ledger E L) (expected_record E x [n]) (\<lambda>_ _. False) (\<lambda>_. at_ledger E L)"
    by (rule io_valid_conseq [OF expected_record_rule [of E L]]) (use assms in auto)
qed (simp add: io_valid_def)

text \<open>A quarantine reason whose record can be read back.\<close>

definition reason_readable :: "env \<Rightarrow> string \<Rightarrow> bool" where
  "reason_readable E reason \<longleftrightarrow> (\<forall>r. valid_lease r \<longrightarrow> record_readable E (with_quarantine_reason r reason))"

lemma quarantine_by:
  assumes q: "reason_readable E reason"
    and step: "\<And>r. L (lr_lease_id x) = Some r \<Longrightarrow> same_incarnation r x \<Longrightarrow>
      T L (L(lr_lease_id x \<mapsto> with_quarantine_reason r reason))"
  shows "io_valid (at_ledger E L) (alloc_quarantine E x reason)
    (\<lambda>_ a. \<exists>r. L (lr_lease_id x) = Some r \<and> same_incarnation r x
       \<and> at_ledger E (L(lr_lease_id x \<mapsto> with_quarantine_reason r reason)) a)
    (\<lambda>_. moved_by T E L)" (is "io_valid _ _ ?Q ?R")
  unfolding alloc_quarantine_def
proof (rule io_valid_then [OF guard_moved], rule io_valid_bind [OF read_existing_moved], intro io_valid_if)
  fix r :: lease_record
  let ?P = "\<lambda>a. at_ledger E L a \<and> L (lr_lease_id x) = Some r"
  show "io_valid ?P (io_err e) ?Q ?R" for e by (rule io_validI) (auto simp: io_simps intro: moved_same)
  assume same: "\<not> \<not> same_incarnation r x"
  show "io_valid ?P (io_then (on_store (\<lambda>st. store_write E st (with_quarantine_reason r reason)))
      (io_then (remove_pending (lr_lease_id x)) (io_ok ()))) ?Q ?R"
  proof (rule from_lease)
    assume l: "L (lr_lease_id x) = Some r" "valid_lease r" "lr_lease_id r = lr_lease_id x"
    let ?N = "at_ledger E (L(lr_lease_id x \<mapsto> with_quarantine_reason r reason))"
    have step: "T L (L(lr_lease_id x \<mapsto> with_quarantine_reason r reason))"
      using l(1) same by (intro step) simp_all
    have w: "io_valid (at_ledger E L) (on_store (\<lambda>st. store_write E st (with_quarantine_reason r reason)))
        (\<lambda>_. ?N) ?R"
      using write_moved [where T = T and E = E and L = L and r = "with_quarantine_reason r reason"] q l step by (simp add: reason_readable_def)
    have m: "io_valid ?N (remove_pending (lr_lease_id x)) (\<lambda>_. ?N) ?R"
      by (rule io_valid_conseq [OF memory_rules(5)], assumption+, rule moved_step [where T = T, OF step])
    have o: "io_valid ?N (io_ok ()) ?Q ?R" by (rule io_validI) (use same l in \<open>auto simp: io_simps\<close>)
    show "io_valid (at_ledger E L) (io_then (on_store (\<lambda>st. store_write E st (with_quarantine_reason r reason)))
        (io_then (remove_pending (lr_lease_id x)) (io_ok ()))) ?Q ?R"
      by (rule io_valid_then [OF w], rule io_valid_then [OF m o])
  qed
qed

lemma quarantine_rule:
  assumes q: "reason_readable E reason"
  shows "io_valid (at_ledger E L) (alloc_quarantine E x reason)
    (\<lambda>_ a. \<exists>r. L (lr_lease_id x) = Some r \<and> same_incarnation r x
       \<and> at_ledger E (L(lr_lease_id x \<mapsto> with_quarantine_reason r reason)) a)
    (\<lambda>_. moved E L)"
  by (rule quarantine_by [OF q]) (rule ledger_step.quarantine)

section \<open>Runs of the allocator\<close>

text \<open>
  One operation on the allocator, with any arguments, any outcome of its system calls and any
  result. A claim draws a token that names no lease yet.
\<close>

inductive alloc_step :: "env \<Rightarrow> allocator \<Rightarrow> allocator \<Rightarrow> bool" for E where
  claim: "alloc_claim E token i owner d a = (res, b) \<Longrightarrow> valid_delegation d \<Longrightarrow> valid_id i \<Longrightarrow>
    valid_fingerprint owner \<Longrightarrow> (\<And>L. at_ledger E L a \<Longrightarrow> new_lease_id token \<notin> dom L) \<Longrightarrow> alloc_step E a b"
| activate: "alloc_activate E x a = (res, b) \<Longrightarrow> alloc_step E a b"
| begin_release: "begin_release E x a = (res', b) \<Longrightarrow> alloc_step E a b"
| finish_release: "finish_release E x a = (res', b) \<Longrightarrow> alloc_step E a b"
| free_reserved: "free_reserved_absent E x a = (res', b) \<Longrightarrow> alloc_step E a b"
| quarantine: "alloc_quarantine E x reason a = (res', b) \<Longrightarrow> reason_readable E reason \<Longrightarrow> alloc_step E a b"
| load: "alloc_load E a = (res'', b) \<Longrightarrow> alloc_step E a b"

lemma moved_result:
  assumes "io_valid (at_ledger E L) m Q (\<lambda>_. moved E L)" and "\<And>x a. Q x a \<Longrightarrow> moved E L a"
    and "at_ledger E L a" and "m a = (res, b)"
  shows "moved E L b"
  using assms by (cases res) (auto dest: io_valid_ok io_valid_err)

lemma claim_moved:
  assumes "valid_delegation d" "valid_id i" "valid_fingerprint owner" "toml_reads_plain E"
    and fresh: "new_lease_id token \<notin> dom L"
  shows "io_valid (at_ledger E L) (alloc_claim E token i owner d) (\<lambda>_. moved E L) (\<lambda>_. moved E L)"
  by (rule io_valid_conseq [OF alloc_claim_rule [OF assms(1-4), where token = token and L = L]])
    (auto intro: moved_same moved_step [where T = "ledger_step E", OF ledger_step.claim [OF _ fresh]])

text \<open>Every operation is a step of the abstract ledger or leaves it alone, errors included.\<close>

lemma alloc_step_moved:
  assumes t: "toml_reads_plain E" and "alloc_step E a b" and L: "at_ledger E L a"
  shows "moved E L b"
  using assms(2)
proof cases
  case (claim token i owner d res)
  from claim_moved [OF claim(2,3,4) t claim(5) [OF L]] claim(1) L
  show ?thesis by (auto intro: moved_result)
next
  case (activate x res)
  show ?thesis
    by (rule moved_result [OF activate_rule [OF t] _ L activate])
      (auto intro: moved_same moved_step ledger_step.promote)
next
  case (begin_release x res)
  show ?thesis
    by (rule moved_result [OF begin_release_rule [OF t] _ L begin_release])
      (auto intro: moved_step ledger_step.release)
next
  case (finish_release x res)
  show ?thesis
    by (rule moved_result [OF remove_expected_rule [of "''releasing''"] _ L finish_release [unfolded finish_release_def]])
      (auto intro: moved_step ledger_step.free)
next
  case (free_reserved x res)
  show ?thesis
    by (rule moved_result [OF remove_expected_rule [of "''reserved''"] _ L free_reserved [unfolded free_reserved_absent_def]])
      (auto intro: moved_step ledger_step.free)
next
  case (quarantine x reason res)
  show ?thesis
    by (rule moved_result [OF quarantine_rule [OF quarantine(2)] _ L quarantine(1)])
      (auto intro: moved_step ledger_step.quarantine)
next
  case (load res)
  have "io_valid (at_ledger E L) (alloc_load E) (\<lambda>_. at_ledger E L) (\<lambda>_. moved E L)"
    by (rule io_valid_conseq [OF alloc_load_rule [of E L]]) (auto intro: moved_same)
  from moved_result [OF this moved_same L load] show ?thesis .
qed

section \<open>What every step keeps\<close>

definition same_lease :: "lease_record \<Rightarrow> lease_record \<Rightarrow> bool" where
  "same_lease r q \<longleftrightarrow> lr_lease_id r = lr_lease_id q \<and> lr_sandbox_id r = lr_sandbox_id q \<and> lr_owner r = lr_owner q
     \<and> lr_uid r = lr_uid q \<and> lr_gid r = lr_gid q"

lemma same_lease_next [simp]:
  "same_lease (lease_with_state r st) r" "same_lease (with_quarantine_reason r q) r" "same_lease r r"
  by (simp_all add: same_lease_def lease_with_state_def with_quarantine_reason_def)

lemma unique_update:
  assumes "unique_ids L" and "L l = Some r" and "same_lease q r"
  shows "unique_ids (L(l \<mapsto> q))"
  using assms unfolding unique_ids_def same_lease_def by simp

lemma unique_remove: "unique_ids L \<Longrightarrow> unique_ids (L(l := None))"
  by (auto simp: unique_ids_def)

lemma unique_claim:
  assumes "claim_spec E token i owner d L r"
  shows "unique_ids (L(lr_lease_id r \<mapsto> r))"
proof -
  have U: "unique_ids L"
    and new: "L m = Some q \<Longrightarrow> lr_uid r \<noteq> lr_uid q \<and> lr_gid r \<noteq> lr_gid q \<and> lr_sandbox_id r \<noteq> lr_sandbox_id q" for m q
    using assms by (auto simp: claim_spec_def least_of_def free_uids_def free_gids_def image_iff ran_def)
  show ?thesis
    unfolding unique_ids_def
  proof (intro allI impI)
    fix l m p q assume "(L(lr_lease_id r \<mapsto> r)) l = Some p" "(L(lr_lease_id r \<mapsto> r)) m = Some q" "l \<noteq> m"
    with U new show "lr_uid p \<noteq> lr_uid q \<and> lr_gid p \<noteq> lr_gid q \<and> lr_sandbox_id p \<noteq> lr_sandbox_id q"
      by (cases "l = lr_lease_id r"; cases "m = lr_lease_id r") (auto simp: unique_ids_def, metis+)
  qed
qed

lemma ledger_step_unique: "ledger_step E L L' \<Longrightarrow> unique_ids L \<Longrightarrow> unique_ids L'"
  by (induction rule: ledger_step.induct) (auto intro: unique_claim unique_update unique_remove)

text \<open>A record only disappears when it was being released or was only reserved.\<close>

lemma ledger_step_keeps:
  assumes "ledger_step E L L'" and "L l = Some r"
  shows "(\<exists>q. L' l = Some q \<and> same_lease q r \<and> (lr_state r = LeaseQuarantined \<longrightarrow> lr_state q = LeaseQuarantined))
    \<or> L' l = None \<and> (lr_state r = LeaseReleasing \<or> lr_state r = LeaseReserved)"
  using assms
  by (induction rule: ledger_step.induct) (auto simp: claim_spec_def)

end
