(* ===== verification/Reconcile.thy ===== *)
theory Reconcile
  imports Subid_Rules
begin

text \<open>
  Startup reconciliation of the lease ledger with the durable sandboxes (\<open>reconcile\<close> and
  \<open>reconcile_loaded\<close> in \<open>sandbox/subid/mod.rs\<close>). The caller's lookup is a function argument; the
  proof of a finished runtime sweep is a flag, as the type carries no other information.
\<close>

section \<open>Model\<close>

datatype sandbox_view = ViewActive key_fingerprint | ViewDeleting key_fingerprint | ViewCorrupt string

type_synonym view_lookup = "sandbox_id \<Rightarrow> (string, sandbox_view option) result"

record reconciliation =
  rc_promoted :: "lease_record list"
  rc_freed :: "lease_record list"
  rc_quarantined :: "(lease_record \<times> string) list"
  rc_resuming_deletion :: "lease_record list"

definition reconciliation_default :: reconciliation where
  "reconciliation_default = \<lparr>rc_promoted = [], rc_freed = [], rc_quarantined = [], rc_resuming_deletion = []\<rparr>"

definition push_quarantined :: "env \<Rightarrow> lease_record \<Rightarrow> string \<Rightarrow> reconciliation \<Rightarrow> reconciliation alloc_io" where
  "push_quarantined E r reason rep =
     io_then (alloc_quarantine E r reason)
     (io_ok (rep\<lparr>rc_quarantined := rc_quarantined rep @ [(r, reason)]\<rparr>))"

definition reconcile_reserved ::
  "env \<Rightarrow> lease_record \<Rightarrow> sandbox_view option \<Rightarrow> reconciliation \<Rightarrow> reconciliation alloc_io" where
  "reconcile_reserved E r sandbox rep =
     (let mismatch = push_quarantined E r ''reserved lease owner does not match the durable sandbox owner'' rep;
          promote = io_bind (alloc_activate E r) (\<lambda>p. io_ok (rep\<lparr>rc_promoted := rc_promoted rep @ [p]\<rparr>))
      in case sandbox of
           None \<Rightarrow> io_then (free_reserved_absent E r) (io_ok (rep\<lparr>rc_freed := rc_freed rep @ [r]\<rparr>))
         | Some (ViewActive owner) \<Rightarrow> if owner = lr_owner r then promote else mismatch
         | Some (ViewDeleting owner) \<Rightarrow> if owner = lr_owner r then promote else mismatch
         | Some (ViewCorrupt reason) \<Rightarrow> push_quarantined E r reason rep)"

definition active_reason :: "lease_record \<Rightarrow> sandbox_view option \<Rightarrow> string option" where
  "active_reason r sandbox =
     (let mismatch = Some ''active lease owner does not match the durable sandbox owner''
      in case sandbox of
           Some (ViewActive owner) \<Rightarrow> if owner = lr_owner r then None else mismatch
         | Some (ViewDeleting owner) \<Rightarrow> if owner = lr_owner r then None else mismatch
         | Some (ViewCorrupt reason) \<Rightarrow> Some (''active lease has a corrupt durable sandbox: '' @ reason)
         | None \<Rightarrow> Some ''active lease with no durable sandbox'')"

definition reconcile_active ::
  "env \<Rightarrow> lease_record \<Rightarrow> sandbox_view option \<Rightarrow> reconciliation \<Rightarrow> reconciliation alloc_io" where
  "reconcile_active E r sandbox rep =
     (case active_reason r sandbox of
        Some reason \<Rightarrow> push_quarantined E r reason rep
      | None \<Rightarrow> io_ok rep)"

definition reconcile_releasing ::
  "env \<Rightarrow> bool \<Rightarrow> lease_record \<Rightarrow> sandbox_view option \<Rightarrow> reconciliation \<Rightarrow> reconciliation alloc_io" where
  "reconcile_releasing E runtime_proof r sandbox rep =
     (let mismatch = push_quarantined E r ''releasing lease owner does not match the durable sandbox owner'' rep;
          resume = io_ok (rep\<lparr>rc_resuming_deletion := rc_resuming_deletion rep @ [r]\<rparr>)
      in case sandbox of
           Some (ViewCorrupt reason) \<Rightarrow>
             push_quarantined E r (''releasing lease has a corrupt durable sandbox: '' @ reason) rep
         | Some (ViewActive owner) \<Rightarrow> if owner = lr_owner r then resume else mismatch
         | Some (ViewDeleting owner) \<Rightarrow> if owner = lr_owner r then resume else mismatch
         | None \<Rightarrow>
             if runtime_proof
             then io_then (finish_release E r) (io_ok (rep\<lparr>rc_freed := rc_freed rep @ [r]\<rparr>))
             else io_ok rep)"

definition reconcile_record ::
  "env \<Rightarrow> view_lookup \<Rightarrow> bool \<Rightarrow> lease_record \<Rightarrow> reconciliation \<Rightarrow> reconciliation alloc_io" where
  "reconcile_record E view runtime_proof r rep =
     io_bind (io_lift (map_err AeLookup (view (lr_sandbox_id r)))) (\<lambda>sandbox.
     case lr_state r of
       LeaseReserved \<Rightarrow> reconcile_reserved E r sandbox rep
     | LeaseActive \<Rightarrow> reconcile_active E r sandbox rep
     | LeaseReleasing \<Rightarrow> reconcile_releasing E runtime_proof r sandbox rep
     | LeaseQuarantined \<Rightarrow> io_ok rep)"

fun reconcile_records ::
  "env \<Rightarrow> view_lookup \<Rightarrow> bool \<Rightarrow> lease_record list \<Rightarrow> reconciliation \<Rightarrow> reconciliation alloc_io" where
  "reconcile_records E view runtime_proof [] rep = io_ok rep"
| "reconcile_records E view runtime_proof (r # rs) rep =
     io_bind (reconcile_record E view runtime_proof r rep) (reconcile_records E view runtime_proof rs)"

definition reconcile_loaded ::
  "env \<Rightarrow> (sandbox_id, lease_record) btree_map \<Rightarrow> view_lookup \<Rightarrow> bool \<Rightarrow> reconciliation alloc_io" where
  "reconcile_loaded E records view runtime_proof =
     reconcile_records E view runtime_proof (map snd records) reconciliation_default"

definition reconcile :: "env \<Rightarrow> view_lookup \<Rightarrow> bool \<Rightarrow> reconciliation alloc_io" where
  "reconcile E view runtime_proof =
     io_bind (alloc_load_indexed E) (\<lambda>records. reconcile_loaded E records view runtime_proof)"

section \<open>What reconciliation decides for one lease\<close>

datatype decision = Keep | Promote | Free | Quarantine string

definition decide :: "bool \<Rightarrow> sandbox_view option \<Rightarrow> lease_record \<Rightarrow> decision" where
  "decide runtime_proof sandbox r =
     (case sandbox of
        None \<Rightarrow>
          (case lr_state r of
             LeaseReserved \<Rightarrow> Free
           | LeaseActive \<Rightarrow> Quarantine ''active lease with no durable sandbox''
           | LeaseReleasing \<Rightarrow> if runtime_proof then Free else Keep
           | LeaseQuarantined \<Rightarrow> Keep)
      | Some (ViewCorrupt reason) \<Rightarrow>
          (case lr_state r of
             LeaseReserved \<Rightarrow> Quarantine reason
           | LeaseActive \<Rightarrow> Quarantine (''active lease has a corrupt durable sandbox: '' @ reason)
           | LeaseReleasing \<Rightarrow> Quarantine (''releasing lease has a corrupt durable sandbox: '' @ reason)
           | LeaseQuarantined \<Rightarrow> Keep)
      | Some v \<Rightarrow>
          if v = ViewActive (lr_owner r) \<or> v = ViewDeleting (lr_owner r)
          then (if lr_state r = LeaseReserved then Promote else Keep)
          else if lr_state r = LeaseQuarantined then Keep
          else Quarantine (lease_state_as_str (lr_state r)
                 @ '' lease owner does not match the durable sandbox owner''))"

definition reconciled :: "decision \<Rightarrow> lease_record \<Rightarrow> lease_record option" where
  "reconciled d r =
     (case d of
        Keep \<Rightarrow> Some r
      | Promote \<Rightarrow> Some (lease_with_state r LeaseActive)
      | Free \<Rightarrow> None
      | Quarantine reason \<Rightarrow> Some (with_quarantine_reason r reason))"

text \<open>The whole ledger afterwards, lease by lease.\<close>

definition reconcile_ledger :: "view_lookup \<Rightarrow> bool \<Rightarrow> ledger \<Rightarrow> ledger" where
  "reconcile_ledger view runtime_proof L l =
     (case L l of
        None \<Rightarrow> None
      | Some r \<Rightarrow>
          (case view (lr_sandbox_id r) of
             Inl e \<Rightarrow> Some r
           | Inr sandbox \<Rightarrow> reconciled (decide runtime_proof sandbox r) r))"

section \<open>One lease\<close>

definition went :: "env \<Rightarrow> ledger \<Rightarrow> allocator \<Rightarrow> bool" where
  "went E L a \<longleftrightarrow> (\<exists>L'. (ledger_step E)\<^sup>*\<^sup>* L L' \<and> at_ledger E L' a)"

lemma moved_went: "moved E L a \<Longrightarrow> went E L a"
  by (auto simp: moved_by_def went_def)

lemma at_went: "at_ledger E L a \<Longrightarrow> went E L a"
  by (auto simp: went_def)

lemma push_quarantined_rule:
  assumes q: "reason_readable E reason" and r: "L (lr_lease_id r) = Some r"
  shows "io_valid (at_ledger E L) (push_quarantined E r reason rep)
    (\<lambda>_. at_ledger E (L(lr_lease_id r \<mapsto> with_quarantine_reason r reason))) (\<lambda>_. went E L)"
  unfolding push_quarantined_def
proof (rule io_valid_then)
  show "io_valid (at_ledger E L) (alloc_quarantine E r reason)
      (\<lambda>_. at_ledger E (L(lr_lease_id r \<mapsto> with_quarantine_reason r reason))) (\<lambda>_. went E L)"
    by (rule io_valid_conseq [OF quarantine_rule [OF q]]) (use r in \<open>auto intro: moved_went\<close>)
qed (rule io_valid_io_ok)

lemma promote_rule:
  assumes t: "toml_reads_plain E" and r: "L (lr_lease_id r) = Some r" and st: "lr_state r = LeaseReserved"
  shows "io_valid (at_ledger E L) (io_bind (alloc_activate E r) (\<lambda>p. io_ok (f p)))
    (\<lambda>_. at_ledger E (L(lr_lease_id r \<mapsto> lease_with_state r LeaseActive))) (\<lambda>_. went E L)"
proof (rule io_valid_bind)
  show "io_valid (at_ledger E L) (alloc_activate E r)
      (\<lambda>_. at_ledger E (L(lr_lease_id r \<mapsto> lease_with_state r LeaseActive))) (\<lambda>_. went E L)"
    by (rule io_valid_conseq [OF activate_rule [OF t]]) (use r st in \<open>auto intro: moved_went\<close>)
qed (rule io_valid_io_ok)

lemma free_rule:
  assumes n: "n = ''releasing'' \<or> n = ''reserved''"
  shows "io_valid (at_ledger E L) (io_then (remove_expected E r n) (io_ok x))
    (\<lambda>_. at_ledger E (L(lr_lease_id r := None))) (\<lambda>_. went E L)"
proof (rule io_valid_then)
  show "io_valid (at_ledger E L) (remove_expected E r n) (\<lambda>_. at_ledger E (L(lr_lease_id r := None))) (\<lambda>_. went E L)"
    by (rule io_valid_conseq [OF remove_expected_rule [OF n]]) (auto intro: moved_went)
qed (rule io_valid_io_ok)

lemma keep_rule:
  assumes "L (lr_lease_id r) = Some r"
  shows "io_valid (at_ledger E L) (io_ok x) (\<lambda>_. at_ledger E (L(lr_lease_id r := Some r))) Z"
proof -
  have "L(lr_lease_id r := Some r) = L" using assms by auto
  then show ?thesis by (auto intro!: io_validI simp: io_ok_def)
qed

text \<open>The reasons a lease can be quarantined for can be written and read back.\<close>

definition reasons_readable :: "env \<Rightarrow> view_lookup \<Rightarrow> bool \<Rightarrow> ledger \<Rightarrow> bool" where
  "reasons_readable E view runtime_proof L \<longleftrightarrow>
     (\<forall>r \<in> ran L. \<forall>sandbox reason. view (lr_sandbox_id r) = Inr sandbox \<longrightarrow>
        decide runtime_proof sandbox r = Quarantine reason \<longrightarrow> reason_readable E reason)"

lemma reconcile_record_rule:
  assumes t: "toml_reads_plain E" and r: "L (lr_lease_id r) = Some r"
    and q: "\<And>sandbox reason. view (lr_sandbox_id r) = Inr sandbox \<Longrightarrow>
      decide pf sandbox r = Quarantine reason \<Longrightarrow> reason_readable E reason"
  shows "io_valid (at_ledger E L) (reconcile_record E view pf r rep)
    (\<lambda>_ a. \<exists>sandbox. view (lr_sandbox_id r) = Inr sandbox
       \<and> at_ledger E (L(lr_lease_id r := reconciled (decide pf sandbox r) r)) a)
    (\<lambda>_. went E L)"
proof (cases "view (lr_sandbox_id r)")
  case (Inl e)
  then show ?thesis
    by (auto intro!: io_validI simp: reconcile_record_def io_simps intro: at_went)
next
  case (Inr sandbox)
  have quar: "decide pf sandbox r = Quarantine reason \<Longrightarrow> io_valid (at_ledger E L) (push_quarantined E r reason rep)
    (\<lambda>_. at_ledger E (L(lr_lease_id r := reconciled (decide pf sandbox r) r))) (\<lambda>_. went E L)" for reason
    using push_quarantined_rule [where L = L and r = r and reason = reason and rep = rep] q [OF Inr, of reason] r
    by (simp add: reconciled_def)
  note fre = free_rule [of "''releasing''"] free_rule [of "''reserved''"]
  have "io_valid (at_ledger E L)
      (case lr_state r of
         LeaseReserved \<Rightarrow> reconcile_reserved E r sandbox rep
       | LeaseActive \<Rightarrow> reconcile_active E r sandbox rep
       | LeaseReleasing \<Rightarrow> reconcile_releasing E pf r sandbox rep
       | LeaseQuarantined \<Rightarrow> io_ok rep)
      (\<lambda>_. at_ledger E (L(lr_lease_id r := reconciled (decide pf sandbox r) r))) (\<lambda>_. went E L)"
    using quar
    by (cases "lr_state r"; cases "sandbox = None"; cases "the sandbox")
      (auto simp: reconcile_reserved_def reconcile_active_def active_reason_def reconcile_releasing_def
        decide_def reconciled_def finish_release_def free_reserved_absent_def Let_def
        intro: promote_rule [where L = L and r = r, OF t r] fre keep_rule [where L = L and r = r, OF r])
  then have "io_valid (at_ledger E L) (reconcile_record E view pf r rep)
      (\<lambda>_. at_ledger E (L(lr_lease_id r := reconciled (decide pf sandbox r) r))) (\<lambda>_. went E L)"
    by (simp add: reconcile_record_def Inr io_valid_def io_simps)
  then show ?thesis by (rule io_valid_conseq) (auto simp: Inr)
qed

section \<open>All leases\<close>

lemma reconciled_steps:
  assumes "L l = Some r"
  shows "(ledger_step E)\<^sup>*\<^sup>* L (L(l := reconciled (decide pf sandbox r) r))"
proof (cases "decide pf sandbox r")
  case Keep
  with assms have "L(l := reconciled (decide pf sandbox r) r) = L" by (auto simp: reconciled_def)
  then show ?thesis by simp
next
  case Promote
  then have "lr_state r = LeaseReserved"
    by (auto simp: decide_def split: option.splits sandbox_view.splits lease_state.splits if_splits)
  with Promote assms show ?thesis by (auto simp: reconciled_def intro: ledger_step.promote)
next
  case Free
  then have "lr_state r = LeaseReleasing \<or> lr_state r = LeaseReserved"
    by (auto simp: decide_def split: option.splits sandbox_view.splits lease_state.splits if_splits)
  with Free assms show ?thesis by (auto simp: reconciled_def intro: ledger_step.free)
next
  case (Quarantine reason)
  with assms show ?thesis by (auto simp: reconciled_def intro: ledger_step.quarantine)
qed

lemma went_trans: "(ledger_step E)\<^sup>*\<^sup>* L L' \<Longrightarrow> went E L' a \<Longrightarrow> went E L a"
  unfolding went_def by (blast intro: rtranclp_trans)

lemma reconcile_records_rule:
  assumes t: "toml_reads_plain E"
  shows "distinct (map lr_lease_id rs) \<Longrightarrow> (\<forall>r \<in> set rs. L (lr_lease_id r) = Some r) \<Longrightarrow>
    (\<forall>r \<in> set rs. \<forall>sandbox reason. view (lr_sandbox_id r) = Inr sandbox \<longrightarrow>
        decide pf sandbox r = Quarantine reason \<longrightarrow> reason_readable E reason) \<Longrightarrow>
    io_valid (at_ledger E L) (reconcile_records E view pf rs rep)
      (\<lambda>_ a. (\<forall>r \<in> set rs. is_ok (view (lr_sandbox_id r)))
         \<and> at_ledger E (\<lambda>l. if l \<in> lr_lease_id ` set rs then reconcile_ledger view pf L l else L l) a)
      (\<lambda>_. went E L)"
proof (induction rs arbitrary: L rep)
  case Nil
  show ?case by (rule io_validI) (auto simp: io_simps)
next
  case (Cons r rs)
  have r: "L (lr_lease_id r) = Some r" using Cons.prems(2) by simp
  note first = reconcile_record_rule [where L = L and r = r and view = view and pf = pf and rep = rep, OF t r]
  show ?case
    unfolding reconcile_records.simps
  proof (rule io_valid_bind [OF first])
    fix rep'
    show "io_valid (\<lambda>a. \<exists>sandbox. view (lr_sandbox_id r) = Inr sandbox
        \<and> at_ledger E (L(lr_lease_id r := reconciled (decide pf sandbox r) r)) a)
      (reconcile_records E view pf rs rep')
      (\<lambda>_ a. (\<forall>r \<in> set (r # rs). is_ok (view (lr_sandbox_id r)))
         \<and> at_ledger E (\<lambda>l. if l \<in> lr_lease_id ` set (r # rs) then reconcile_ledger view pf L l else L l) a)
      (\<lambda>_. went E L)"
    proof (rule io_valid_ex)
      fix sandbox assume v: "view (lr_sandbox_id r) = Inr sandbox"
      let ?L = "L(lr_lease_id r := reconciled (decide pf sandbox r) r)"
      have IH: "io_valid (at_ledger E ?L) (reconcile_records E view pf rs rep')
          (\<lambda>_ a. (\<forall>r \<in> set rs. is_ok (view (lr_sandbox_id r)))
             \<and> at_ledger E (\<lambda>l. if l \<in> lr_lease_id ` set rs then reconcile_ledger view pf ?L l else ?L l) a)
          (\<lambda>_. went E ?L)"
      proof (rule Cons.IH)
        show "distinct (map lr_lease_id rs)" using Cons.prems(1) by simp
        show "\<forall>r' \<in> set rs. ?L (lr_lease_id r') = Some r'"
        proof
          fix r' assume m: "r' \<in> set rs"
          then have "lr_lease_id r' \<noteq> lr_lease_id r" using Cons.prems(1) by (metis distinct.simps(2) image_eqI list.simps(9) set_map)
          with m Cons.prems(2) show "?L (lr_lease_id r') = Some r'" by simp
        qed
      qed (use Cons.prems(3) in simp)
      have "(\<lambda>l. if l \<in> lr_lease_id ` set rs then reconcile_ledger view pf ?L l else ?L l) =
          (\<lambda>l. if l \<in> lr_lease_id ` set (r # rs) then reconcile_ledger view pf L l else L l)"
      proof
        fix l
        have "lr_lease_id r \<notin> lr_lease_id ` set rs" using Cons.prems(1) by simp
        with r v show "(if l \<in> lr_lease_id ` set rs then reconcile_ledger view pf ?L l else ?L l) =
            (if l \<in> lr_lease_id ` set (r # rs) then reconcile_ledger view pf L l else L l)"
          by (cases "l = lr_lease_id r") (simp_all add: reconcile_ledger_def)
      qed
      note eq = this
      show "io_valid (at_ledger E ?L) (reconcile_records E view pf rs rep')
          (\<lambda>_ a. (\<forall>r \<in> set (r # rs). is_ok (view (lr_sandbox_id r)))
             \<and> at_ledger E (\<lambda>l. if l \<in> lr_lease_id ` set (r # rs) then reconcile_ledger view pf L l else L l) a)
          (\<lambda>_. went E L)"
        using IH unfolding eq
        by (rule io_valid_conseq) (simp_all add: v went_trans [OF reconciled_steps [where L = L and l = "lr_lease_id r", OF r]])
    qed
  qed (use Cons.prems(3) in \<open>meson list.set_intros(1)\<close>)
qed

definition indexed :: "lease_record list \<Rightarrow> (sandbox_id, lease_record) btree_map" where
  "indexed rs = bt_collect (map (\<lambda>r. (lr_sandbox_id r, r)) rs)"

lemma listing_mem: "listing L rs \<Longrightarrow> L l = Some r \<longleftrightarrow> r \<in> set rs \<and> lr_lease_id r = l"
  by (simp add: listing_def)

text \<open>The index of an unambiguous ledger holds every lease once.\<close>

lemma indexed_values:
  assumes L: "listing L rs" "unique_ids L"
  shows "set (map snd (indexed rs)) = set rs" and "distinct (map lr_lease_id (map snd (indexed rs)))"
    and "set rs = ran L"
proof -
  note mem = listing_mem [OF L(1)]
  have dl: "distinct (map lr_lease_id rs)" using L(1) unfolding listing_def by (elim conjE)
  then have d: "distinct rs" by (rule distinct_map [THEN iffD1, THEN conjunct1])
  have "inj_on lr_sandbox_id (set rs)"
  proof (rule inj_onI)
    fix p r assume pr: "p \<in> set rs" "r \<in> set rs" "lr_sandbox_id p = lr_sandbox_id r"
    have ids: "L (lr_lease_id p) = Some p" "L (lr_lease_id r) = Some r" by (simp_all only: mem pr)
    have eq: "lr_lease_id p = lr_lease_id r"
    proof (rule ccontr)
      assume "lr_lease_id p \<noteq> lr_lease_id r"
      from L(2) [unfolded unique_ids_def, rule_format, OF ids this] pr(3) show False by blast
    qed
    have "Some p = Some r" by (rule trans [OF sym [OF ids(1)] trans [OF arg_cong [where f = L, OF eq] ids(2)]])
    then show "p = r" by (rule option.inject [THEN iffD1])
  qed
  with d have ds: "distinct (map fst (map (\<lambda>r. (lr_sandbox_id r, r)) rs))"
    by (simp add: comp_def distinct_map)
  note c = bt_collect_set [OF ds, folded indexed_def]
  show s: "set (map snd (indexed rs)) = set rs" by (simp add: c(2) image_image)
  have "distinct (indexed rs)" by (rule distinct_map [THEN iffD1, THEN conjunct1, OF bt_sorted_distinct [OF c(1)]])
  then have "length (indexed rs) = card (set (indexed rs))" by (rule distinct_card [symmetric])
  also have "\<dots> = length (map (\<lambda>r. (lr_sandbox_id r, r)) rs)"
    unfolding c(2) by (rule distinct_card [OF distinct_map [THEN iffD1, THEN conjunct1, OF ds]])
  also have "\<dots> = length (map lr_lease_id rs)" by (simp only: length_map)
  also have "\<dots> = card (set (map lr_lease_id rs))" by (rule distinct_card [OF dl, symmetric])
  finally have "card (lr_lease_id ` set (map snd (indexed rs))) = length (map lr_lease_id (map snd (indexed rs)))"
    unfolding s set_map [of lr_lease_id rs] length_map by (rule sym)
  then show "distinct (map lr_lease_id (map snd (indexed rs)))"
    by (intro card_distinct) (simp only: set_map [of lr_lease_id "map snd (indexed rs)"])
  show "set rs = ran L" unfolding ran_def mem by blast
qed

lemma reconcile_rule:
  assumes t: "toml_reads_plain E" and q: "reasons_readable E view pf L"
  shows "io_valid (at_ledger E L) (reconcile E view pf)
    (\<lambda>_ a. (\<forall>r \<in> ran L. is_ok (view (lr_sandbox_id r))) \<and> at_ledger E (reconcile_ledger view pf L) a)
    (\<lambda>_. went E L)" (is "io_valid _ _ ?Q ?Z")
proof -
  have load: "io_valid (at_ledger E L) (alloc_load_indexed E)
      (\<lambda>m a. at_ledger E L a \<and> (\<exists>rs. listing L rs \<and> unique_ids L \<and> m = indexed rs)) ?Z"
    unfolding alloc_load_indexed_def indexed_def [symmetric]
  proof (rule io_valid_bind)
    show "io_valid (at_ledger E L) (alloc_load E) (\<lambda>rs a. at_ledger E L a \<and> listing L rs \<and> unique_ids L) ?Z"
      by (rule io_valid_conseq [OF alloc_load_rule [of E L]]) (simp_all add: at_went)
    show "io_valid (\<lambda>a. at_ledger E L a \<and> listing L rs \<and> unique_ids L) (io_ok (indexed rs))
        (\<lambda>m a. at_ledger E L a \<and> (\<exists>rs. listing L rs \<and> unique_ids L \<and> m = indexed rs)) ?Z" for rs
      unfolding io_valid_def io_ok_def by auto
  qed
  have body: "io_valid (at_ledger E L) (reconcile_loaded E (indexed rs) view pf) ?Q ?Z"
    if L: "listing L rs" "unique_ids L" for rs
  proof -
    note iv = indexed_values [OF L] and mem = listing_mem [OF L(1)]
    let ?rs = "map snd (indexed rs)"
    have eq: "(\<lambda>l. if l \<in> lr_lease_id ` set ?rs then reconcile_ledger view pf L l else L l) = reconcile_ledger view pf L"
    proof
      fix l show "(if l \<in> lr_lease_id ` set ?rs then reconcile_ledger view pf L l else L l) = reconcile_ledger view pf L l"
      proof (cases "L l")
        case None
        then show ?thesis by (simp only: reconcile_ledger_def option.case if_cancel)
      next
        case (Some r)
        then have "r \<in> set rs" "l = lr_lease_id r" by (simp_all only: mem)
        then have "l \<in> lr_lease_id ` set ?rs" unfolding iv(1) by (rule rev_image_eqI)
        then show ?thesis by (simp only: if_True)
      qed
    qed
    have "io_valid (at_ledger E L) (reconcile_records E view pf ?rs reconciliation_default)
        (\<lambda>_ a. (\<forall>r \<in> set ?rs. is_ok (view (lr_sandbox_id r)))
         \<and> at_ledger E (\<lambda>l. if l \<in> lr_lease_id ` set ?rs then reconcile_ledger view pf L l else L l) a)
        ?Z"
    proof (rule reconcile_records_rule [OF t iv(2)])
      show "\<forall>r \<in> set ?rs. L (lr_lease_id r) = Some r" unfolding iv(1) by (simp only: mem simp_thms ball_triv) simp
      show "\<forall>r \<in> set ?rs. \<forall>sandbox reason. view (lr_sandbox_id r) = Inr sandbox \<longrightarrow>
          decide pf sandbox r = Quarantine reason \<longrightarrow> reason_readable E reason"
        unfolding iv(1,3) using q unfolding reasons_readable_def by blast
    qed
    from this [unfolded eq, unfolded iv(1,3)] show ?thesis unfolding reconcile_loaded_def .
  qed
  show ?thesis
    unfolding reconcile_def
    by (rule io_valid_bind [OF load], rule io_valid_pure, elim exE conjE, hypsubst, rule body)
qed

end
