(* ===== verification/Paths.thy ===== *)
theory Paths
  imports Posix_Rules
begin

text \<open>
  The managed directories (\<open>paths.rs\<close>): the fixed locations below the three XDG roots, their safe
  creation, and the validation every directory has to pass. The roots come from the \<open>xdg\<close> crate
  and are arguments. A path names the node its components lead to from the root of the tree; the
  process umask is an argument of the calls that create a directory.
\<close>

unbundle bit_operations_syntax

section \<open>Model\<close>

definition PREFIX :: string where
  "PREFIX = ''shbox''"

record paths =
  config_dir :: string
  config_file :: string
  allowed_keys_file :: string
  data_dir :: string
  sandboxes_root :: string
  registry_lock :: string
  subid_leases_root :: string
  state_dir :: string
  host_key :: string
  state_lock :: string
  runtime_dir :: string

record paths_error =
  pe_message :: string
  pe_path :: "string option"
  pe_source :: "io_error option"

definition xdg_unavailable :: "string \<Rightarrow> paths_error" where
  "xdg_unavailable variable =
     \<lparr>pe_message = variable @ '' is not set; cannot resolve the shbox '' @ PREFIX @ '' directories'',
      pe_path = None, pe_source = None\<rparr>"

definition create_error :: "string \<Rightarrow> io_error \<Rightarrow> paths_error" where
  "create_error path source =
     \<lparr>pe_message = ''failed to create shbox directory'', pe_path = Some path, pe_source = Some source\<rparr>"

definition stat_error :: "string \<Rightarrow> io_error \<Rightarrow> paths_error" where
  "stat_error path source =
     \<lparr>pe_message = ''failed to inspect shbox path'', pe_path = Some path, pe_source = Some source\<rparr>"

definition unsafe_path :: "string \<Rightarrow> string \<Rightarrow> paths_error" where
  "unsafe_path path reason =
     \<lparr>pe_message = ''unsafe shbox path: '' @ reason, pe_path = Some path, pe_source = None\<rparr>"

definition display_paths_error :: "env \<Rightarrow> paths_error \<Rightarrow> string" where
  "display_paths_error E e =
     pe_message e
     @ (case pe_path e of None \<Rightarrow> [] | Some path \<Rightarrow> '': '' @ from_utf8_lossy path)
     @ (case pe_source e of None \<Rightarrow> [] | Some source \<Rightarrow> '': '' @ display_io_error E source)"

definition from_roots :: "string \<Rightarrow> string \<Rightarrow> string \<Rightarrow> paths" where
  "from_roots config data st =
     \<lparr>config_dir = config, config_file = path_join config ''config.toml'',
      allowed_keys_file = path_join config ''allowed_keys'', data_dir = data,
      sandboxes_root = path_join data ''sandboxes'', registry_lock = path_join data ''registry.lock'',
      subid_leases_root = path_join data ''subid-leases'', state_dir = st,
      host_key = path_join st ''host_key'', state_lock = path_join st ''lock'',
      runtime_dir = path_join st ''runtime''\<rparr>"

text \<open>The getters of the \<open>xdg\<close> crate answer with the prefixed home, or nothing.\<close>

definition resolve :: "string option \<Rightarrow> string option \<Rightarrow> string option \<Rightarrow> (paths_error, paths) result" where
  "resolve config_home data_home state_home =
     and_then (ok_or (xdg_unavailable ''XDG_CONFIG_HOME (~/.config)'') config_home) (\<lambda>config.
     and_then (ok_or (xdg_unavailable ''XDG_DATA_HOME (~/.local/share)'') data_home) (\<lambda>data.
     and_then (ok_or (xdg_unavailable ''XDG_STATE_HOME (~/.local/state)'') state_home) (\<lambda>st.
     Inr (from_roots config data st))))"

definition home_dir :: "string option \<Rightarrow> (paths_error, string) result" where
  "home_dir home =
     ok_or (xdg_unavailable ''HOME'')
       (case home of Some h \<Rightarrow> if h = [] then None else Some h | None \<Rightarrow> None)"

text \<open>The components of an absolute path: empty ones and single dots are dropped.\<close>

fun split_slash :: "string \<Rightarrow> string list" where
  "split_slash [] = [[]]"
| "split_slash (c # cs) =
     (if c = CHR ''/'' then [] # split_slash cs
      else case split_slash cs of [] \<Rightarrow> [[c]] | p # ps \<Rightarrow> (c # p) # ps)"

definition components :: "string \<Rightarrow> fd" where
  "components path = filter (\<lambda>c. c \<noteq> [] \<and> c \<noteq> ''.'') (split_slash path)"

text \<open>\<open>ancestors\<close> of an absolute path, from the path itself up to the root.\<close>

fun ancestors :: "fd \<Rightarrow> fd list" where
  "ancestors p = (if p = [] then [[]] else p # ancestors (butlast p))"

declare ancestors.simps [simp del]

definition contains :: "string \<Rightarrow> string \<Rightarrow> bool" where
  "contains root path \<longleftrightarrow> list_ex (\<lambda>dir. dir = components root) (ancestors (components path))"

text \<open>
  \<open>symlink_metadata\<close>: a component before the last that is not a directory is \<open>ENOTDIR\<close>. Links
  before the last component are not followed by the model: the managed roots have none.
\<close>

definition blocked_above :: "fsys \<Rightarrow> fd \<Rightarrow> bool" where
  "blocked_above s p =
     list_ex (\<lambda>k. case node_in s (take k p) of None \<Rightarrow> False | Some (Directory a cs) \<Rightarrow> False | Some n \<Rightarrow> True)
       [0..<length p]"

definition symlink_metadata :: "fd \<Rightarrow> stat sys" where
  "symlink_metadata p = syscall (\<lambda>s.
     (if blocked_above s p then (Inl (OsError ENOTDIR), s)
      else case node_in s p of None \<Rightarrow> (Inl (OsError ENOENT), s) | Some n \<Rightarrow> (Inr (stat_of n), s)))"

definition validate_node :: "env \<Rightarrow> string \<Rightarrow> stat \<Rightarrow> (paths_error, unit) result" where
  "validate_node E path st =
     (if \<not> is_directory (st_mode st) then Inl (unsafe_path path ''not a directory'')
      else if st_uid st \<noteq> env_euid E then Inl (unsafe_path path ''not owned by the daemon user'')
      else if st_mode st AND 0x12 \<noteq> 0 then Inl (unsafe_path path ''group or world writable'')
      else Inr ())"

definition validate_dir :: "env \<Rightarrow> string \<Rightarrow> fd \<Rightarrow> (fsys, paths_error, unit) io" where
  "validate_dir E path p =
     io_bind (io_map_err (stat_error path) (symlink_metadata p)) (\<lambda>st. io_lift (validate_node E path st))"

definition create_dir :: "env \<Rightarrow> u32 \<Rightarrow> fd \<Rightarrow> unit sys" where
  "create_dir E umask p =
     (if p = [] then io_err (OsError EEXIST)
      else mkdir_at E (butlast p) (last p) (0x1FF AND NOT umask))"

definition set_perm :: "u32 \<Rightarrow> string \<Rightarrow> dirents \<Rightarrow> dirents" where
  "set_perm mode name cs =
     (case map_of cs name of
        Some (Directory a ds) \<Rightarrow> dir_put name (Directory (a\<lparr>fa_perm := mode\<rparr>) ds) cs
      | Some (RegFile a bytes) \<Rightarrow> dir_put name (RegFile (a\<lparr>fa_perm := mode\<rparr>) bytes) cs
      | _ \<Rightarrow> cs)"

definition set_permissions :: "fd \<Rightarrow> u32 \<Rightarrow> unit sys" where
  "set_permissions p mode = syscall (\<lambda>s.
     (case node_in s p of
        None \<Rightarrow> (Inl (OsError ENOENT), s)
      | Some n \<Rightarrow> (Inr (), modify_dir (butlast p) (set_perm mode (last p)) s)))"

text \<open>The loop that walks up from the path to the first directory that exists.\<close>

fun find_missing :: "fd \<Rightarrow> nat \<Rightarrow> fd list sys" where
  "find_missing p n =
     io_match (symlink_metadata (take n p))
       (\<lambda>e. if errno_is e ENOENT
             then if n = 0 then io_err (OtherError ''no existing parent'')
                  else io_bind (find_missing p (n - 1)) (\<lambda>above. io_ok (above @ [take n p]))
             else io_err e)
       (\<lambda>_. io_ok [])"

declare find_missing.simps [simp del]

definition ensure_dir :: "env \<Rightarrow> u32 \<Rightarrow> string \<Rightarrow> fd \<Rightarrow> (fsys, paths_error, unit) io" where
  "ensure_dir E umask path p =
     io_bind (io_map_err (create_error path) (find_missing p (length p))) (\<lambda>missing.
     io_then (io_for missing (\<lambda>dir.
        io_then (io_map_err (create_error path) (create_dir E umask dir))
                (io_map_err (create_error path) (set_permissions dir 0x1C0))))
     (validate_dir E path p))"

definition ensure :: "env \<Rightarrow> u32 \<Rightarrow> paths \<Rightarrow> (fsys, paths_error, unit) io" where
  "ensure E umask ps =
     io_then (io_match (symlink_metadata (components (config_dir ps)))
        (\<lambda>e. if errno_is e ENOENT then io_ok () else io_err (stat_error (config_dir ps) e))
        (\<lambda>_. validate_dir E (config_dir ps) (components (config_dir ps))))
     (io_then (ensure_dir E umask (data_dir ps) (components (data_dir ps)))
     (io_then (ensure_dir E umask (sandboxes_root ps) (components (sandboxes_root ps)))
     (io_then (ensure_dir E umask (subid_leases_root ps) (components (subid_leases_root ps)))
     (io_then (ensure_dir E umask (state_dir ps) (components (state_dir ps)))
     (ensure_dir E umask (runtime_dir ps) (components (runtime_dir ps)))))))"

section \<open>What holds\<close>

text \<open>A directory that may be used: real, owned by the daemon, closed to writers of the group and the world.\<close>

definition safe_dir :: "env \<Rightarrow> node option \<Rightarrow> bool" where
  "safe_dir E x \<longleftrightarrow> (\<exists>a cs. x = Some (Directory a cs) \<and> fa_uid a = env_euid E \<and> \<not> group_world_writable (fa_perm a))"

lemma writable_stat_of: "st_mode (stat_of (Directory a cs)) AND 0x12 = 0 \<longleftrightarrow> \<not> group_world_writable (fa_perm a)"
proof -
  have "st_mode (stat_of (Directory a cs)) AND 0x12 = mode_bits (st_mode (stat_of (Directory a cs))) AND 0x12"
    by (simp add: mode_bits_def and.assoc)
  then show ?thesis by (simp add: group_world_writable_def)
qed

lemma validate_node_ok: "validate_node E path (stat_of n) = Inr () \<longleftrightarrow> safe_dir E (Some n)"
  by (auto simp: validate_node_def safe_dir_def writable_stat_of)

lemma validate_dir_rule:
  "io_valid (tree r) (validate_dir E path p) (\<lambda>_ s. tree r s \<and> safe_dir E (lookup r p)) (\<lambda>_. tree r)"
  unfolding validate_dir_def
proof (rule io_valid_bind)
  show "io_valid (tree r) (io_map_err (stat_error path) (symlink_metadata p))
      (\<lambda>st s. tree r s \<and> (\<exists>n. lookup r p = Some n \<and> st = stat_of n)) (\<lambda>_. tree r)"
    unfolding symlink_metadata_def
    by (rule io_valid_map_err, rule syscall_rule)
      (auto simp: io_valid_def node_in_def split: option.splits if_splits prod.splits)
  show "io_valid (\<lambda>s. tree r s \<and> (\<exists>n. lookup r p = Some n \<and> st = stat_of n)) (io_lift (validate_node E path st))
      (\<lambda>_ s. tree r s \<and> safe_dir E (lookup r p)) (\<lambda>_. tree r)" for st
    using validate_node_ok [of E path]
    by (auto simp: io_valid_def io_lift_def split: sum.splits)
qed

lemma ensure_dir_safe:
  "io_valid (\<lambda>_. True) (ensure_dir E umask path p) (\<lambda>_ s. safe_dir E (lookup (fs_root s) p)) (\<lambda>_ _. True)"
proof -
  have v: "io_valid (\<lambda>_. True) (validate_dir E path p) (\<lambda>_ s. safe_dir E (lookup (fs_root s) p)) (\<lambda>_ _. True)"
  proof (rule io_validI)
    fix s x t assume "validate_dir E path p s = (Inr x, t)"
    from io_valid_ok [OF validate_dir_rule refl this] show "safe_dir E (lookup (fs_root t) p)" by auto
  qed simp
  show ?thesis
    unfolding ensure_dir_def
    by (rule io_valid_bind [where M = "\<lambda>_ _. True"] io_valid_then [where M = "\<lambda>_. True"] v
        | simp add: io_valid_def split: prod.splits sum.splits)+
qed

lemma ancestors_prefix: "q \<in> set (ancestors p) \<longleftrightarrow> (\<exists>rest. p = q @ rest)"
proof (induction p rule: rev_induct)
  case Nil
  show ?case by (simp add: ancestors.simps [of "[]"])
next
  case (snoc x p)
  have "(\<exists>rest. p @ [x] = q @ rest) \<longleftrightarrow> q = p @ [x] \<or> (\<exists>rest. p = q @ rest)"
  proof
    assume "\<exists>rest. p @ [x] = q @ rest"
    then obtain rest where "p @ [x] = q @ rest" ..
    then show "q = p @ [x] \<or> (\<exists>rest. p = q @ rest)" by (cases rest rule: rev_cases) auto
  qed auto
  with snoc.IH show ?case by (simp add: ancestors.simps [of "p @ [x]"])
qed

text \<open>\<open>contains\<close> is the prefix relation on components, not on text.\<close>

lemma contains_prefix: "contains root path \<longleftrightarrow> (\<exists>rest. components path = components root @ rest)"
proof -
  have "contains root path \<longleftrightarrow> components root \<in> set (ancestors (components path))"
    by (auto simp: contains_def list_ex_iff)
  also have "\<dots> \<longleftrightarrow> (\<exists>rest. components path = components root @ rest)"
    by (rule ancestors_prefix)
  finally show ?thesis .
qed

end
