(* ===== verification/Manager.thy ===== *)
theory Manager
  imports Manager_Ledger Lifecycle_Locks Reconcile Paths
begin

text \<open>
  The lifecycle manager (\<open>sandbox/manager.rs\<close>): claiming, listing, deleting and launching, startup
  and shutdown, over the sandbox registry on disk, the subordinate-ID allocator and the manager's
  memory. The process launcher is a trait object: its answers are the fields of an argument, and
  the signals the manager sends are recorded. Answers of the delegation query and the random token
  of a new lease are arguments too. Where the code blocks (in the launcher, or waiting for a
  process), an argument says what the other threads do to the memory meanwhile.
\<close>

section \<open>Data\<close>

record launch_error =
  lx_message :: string
  lx_source :: "io_error option"

datatype manager_error =
    MeStorage storage_error
  | MeSubid allocator_error
  | MeDelegation delegation_error
  | MeCleanup storage_error
  | MeRuntimeCleanup
  | MeLaunch launch_error
  | MeLimit capacity_limit
  | MeUnavailable

definition display_manager_error :: "env \<Rightarrow> manager_error \<Rightarrow> string" where
  "display_manager_error E e =
     (case e of
        MeStorage x \<Rightarrow> ''sandbox storage failed: '' @ display_storage_error E x
      | MeSubid x \<Rightarrow> ''sandbox subordinate identity unavailable: '' @ display_allocator_error E x
      | MeDelegation x \<Rightarrow> ''sandbox subordinate identity unavailable: '' @ display_delegation_error E x
      | MeCleanup x \<Rightarrow> ''sandbox cleanup failed: '' @ display_storage_error E x
      | MeRuntimeCleanup \<Rightarrow> ''sandbox process cleanup did not finish before deletion deadline''
      | MeLaunch x \<Rightarrow> ''sandbox process launch failed: '' @ lx_message x
      | MeLimit limit \<Rightarrow> ''sandbox capacity limit reached: '' @ display_capacity_limit limit
      | MeUnavailable \<Rightarrow> ''sandbox is unavailable'')"

datatype delete_result = Noop | Deleted

definition ISOLATED_RUNTIME_UID_GID :: u32 where
  "ISOLATED_RUNTIME_UID_GID = 1000"

record isolated_identity =
  runtime_uid :: u32
  runtime_gid :: u32
  host_uid :: u32
  host_gid :: u32

record sandbox_handle =
  sh_id :: sandbox_id
  sh_owner :: key_fingerprint
  sh_workspace :: string
  sh_identity :: "isolated_identity option"
  sh_created :: bool

datatype launch_operation = OpShell | OpExec string

record pty_spec =
  pty_term :: string
  pty_rows :: u32
  pty_cols :: u32
  pty_modes :: "(nat \<times> u32) list"
  pty_window_revision :: u64

record launch_request =
  lq_sandbox_id :: sandbox_id
  lq_workspace :: string
  lq_identity :: "isolated_identity option"
  lq_operation :: launch_operation
  lq_pty :: "pty_spec option"
  lq_environment :: "(string \<times> string) list"

record managed_process =
  mp_process :: process
  mp_lease :: runtime_lease

text \<open>The answers of the launcher to the calls of one operation.\<close>

record launcher =
  ln_launch :: "launch_request \<Rightarrow> (launch_error, process) result"
  ln_release_resources :: "sandbox_id \<Rightarrow> (launch_error, unit) result"
  ln_reconcile_startup :: "(launch_error, unit) result"

datatype signal = Terminate process | ForceTerminate process | ShutdownResources | ForceShutdownResources

datatype sandbox_identity = IdentityHost | IdentityIsolated

record manager =
  mg_storage :: storage
  mg_caps :: caps
  mg_fs :: fsys
  mg_subids :: "allocator option"
  mg_ledger :: mem_ledger
  mg_locks :: lock_table
  mg_ready :: bool
  mg_frozen :: bool
  mg_signals :: "signal list"

type_synonym 'a mgr_io = "(manager, manager_error, 'a) io"

section \<open>Access to the parts\<close>

definition on_storage :: "(storage_error \<Rightarrow> 'e) \<Rightarrow> (storage \<Rightarrow> 'a storage_io) \<Rightarrow> (manager, 'e, 'a) io" where
  "on_storage g m w =
     (case m (mg_storage w) (mg_fs w) of (r, fs) \<Rightarrow> (map_err g r, w\<lparr>mg_fs := fs\<rparr>))"

text \<open>A manager for host identities has no allocator and answers with the default.\<close>

definition on_allocator :: "'a \<Rightarrow> (allocator, 'e, 'a) io \<Rightarrow> (manager, 'e, 'a) io" where
  "on_allocator d m w =
     (case mg_subids w of
        None \<Rightarrow> (Inr d, w)
      | Some a \<Rightarrow> (case m a of (r, b) \<Rightarrow> (r, w\<lparr>mg_subids := Some b\<rparr>)))"

definition on_ledger :: "(mem_ledger \<Rightarrow> 'a \<times> mem_ledger) \<Rightarrow> (manager, 'e, 'a) io" where
  "on_ledger f w = (case f (mg_ledger w) of (x, l) \<Rightarrow> (Inr x, w\<lparr>mg_ledger := l\<rparr>))"

definition on_logged :: "logged \<Rightarrow> (manager, 'e, unit) io" where
  "on_logged f w =
     (case f (mg_ledger w) of (l, ps) \<Rightarrow>
        (Inr (), w\<lparr>mg_ledger := l, mg_signals := mg_signals w @ map Terminate ps\<rparr>))"

definition send :: "signal list \<Rightarrow> (manager, 'e, unit) io" where
  "send xs w = (Inr (), w\<lparr>mg_signals := mg_signals w @ xs\<rparr>)"

definition io_ignore :: "('s, 'f, 'a) io \<Rightarrow> ('s, 'e, unit) io" where
  "io_ignore m s = (Inr (), snd (m s))"

definition with_lifecycle :: "sandbox_id \<Rightarrow> 'a mgr_io \<Rightarrow> 'a mgr_io" where
  "with_lifecycle i m w =
     (case lifecycle_lock i (mg_locks w) of (a, t) \<Rightarrow>
      case m (w\<lparr>mg_locks := t\<rparr>) of (r, w') \<Rightarrow> (r, w'\<lparr>mg_locks := lifecycle_drop a (mg_locks w')\<rparr>))"

definition ensure_ready :: "unit mgr_io" where
  "ensure_ready w = (if mg_ready w then Inr () else Inl MeUnavailable, w)"

definition noting :: "sandbox_id \<Rightarrow> metadata \<Rightarrow> bool mgr_io" where
  "noting i m w =
     (case note_valid_record i m (mg_ledger w) of (b, l, ps) \<Rightarrow>
        (Inr b, w\<lparr>mg_ledger := l, mg_signals := mg_signals w @ map Terminate ps\<rparr>))"

definition reserving :: "key_fingerprint \<Rightarrow> unit mgr_io" where
  "reserving owner w =
     (case reserve_sandbox (mg_caps w) owner (mg_ledger w) of (r, l) \<Rightarrow>
        (map_err MeLimit r, w\<lparr>mg_ledger := l\<rparr>))"

section \<open>Identities\<close>

definition reserve_identity ::
  "env \<Rightarrow> 128 word \<Rightarrow> (delegation_error, delegation) result \<Rightarrow> sandbox_id \<Rightarrow> key_fingerprint
     \<Rightarrow> lease_record option mgr_io" where
  "reserve_identity E token query i owner =
     on_allocator None
       (io_bind (io_lift (map_err MeDelegation query)) (\<lambda>delegation.
        io_bind (io_map_err MeSubid (alloc_claim E token i owner delegation)) (\<lambda>r. io_ok (Some r))))"

text \<open>The checks of \<open>identity_for\<close> on the lease it found.\<close>

definition admit_lease ::
  "(delegation_error, delegation) result \<Rightarrow> metadata \<Rightarrow> lease_record option
     \<Rightarrow> (manager_error, isolated_identity option) result" where
  "admit_lease query m found =
     and_then (ok_or MeUnavailable found) (\<lambda>r.
     if lr_owner r \<noteq> md_owner m \<or> lr_state r \<noteq> LeaseActive then Inl MeUnavailable
     else and_then (map_err MeDelegation query) (\<lambda>delegation.
          and_then (map_err MeSubid (validate_delegated r delegation)) (\<lambda>_.
          Inr (Some \<lparr>runtime_uid = ISOLATED_RUNTIME_UID_GID, runtime_gid = ISOLATED_RUNTIME_UID_GID,
                     host_uid = lr_uid r, host_gid = lr_gid r\<rparr>))))"

definition identity_for ::
  "env \<Rightarrow> (delegation_error, delegation) result \<Rightarrow> metadata \<Rightarrow> isolated_identity option mgr_io" where
  "identity_for E query m =
     on_allocator None
       (io_bind (io_map_err MeSubid (lease_for E (md_id m))) (\<lambda>found. io_lift (admit_lease query m found)))"

definition release_reserved_identity :: "env \<Rightarrow> lease_record \<Rightarrow> (manager, 'e, unit) io" where
  "release_reserved_identity E r =
     on_allocator ()
       (io_match (io_then (begin_release E r) (finish_release E r))
          (\<lambda>e. io_ignore (alloc_quarantine E r ''reservation cleanup was ambiguous''))
          io_ok)"

definition handle :: "metadata \<Rightarrow> isolated_identity option \<Rightarrow> bool \<Rightarrow> sandbox_handle mgr_io" where
  "handle m identity created w =
     (Inr \<lparr>sh_id = md_id m, sh_owner = md_owner m, sh_workspace = workspace_path (mg_storage w) (md_id m),
           sh_identity = identity, sh_created = created\<rparr>, w)"

section \<open>Claiming\<close>

definition activate_reserved :: "env \<Rightarrow> lease_record option \<Rightarrow> unit mgr_io" where
  "activate_reserved E reserved =
     (case reserved of
        None \<Rightarrow> io_ok ()
      | Some r \<Rightarrow>
          io_match (on_allocator r (alloc_activate E r))
            (\<lambda>e. io_then (io_ignore (on_allocator () (alloc_quarantine E r ''activation failed after sandbox publication'')))
                  (io_err MeUnavailable))
            (\<lambda>_. io_ok ()))"

definition creation_failed :: "env \<Rightarrow> lease_record option \<Rightarrow> key_fingerprint \<Rightarrow> storage_error \<Rightarrow> 'a mgr_io" where
  "creation_failed E reserved owner e =
     io_then (case reserved of None \<Rightarrow> io_ok () | Some r \<Rightarrow> release_reserved_identity E r)
     (io_then (on_ledger (\<lambda>l. ((), release_sandbox owner l)))
     (io_err (case e of StAlreadyExists _ \<Rightarrow> MeUnavailable | _ \<Rightarrow> MeStorage e)))"

definition claim_absent ::
  "env \<Rightarrow> 128 word \<Rightarrow> (delegation_error, delegation) result \<Rightarrow> (delegation_error, delegation) result
     \<Rightarrow> key_fingerprint \<Rightarrow> sandbox_id \<Rightarrow> sandbox_handle mgr_io" where
  "claim_absent E token q q' owner i =
     io_bind (on_ledger (\<lambda>l. (is_blocked i l \<or> has_record i l, l))) (\<lambda>known.
     if known then io_err MeUnavailable
     else io_then (reserving owner)
       (io_match (reserve_identity E token q i owner)
          (\<lambda>e. io_then (on_ledger (\<lambda>l. ((), release_sandbox owner l))) (io_err e))
          (\<lambda>reserved.
            io_match (on_storage id (\<lambda>st. create_active E st i owner))
              (creation_failed E reserved owner)
              (\<lambda>m. io_then (on_ledger (\<lambda>l. ((), insert_reserved m l)))
                   (io_then (activate_reserved E reserved)
                   (io_bind (identity_for E q' m) (\<lambda>identity. handle m identity True)))))))"

definition claim_entry ::
  "env \<Rightarrow> 128 word \<Rightarrow> (delegation_error, delegation) result \<Rightarrow> (delegation_error, delegation) result
     \<Rightarrow> principal \<Rightarrow> sandbox_id \<Rightarrow> entry \<Rightarrow> sandbox_handle mgr_io" where
  "claim_entry E token q q' p i entry =
     (case entry of
        EntryActive m \<Rightarrow>
          io_bind (noting i m) (\<lambda>ok.
          if \<not> ok then io_err MeUnavailable
          else if \<not> authorized p (md_owner m) then io_err MeUnavailable
          else io_bind (identity_for E q' m) (\<lambda>identity. handle m identity False))
      | EntryDeleting m \<Rightarrow> io_then (noting i m) (io_err MeUnavailable)
      | EntryCorrupt reason \<Rightarrow> io_then (on_logged (note_corrupt i)) (io_err MeUnavailable)
      | EntryAbsent \<Rightarrow> claim_absent E token q q' (pr_fingerprint p) i)"

definition claim ::
  "env \<Rightarrow> 128 word \<Rightarrow> (delegation_error, delegation) result \<Rightarrow> (delegation_error, delegation) result
     \<Rightarrow> principal \<Rightarrow> sandbox_id \<Rightarrow> sandbox_handle mgr_io" where
  "claim E token q q' p i =
     io_then ensure_ready (with_lifecycle i
       (io_bind (on_storage MeStorage (\<lambda>st. inspect E st i)) (claim_entry E token q q' p i)))"

section \<open>Listing\<close>

definition listed :: "principal \<Rightarrow> sandbox_id set \<Rightarrow> sandbox_id \<times> entry \<Rightarrow> sandbox_id option" where
  "listed p blocked x =
     (case x of
        (i, EntryActive m) \<Rightarrow> if i \<notin> blocked \<and> authorized p (md_owner m) then Some i else None
      | _ \<Rightarrow> None)"

definition list_sandboxes :: "env \<Rightarrow> principal \<Rightarrow> sandbox_id list mgr_io" where
  "list_sandboxes E p =
     io_then ensure_ready
     (io_bind (on_storage MeStorage (\<lambda>st. scan E st)) (\<lambda>r.
      io_bind (on_ledger (\<lambda>l. (lg_blocked l, l))) (\<lambda>blocked.
      io_ok (remdups_adj (sort (List.map_filter (listed p blocked) (sr_entries r)))))))"

definition sandbox_count :: "manager \<Rightarrow> nat" where
  "sandbox_count w = length (lg_records (mg_ledger w))"

section \<open>Waiting for processes\<close>

text \<open>
  What one blocking call gives: whether the process was cleaned up (or the condition variable was
  notified) before the timeout, and what the other threads did to the memory. The list of such
  outcomes ends when the deadline has passed.
\<close>

record blocking =
  bl_ok :: bool
  bl_others :: "mem_ledger \<Rightarrow> mem_ledger"

definition first_process :: "mem_ledger \<Rightarrow> u64 list \<Rightarrow> (u64 \<times> process) option" where
  "first_process l ts =
     (case List.map_filter (\<lambda>t. map_option (Pair t) (Option.bind (map_of (lg_runtime l) t) re_process)) ts of
        [] \<Rightarrow> None | x # _ \<Rightarrow> Some x)"

definition reap :: "sandbox_id \<Rightarrow> u64 \<Rightarrow> mem_ledger \<Rightarrow> mem_ledger" where
  "reap i t l =
     (case map_of (lg_runtime l) t of
        Some e \<Rightarrow> if re_sandbox_id e = i then snd (remove_runtime t l) else l
      | None \<Rightarrow> l)"

fun wait_for_runtime_cleanup :: "sandbox_id \<Rightarrow> blocking list \<Rightarrow> mem_ledger \<Rightarrow> bool \<times> mem_ledger" where
  "wait_for_runtime_cleanup i [] l = (runtime_tokens_for l i = [], l)"
| "wait_for_runtime_cleanup i (b # bs) l =
     (if runtime_tokens_for l i = [] then (True, l)
      else if \<not> bl_ok b then (False, bl_others b l)
      else case first_process l (runtime_tokens_for l i) of
             Some (t, p) \<Rightarrow> wait_for_runtime_cleanup i bs (reap i t (bl_others b l))
           | None \<Rightarrow> wait_for_runtime_cleanup i bs (bl_others b l))"

definition cancel_runtime :: "sandbox_id \<Rightarrow> blocking list \<Rightarrow> blocking list \<Rightarrow> (manager, 'e, bool) io" where
  "cancel_runtime i graceful forced =
     io_then (on_logged (\<lambda>l. for_log (runtime_tokens_for l i) mark_cancelled l))
     (io_bind (on_ledger (wait_for_runtime_cleanup i graceful)) (\<lambda>ok.
      if ok then io_ok True
      else io_bind (on_ledger (\<lambda>l. (processes_of (runtime_tokens_for l i) l, l))) (\<lambda>ps.
           io_then (send (map ForceTerminate ps))
           (on_ledger (wait_for_runtime_cleanup i forced)))))"

section \<open>Deleting\<close>

definition is_open_lease :: "lease_record \<Rightarrow> bool" where
  "is_open_lease r \<longleftrightarrow> lr_state r = LeaseActive \<or> lr_state r = LeaseReserved"

definition release_resources :: "launcher \<Rightarrow> sandbox_id \<Rightarrow> unit mgr_io" where
  "release_resources ln i = io_lift (map_err MeLaunch (ln_release_resources ln i))"

definition delete_absent :: "env \<Rightarrow> launcher \<Rightarrow> principal \<Rightarrow> sandbox_id \<Rightarrow> delete_result mgr_io" where
  "delete_absent E ln p i =
     (let forget = io_then (on_logged (remove_record_from_ledger i)) (io_ok Noop) in
      io_bind (on_allocator None (io_map_err MeSubid (lease_for E i))) (\<lambda>found.
      case found of
        None \<Rightarrow> forget
      | Some r \<Rightarrow>
          if \<not> authorized p (lr_owner r) then io_ok Noop
          else (case lr_state r of
                  LeaseReleasing \<Rightarrow>
                    io_then (release_resources ln i)
                    (io_then (on_allocator () (io_map_err MeSubid (finish_release E r))) forget)
                | LeaseQuarantined \<Rightarrow> io_then (release_resources ln i) forget
                | _ \<Rightarrow> io_err MeUnavailable)))"

definition delete_lease :: "env \<Rightarrow> sandbox_id \<Rightarrow> lease_record option mgr_io" where
  "delete_lease E i =
     on_allocator None
       (io_bind (io_map_err MeSubid (lease_for E i)) (\<lambda>found.
        io_bind (io_lift (ok_or MeUnavailable found)) (\<lambda>r. io_ok (Some r))))"

text \<open>Everything after the durable intent: release the lease, stop the processes, remove the tree, free the lease.\<close>

definition delete_rest ::
  "env \<Rightarrow> launcher \<Rightarrow> blocking list \<Rightarrow> blocking list \<Rightarrow> sandbox_id \<Rightarrow> lease_record option \<Rightarrow> delete_result mgr_io" where
  "delete_rest E ln graceful forced i lease =
     io_then (case lease of
          Some r \<Rightarrow> if is_open_lease r then on_allocator () (io_map_err MeSubid (begin_release E r)) else io_ok ()
        | None \<Rightarrow> io_ok ())
     (io_bind (cancel_runtime i graceful forced) (\<lambda>ok.
      if \<not> ok then io_err MeRuntimeCleanup
      else io_then (release_resources ln i)
          (io_then (on_storage MeCleanup (\<lambda>st. remove_tree st i))
          (io_then (case lease of
               Some r \<Rightarrow> if lr_state r \<noteq> LeaseQuarantined
                         then on_allocator () (io_map_err MeSubid (finish_release E r)) else io_ok ()
             | None \<Rightarrow> io_ok ())
          (io_then (on_logged (remove_record_from_ledger i)) (io_ok Deleted))))))"

definition mark_deleting :: "env \<Rightarrow> metadata \<Rightarrow> unit mgr_io" where
  "mark_deleting E m =
     (if md_state m = Active
      then (let deleting = metadata_with_state m Deleting in
            io_then (on_storage MeStorage (\<lambda>st. write_metadata E st deleting))
                    (on_ledger (\<lambda>l. ((), replace_record deleting l))))
      else io_ok ())"

definition delete_present ::
  "env \<Rightarrow> launcher \<Rightarrow> blocking list \<Rightarrow> blocking list \<Rightarrow> sandbox_id \<Rightarrow> metadata \<Rightarrow> delete_result mgr_io" where
  "delete_present E ln graceful forced i m =
     io_bind (delete_lease E i) (\<lambda>lease.
     io_then (mark_deleting E m) (delete_rest E ln graceful forced i lease))"

definition delete_entry ::
  "env \<Rightarrow> launcher \<Rightarrow> blocking list \<Rightarrow> blocking list \<Rightarrow> principal \<Rightarrow> sandbox_id \<Rightarrow> entry \<Rightarrow> delete_result mgr_io" where
  "delete_entry E ln graceful forced p i entry =
     (let present = (\<lambda>m.
            io_bind (noting i m) (\<lambda>ok.
            if \<not> ok then io_err MeUnavailable
            else if \<not> authorized p (md_owner m) then io_ok Noop
            else delete_present E ln graceful forced i m))
      in case entry of
           EntryAbsent \<Rightarrow> delete_absent E ln p i
         | EntryCorrupt reason \<Rightarrow> io_then (on_logged (note_corrupt i)) (io_err MeUnavailable)
         | EntryActive m \<Rightarrow> present m
         | EntryDeleting m \<Rightarrow> present m)"

definition delete ::
  "env \<Rightarrow> launcher \<Rightarrow> blocking list \<Rightarrow> blocking list \<Rightarrow> principal \<Rightarrow> sandbox_id \<Rightarrow> delete_result mgr_io" where
  "delete E ln graceful forced p i =
     io_then ensure_ready (with_lifecycle i
       (io_bind (on_storage MeStorage (\<lambda>st. inspect E st i)) (delete_entry E ln graceful forced p i)))"

end
