(* ===== verification/Manager_Runtime.thy ===== *)
theory Manager_Runtime
  imports Manager
begin

text \<open>
  Launching and stopping processes, and opening the manager: the admission and commit of a launch
  (\<open>launch\<close>, \<open>finish_launch\<close>), shutdown, the startup reconciliation in its order, and the
  constructors of \<open>SandboxManager\<close>.
\<close>

section \<open>Launching\<close>

text \<open>\<open>None\<close> as the outcome is a token search that never ends; with fewer than \<open>2 ^ 64 - 1\<close> processes it does.\<close>

definition beginning_launch :: "sandbox_handle \<Rightarrow> runtime_lease mgr_io" where
  "beginning_launch h w =
     (case begin_launch (mg_caps w) (mg_frozen w) (sh_id h) (sh_owner h) (mg_ledger w) of
        None \<Rightarrow> (Inl MeUnavailable, w)
      | Some (r, l) \<Rightarrow>
          (map_err (\<lambda>limit. case limit of None \<Rightarrow> MeUnavailable | Some c \<Rightarrow> MeLimit c) r, w\<lparr>mg_ledger := l\<rparr>))"

definition finish_launch :: "env \<Rightarrow> runtime_lease \<Rightarrow> process \<Rightarrow> (manager, 'e, bool) io" where
  "finish_launch E lease p w =
     (case inspect E (mg_storage w) (rt_sandbox_id lease) (mg_fs w) of (inspected, fs) \<Rightarrow>
        let durable = (case inspected of Inr (EntryActive m) \<Rightarrow> Some m | _ \<Rightarrow> None) in
        case commit_launch durable lease p (mg_ledger w) of (accepted, l) \<Rightarrow>
          (Inr accepted, w\<lparr>mg_fs := fs, mg_ledger := l\<rparr>))"

text \<open>\<open>in_time\<close> answers \<open>wait_for_cleanup\<close> after the graceful signal.\<close>

definition terminate_and_wait :: "(process \<Rightarrow> bool) \<Rightarrow> process \<Rightarrow> (manager, 'e, unit) io" where
  "terminate_and_wait in_time p =
     io_then (send [Terminate p]) (if in_time p then io_ok () else send [ForceTerminate p])"

text \<open>\<open>others\<close> is what the other threads do while the launcher runs, \<open>reaped\<close> answers a zero wait.\<close>

definition launch_handle ::
  "env \<Rightarrow> launcher \<Rightarrow> (mem_ledger \<Rightarrow> mem_ledger) \<Rightarrow> (process \<Rightarrow> bool) \<Rightarrow> (process \<Rightarrow> bool) \<Rightarrow> sandbox_handle
     \<Rightarrow> launch_operation \<Rightarrow> pty_spec option \<Rightarrow> (string \<times> string) list \<Rightarrow> managed_process mgr_io" where
  "launch_handle E ln others in_time reaped h operation pty environment =
     io_bind (beginning_launch h) (\<lambda>lease.
     let request = \<lparr>lq_sandbox_id = sh_id h, lq_workspace = sh_workspace h, lq_identity = sh_identity h,
           lq_operation = operation, lq_pty = pty, lq_environment = environment\<rparr>
     in io_then (on_ledger (\<lambda>l. ((), others l)))
        (case ln_launch ln request of
           Inl e \<Rightarrow> io_then (on_ledger (\<lambda>l. ((), clear_runtime reaped lease l))) (io_err (MeLaunch e))
         | Inr p \<Rightarrow>
             io_bind (finish_launch E lease p) (\<lambda>accepted.
             if \<not> accepted
             then io_then (terminate_and_wait in_time p)
                  (io_then (on_ledger (\<lambda>l. ((), clear_runtime reaped lease l))) (io_err MeUnavailable))
             else io_ok \<lparr>mp_process = p, mp_lease = lease\<rparr>)))"

definition launch_with_environment ::
  "env \<Rightarrow> 128 word \<Rightarrow> (delegation_error, delegation) result \<Rightarrow> (delegation_error, delegation) result
     \<Rightarrow> launcher \<Rightarrow> (mem_ledger \<Rightarrow> mem_ledger) \<Rightarrow> (process \<Rightarrow> bool) \<Rightarrow> (process \<Rightarrow> bool) \<Rightarrow> principal \<Rightarrow> sandbox_id
     \<Rightarrow> launch_operation \<Rightarrow> pty_spec option \<Rightarrow> (string \<times> string) list \<Rightarrow> managed_process mgr_io" where
  "launch_with_environment E token q q' ln others in_time reaped p i operation pty environment w =
     (if mg_frozen w then (Inl MeUnavailable, w)
      else io_bind (claim E token q q' p i)
             (\<lambda>h. launch_handle E ln others in_time reaped h operation pty environment) w)"

definition launch ::
  "env \<Rightarrow> 128 word \<Rightarrow> (delegation_error, delegation) result \<Rightarrow> (delegation_error, delegation) result
     \<Rightarrow> launcher \<Rightarrow> (mem_ledger \<Rightarrow> mem_ledger) \<Rightarrow> (process \<Rightarrow> bool) \<Rightarrow> (process \<Rightarrow> bool) \<Rightarrow> principal \<Rightarrow> sandbox_id
     \<Rightarrow> launch_operation \<Rightarrow> pty_spec option \<Rightarrow> managed_process mgr_io" where
  "launch E token q q' ln others in_time reaped p i operation pty =
     launch_with_environment E token q q' ln others in_time reaped p i operation pty []"

section \<open>Shutdown\<close>

text \<open>One round of parallel waits: which processes were cleaned up, whether the wait timed out.\<close>

record wait_round =
  wr_complete :: "u64 \<Rightarrow> bool"
  wr_timed_out :: bool
  wr_others :: "mem_ledger \<Rightarrow> mem_ledger"

definition live_tokens :: "u64 list \<Rightarrow> mem_ledger \<Rightarrow> u64 list" where
  "live_tokens ts l = filter (\<lambda>t. map_of (lg_runtime l) t \<noteq> None) ts"

definition waiting_tokens :: "u64 list \<Rightarrow> mem_ledger \<Rightarrow> u64 list" where
  "waiting_tokens ts l = filter (\<lambda>t. Option.bind (map_of (lg_runtime l) t) re_process \<noteq> None) ts"

definition remove_complete :: "wait_round \<Rightarrow> u64 list \<Rightarrow> mem_ledger \<Rightarrow> mem_ledger" where
  "remove_complete r ts l =
     fold (\<lambda>t m. if wr_complete r t \<and> Option.bind (map_of (lg_runtime m) t) re_process \<noteq> None
                 then snd (remove_runtime t m) else m) ts l"

fun wait_for_runtime_tokens :: "u64 list \<Rightarrow> wait_round list \<Rightarrow> mem_ledger \<Rightarrow> bool \<times> mem_ledger" where
  "wait_for_runtime_tokens ts [] l = (live_tokens ts l = [], l)"
| "wait_for_runtime_tokens ts (r # rs) l =
     (let pending = waiting_tokens ts l in
      if live_tokens ts l = [] then (True, l)
      else if pending \<noteq> [] then
        (let l' = remove_complete r pending (wr_others r l) in
         if list_ex (\<lambda>t. \<not> wr_complete r t) pending then (False, l')
         else wait_for_runtime_tokens ts rs l')
      else if wr_timed_out r then (False, wr_others r l)
      else wait_for_runtime_tokens ts rs (wr_others r l))"

definition freeze :: "(manager, 'e, unit) io" where
  "freeze w = (Inr (), w\<lparr>mg_frozen := True\<rparr>)"

definition all_tokens :: "mem_ledger \<Rightarrow> u64 list" where
  "all_tokens l = map fst (lg_runtime l)"

definition shutdown_runtime :: "wait_round list \<Rightarrow> wait_round list \<Rightarrow> (manager, 'e, unit) io" where
  "shutdown_runtime graceful forced =
     io_then freeze
     (io_bind (on_ledger (\<lambda>l. (all_tokens l, l))) (\<lambda>ts.
      io_then (on_logged (for_log ts mark_cancelled))
     (io_bind (on_ledger (wait_for_runtime_tokens ts graceful)) (\<lambda>ok.
      io_then (if ok then io_ok ()
        else io_bind (on_ledger (\<lambda>l. (processes_of ts l, l))) (\<lambda>ps.
             io_then (send (map ForceTerminate ps))
             (io_then (on_ledger (wait_for_runtime_tokens ts forced)) (io_ok ()))))
      (send [ShutdownResources])))))"

definition force_shutdown_runtime :: "(manager, 'e, unit) io" where
  "force_shutdown_runtime =
     io_then freeze
     (io_bind (on_ledger (\<lambda>l. (case for_log (all_tokens l) mark_cancelled l of (m, ps) \<Rightarrow> (ps, m)))) (\<lambda>ps.
      send (map ForceTerminate ps @ [ForceShutdownResources])))"

section \<open>Startup\<close>

definition view_of :: "env \<Rightarrow> (storage_error, entry) result \<Rightarrow> (string, sandbox_view option) result" where
  "view_of E r =
     (case r of
        Inr (EntryActive m) \<Rightarrow> Inr (Some (ViewActive (md_owner m)))
      | Inr (EntryDeleting m) \<Rightarrow> Inr (Some (ViewDeleting (md_owner m)))
      | Inr (EntryCorrupt reason) \<Rightarrow> Inr (Some (ViewCorrupt reason))
      | Inr EntryAbsent \<Rightarrow> Inr None
      | Inl e \<Rightarrow> Inl (display_storage_error E e))"

text \<open>
  Every lease names another sandbox, so each inspection happens once: \<open>outcomes i\<close> is the schedule
  of I/O outcomes that the inspection of \<open>i\<close> meets.
\<close>

definition sandbox_lookup ::
  "env \<Rightarrow> storage \<Rightarrow> fsys \<Rightarrow> (sandbox_id \<Rightarrow> (nat \<times> nat) option list) \<Rightarrow> view_lookup" where
  "sandbox_lookup E st fs outcomes i = view_of E (fst (inspect E st i (fs\<lparr>fs_outcomes := outcomes i\<rparr>)))"

definition reconcile_subid_leases ::
  "env \<Rightarrow> (sandbox_id \<Rightarrow> (nat \<times> nat) option list) \<Rightarrow> unit mgr_io" where
  "reconcile_subid_leases E outcomes w =
     on_allocator ()
       (io_then (io_map_err MeSubid (reconcile E (sandbox_lookup E (mg_storage w) (mg_fs w) outcomes) True))
          (io_ok ())) w"

text \<open>One deletion of \<open>reconcile_deleting\<close>; every failure is logged and leaves the rest to a later start.\<close>

definition resume_lease :: "env \<Rightarrow> sandbox_id \<Rightarrow> lease_record option option mgr_io" where
  "resume_lease E i =
     on_allocator (Some None)
       (io_match (lease_for E i)
          (\<lambda>e. io_ok None)
          (\<lambda>found. case found of
             None \<Rightarrow> io_ok None
           | Some r \<Rightarrow>
               if is_open_lease r
               then io_match (begin_release E r) (\<lambda>e. io_ok None) (\<lambda>_. io_ok (Some (Some r)))
               else io_ok (Some (Some r))))"

definition resume_deletion :: "env \<Rightarrow> launcher \<Rightarrow> sandbox_id \<Rightarrow> unit mgr_io" where
  "resume_deletion E ln i =
     io_bind (resume_lease E i) (\<lambda>resumed.
     case resumed of
       None \<Rightarrow> io_ok ()
     | Some lease \<Rightarrow>
         (case ln_release_resources ln i of
            Inl e \<Rightarrow> io_ok ()
          | Inr _ \<Rightarrow>
              io_match (on_storage id (\<lambda>st. remove_tree st i))
                (\<lambda>e. io_ok ())
                (\<lambda>_. let forget = on_logged (remove_record_from_ledger i) in
                     case lease of
                       Some r \<Rightarrow>
                         if lr_state r \<noteq> LeaseQuarantined
                         then io_match (on_allocator () (finish_release E r)) (\<lambda>e. io_ok ()) (\<lambda>_. forget)
                         else forget
                     | None \<Rightarrow> forget)))"

definition deleting_ids :: "mem_ledger \<Rightarrow> sandbox_id list" where
  "deleting_ids l = map fst (filter (\<lambda>(i, m). md_state m = Deleting) (lg_records l))"

definition reconcile_deleting :: "env \<Rightarrow> launcher \<Rightarrow> unit mgr_io" where
  "reconcile_deleting E ln =
     io_bind (on_ledger (\<lambda>l. (deleting_ids l, l))) (\<lambda>ids. io_for ids (resume_deletion E ln))"

definition set_ready :: "unit mgr_io" where
  "set_ready w = (Inr (), w\<lparr>mg_ready := True\<rparr>)"

definition reconcile_startup ::
  "env \<Rightarrow> launcher \<Rightarrow> (sandbox_id \<Rightarrow> (nat \<times> nat) option list) \<Rightarrow> unit mgr_io" where
  "reconcile_startup E ln outcomes =
     (case ln_reconcile_startup ln of
        Inl e \<Rightarrow> io_ok ()
      | Inr _ \<Rightarrow>
          io_match (reconcile_subid_leases E outcomes)
            (\<lambda>e. io_ok ())
            (\<lambda>_. io_then (reconcile_deleting E ln) set_ready))"

text \<open>\<open>Storage::with_faults\<close> validates the root; the tree of the storage starts there.\<close>

definition storage_new :: "env \<Rightarrow> string \<Rightarrow> (fsys, storage_error, storage) io" where
  "storage_new E root =
     io_then (io_map_err (\<lambda>e. StIo ''validate sandbox root'' root (OtherError (display_paths_error E e)))
                (validate_dir E root []))
     (io_ok \<lparr>sg_root = root\<rparr>)"

definition load_registry :: "env \<Rightarrow> unit mgr_io" where
  "load_registry E =
     io_bind (on_storage MeStorage (\<lambda>st. scan E st)) (\<lambda>r. on_logged (reconcile_scan r))"

text \<open>The registry and the lease ledger are the trees \<open>fs\<close> and \<open>lease_fs\<close> below their roots.\<close>

definition open_loaded ::
  "env \<Rightarrow> paths \<Rightarrow> caps \<Rightarrow> sandbox_identity \<Rightarrow> fsys \<Rightarrow> fsys \<Rightarrow> (manager_error, manager) result" where
  "open_loaded E ps c identity fs lease_fs =
     (case storage_new E (sandboxes_root ps) fs of
        (Inl e, fs') \<Rightarrow> Inl (MeStorage e)
      | (Inr st, fs') \<Rightarrow>
          and_then
            (case identity of
               IdentityHost \<Rightarrow> Inr None
             | IdentityIsolated \<Rightarrow>
                 (case open_allocator E (subid_leases_root ps) lease_fs of
                    (Inl e, _) \<Rightarrow> Inl (MeSubid e)
                  | (Inr a, _) \<Rightarrow> Inr (Some a)))
            (\<lambda>subids.
              let w = \<lparr>mg_storage = st, mg_caps = c, mg_fs = fs', mg_subids = subids,
                       mg_ledger = ledger_default, mg_locks = locks_new, mg_ready = False,
                       mg_frozen = False, mg_signals = []\<rparr>
              in case load_registry E w of (Inl e, _) \<Rightarrow> Inl e | (Inr _, w') \<Rightarrow> Inr w'))"

definition open_with_launcher_and_identity ::
  "env \<Rightarrow> paths \<Rightarrow> caps \<Rightarrow> launcher \<Rightarrow> sandbox_identity \<Rightarrow> (sandbox_id \<Rightarrow> (nat \<times> nat) option list)
     \<Rightarrow> fsys \<Rightarrow> fsys \<Rightarrow> (manager_error, manager) result" where
  "open_with_launcher_and_identity E ps c ln identity outcomes fs lease_fs =
     and_then (open_loaded E ps c identity fs lease_fs) (\<lambda>w. Inr (snd (reconcile_startup E ln outcomes w)))"

text \<open>\<open>UnavailableLauncher\<close> refuses to launch and has nothing to release or reconcile.\<close>

definition launch_error_new :: "string \<Rightarrow> launch_error" where
  "launch_error_new message = \<lparr>lx_message = message, lx_source = None\<rparr>"

definition unavailable_launcher :: launcher where
  "unavailable_launcher =
     \<lparr>ln_launch = (\<lambda>_. Inl (launch_error_new ''sandbox process adapter is unavailable'')),
      ln_release_resources = (\<lambda>_. Inr ()), ln_reconcile_startup = Inr ()\<rparr>"

text \<open>The other constructors; a fault injector is the fault state of the file system.\<close>

definition open_with_faults_and_launcher ::
  "env \<Rightarrow> paths \<Rightarrow> caps \<Rightarrow> fault_point option option \<Rightarrow> launcher \<Rightarrow> fsys \<Rightarrow> fsys
     \<Rightarrow> (manager_error, manager) result" where
  "open_with_faults_and_launcher E ps c faults ln fs lease_fs =
     and_then (open_loaded E ps c IdentityHost (fs\<lparr>fs_faults := faults\<rparr>) lease_fs)
       (\<lambda>w. Inr (snd (reconcile_startup E ln (\<lambda>_. []) w)))"

definition open_with_faults ::
  "env \<Rightarrow> paths \<Rightarrow> caps \<Rightarrow> fault_point option option \<Rightarrow> fsys \<Rightarrow> fsys \<Rightarrow> (manager_error, manager) result" where
  "open_with_faults E ps c faults fs lease_fs =
     open_with_faults_and_launcher E ps c faults unavailable_launcher fs lease_fs"

definition open_with_launcher ::
  "env \<Rightarrow> paths \<Rightarrow> caps \<Rightarrow> launcher \<Rightarrow> fsys \<Rightarrow> fsys \<Rightarrow> (manager_error, manager) result" where
  "open_with_launcher E ps c ln fs lease_fs = open_with_faults_and_launcher E ps c None ln fs lease_fs"

definition open_manager :: "env \<Rightarrow> paths \<Rightarrow> caps \<Rightarrow> fsys \<Rightarrow> fsys \<Rightarrow> (manager_error, manager) result" where
  "open_manager E ps c fs lease_fs = open_with_launcher E ps c unavailable_launcher fs lease_fs"

definition open_unreconciled_with_launcher ::
  "env \<Rightarrow> paths \<Rightarrow> caps \<Rightarrow> fsys \<Rightarrow> fsys \<Rightarrow> (manager_error, manager) result" where
  "open_unreconciled_with_launcher E ps c fs lease_fs = open_loaded E ps c IdentityHost fs lease_fs"

definition open_unreconciled_with_launcher_and_identity ::
  "env \<Rightarrow> paths \<Rightarrow> caps \<Rightarrow> sandbox_identity \<Rightarrow> fsys \<Rightarrow> fsys \<Rightarrow> (manager_error, manager) result" where
  "open_unreconciled_with_launcher_and_identity E ps c identity fs lease_fs = open_loaded E ps c identity fs lease_fs"

end
