(* ===== verification/Manager_Invariants.thy ===== *)
theory Manager_Invariants
  imports Manager_Ledger
begin

text \<open>
  What holds of the manager's memory between any two critical sections: the index of processes by
  sandbox mirrors the process table, and the counts per owner are exact, counting reservations of
  claims in flight. Both are kept by every step a thread may make while it holds the ledger mutex,
  so they hold under every interleaving of concurrent operations.
\<close>

named_theorems ledger_defs \<open>definitions of the steps on the manager's memory\<close>

section \<open>The process index\<close>

definition tokens_of :: "mem_ledger \<Rightarrow> sandbox_id \<Rightarrow> u64 set" where
  "tokens_of l i = {t. \<exists>e. map_of (lg_runtime l) t = Some e \<and> re_sandbox_id e = i}"

definition index_ok :: "mem_ledger \<Rightarrow> bool" where
  "index_ok l \<longleftrightarrow> distinct (map fst (lg_runtime l)) \<and> distinct (map fst (lg_runtime_by_sandbox l))
     \<and> [] \<notin> ran (map_of (lg_runtime_by_sandbox l))
     \<and> (\<forall>i. distinct (runtime_tokens_for l i) \<and> set (runtime_tokens_for l i) = tokens_of l i)"

lemma index_tokens: "index_ok l \<Longrightarrow> set (runtime_tokens_for l i) = tokens_of l i"
  by (simp add: index_ok_def)

lemma index_ok_default: "index_ok ledger_default"
  by (simp add: index_ok_def ledger_default_def runtime_tokens_for_def tokens_of_def)

text \<open>The index only depends on the table, so steps on the records keep it.\<close>

lemma tokens_for_update [simp]:
  "runtime_tokens_for (l\<lparr>lg_records := r\<rparr>) i = runtime_tokens_for l i"
  "runtime_tokens_for (l\<lparr>lg_blocked := b\<rparr>) i = runtime_tokens_for l i"
  "runtime_tokens_for (l\<lparr>lg_unknown_entries := n\<rparr>) i = runtime_tokens_for l i"
  "runtime_tokens_for (l\<lparr>lg_owner_counts := c\<rparr>) i = runtime_tokens_for l i"
  "runtime_tokens_for (l\<lparr>lg_reserved_sandboxes := n\<rparr>) i = runtime_tokens_for l i"
  "runtime_tokens_for (l\<lparr>lg_next_runtime_token := t\<rparr>) i = runtime_tokens_for l i"
  by (simp_all add: runtime_tokens_for_def)

lemma tokens_of_update [simp]:
  "tokens_of (l\<lparr>lg_records := r\<rparr>) i = tokens_of l i"
  "tokens_of (l\<lparr>lg_blocked := b\<rparr>) i = tokens_of l i"
  "tokens_of (l\<lparr>lg_unknown_entries := n\<rparr>) i = tokens_of l i"
  "tokens_of (l\<lparr>lg_owner_counts := c\<rparr>) i = tokens_of l i"
  "tokens_of (l\<lparr>lg_reserved_sandboxes := n\<rparr>) i = tokens_of l i"
  "tokens_of (l\<lparr>lg_next_runtime_token := t\<rparr>) i = tokens_of l i"
  by (simp_all add: tokens_of_def)

lemma index_ok_update [simp]:
  "index_ok (l\<lparr>lg_records := r\<rparr>) = index_ok l"
  "index_ok (l\<lparr>lg_blocked := b\<rparr>) = index_ok l"
  "index_ok (l\<lparr>lg_unknown_entries := n\<rparr>) = index_ok l"
  "index_ok (l\<lparr>lg_owner_counts := c\<rparr>) = index_ok l"
  "index_ok (l\<lparr>lg_reserved_sandboxes := n\<rparr>) = index_ok l"
  "index_ok (l\<lparr>lg_next_runtime_token := t\<rparr>) = index_ok l"
  by (simp_all add: index_ok_def)

lemma insert_runtime_index:
  assumes ok: "index_ok l" and fresh: "map_of (lg_runtime l) t = None"
  shows "index_ok (insert_runtime t e l)"
    and "tokens_of (insert_runtime t e l) i = (if i = re_sandbox_id e then insert t (tokens_of l i) else tokens_of l i)"
proof -
  let ?l = "insert_runtime t e l"
  have run: "map_of (lg_runtime ?l) = (map_of (lg_runtime l))(t \<mapsto> e)"
    by (simp add: insert_runtime_def update_conv')
  show tok: "tokens_of ?l i = (if i = re_sandbox_id e then insert t (tokens_of l i) else tokens_of l i)" for i
    using fresh by (auto simp: tokens_of_def run)
  have idx: "runtime_tokens_for ?l i =
      (if i = re_sandbox_id e then List.insert t (runtime_tokens_for l i) else runtime_tokens_for l i)" for i
    by (auto simp: runtime_tokens_for_def insert_runtime_def update_conv')
  have "lg_runtime_by_sandbox ?l = AList.update (re_sandbox_id e)
      (List.insert t (runtime_tokens_for l (re_sandbox_id e))) (lg_runtime_by_sandbox l)"
    by (simp add: insert_runtime_def)
  moreover have "List.insert t (runtime_tokens_for l (re_sandbox_id e)) \<noteq> []"
    by (metis List.insert_def list.distinct(1) empty_iff empty_set)
  moreover have "[] \<notin> ran (map_of (lg_runtime_by_sandbox l))" using ok by (simp add: index_ok_def)
  ultimately have ne: "[] \<notin> ran (map_of (lg_runtime_by_sandbox ?l))"
    by (auto simp: update_conv' ran_def simp del: map_of_eq_Some_iff)
  have "distinct (map fst (lg_runtime ?l))" "distinct (map fst (lg_runtime_by_sandbox ?l))"
    using ok by (simp_all add: index_ok_def insert_runtime_def distinct_update)
  with ok ne show "index_ok ?l" by (auto simp: index_ok_def idx tok)
qed

lemma unindex_tokens:
  "(case map_of (unindex t j by_sandbox) i of Some ts \<Rightarrow> ts | None \<Rightarrow> []) =
     (if i = j then removeAll t (case map_of by_sandbox i of Some ts \<Rightarrow> ts | None \<Rightarrow> [])
      else case map_of by_sandbox i of Some ts \<Rightarrow> ts | None \<Rightarrow> [])"
  by (auto simp: unindex_def Let_def update_conv' delete_conv' split: option.splits)

lemma unindex_distinct: "distinct (map fst b) \<Longrightarrow> distinct (map fst (unindex t j b))"
  by (auto simp: unindex_def Let_def distinct_update distinct_delete split: option.splits)

lemma unindex_nonempty: "[] \<notin> ran (map_of b) \<Longrightarrow> [] \<notin> ran (map_of (unindex t j b))"
  by (auto simp: unindex_def Let_def update_conv' delete_conv' ran_def split: option.splits if_splits)

lemma remove_runtime_index:
  assumes ok: "index_ok l"
  shows "index_ok (snd (remove_runtime t l))" and "tokens_of (snd (remove_runtime t l)) i = tokens_of l i - {t}"
proof -
  let ?l = "snd (remove_runtime t l)"
  have d: "distinct (map fst (lg_runtime l))" using ok by (simp add: index_ok_def)
  have run: "map_of (lg_runtime ?l) = (map_of (lg_runtime l))(t := None)"
    by (auto simp: remove_runtime_def delete_conv' split: option.splits)
  show tok: "tokens_of ?l i = tokens_of l i - {t}" for i
    by (auto simp: tokens_of_def run)
  have idx: "distinct (runtime_tokens_for ?l i) \<and> set (runtime_tokens_for ?l i) = tokens_of l i - {t}" for i
  proof (cases "map_of (lg_runtime l) t")
    case None
    then have "t \<notin> tokens_of l i" by (simp add: tokens_of_def)
    with None ok show ?thesis by (simp add: remove_runtime_def index_ok_def)
  next
    case (Some e)
    have "runtime_tokens_for ?l i =
        (if i = re_sandbox_id e then removeAll t (runtime_tokens_for l i) else runtime_tokens_for l i)"
      using Some by (simp add: runtime_tokens_for_def remove_runtime_def unindex_tokens)
    moreover have "i \<noteq> re_sandbox_id e \<Longrightarrow> t \<notin> tokens_of l i" using Some by (simp add: tokens_of_def)
    ultimately show ?thesis using ok by (auto simp: index_ok_def distinct_removeAll)
  qed
  have "distinct (map fst (lg_runtime_by_sandbox ?l))" "[] \<notin> ran (map_of (lg_runtime_by_sandbox ?l))"
    "distinct (map fst (lg_runtime ?l))"
    using ok unindex_distinct [of "lg_runtime_by_sandbox l"] unindex_nonempty [of "lg_runtime_by_sandbox l"]
    by (auto simp: index_ok_def remove_runtime_def distinct_delete split: option.splits)
  with idx tok show "index_ok ?l" by (simp add: index_ok_def)
qed

lemma set_entry_index:
  assumes "index_ok l" and "map_of (lg_runtime l) t = Some e" and "re_sandbox_id e' = re_sandbox_id e"
  shows "index_ok (set_entry t e' l)" and "tokens_of (set_entry t e' l) i = tokens_of l i"
proof -
  show tok: "tokens_of (set_entry t e' l) i = tokens_of l i" for i
    using assms by (auto simp: tokens_of_def set_entry_def update_conv' split: if_splits)
  have "runtime_tokens_for (set_entry t e' l) i = runtime_tokens_for l i" for i
    by (simp add: set_entry_def runtime_tokens_for_def)
  with assms(1) tok show "index_ok (set_entry t e' l)"
    by (simp add: index_ok_def) (simp add: set_entry_def distinct_update)
qed

section \<open>Loops\<close>

lemma fst_for_log: "fst (for_log (x # xs) f l) = fst (for_log xs f (fst (f x l)))"
  by (simp split: prod.splits)

lemma for_log_inv:
  assumes "\<And>x l. x \<in> set xs \<Longrightarrow> I l \<Longrightarrow> I (fst (f x l))" and "I l"
  shows "I (fst (for_log xs f l))"
  using assms(2,1) by (induction xs arbitrary: l) (auto split: prod.splits, metis fst_conv)

section \<open>Fresh tokens\<close>

lemma token_found:
  assumes "\<forall>j < k. \<not> (lg_next_runtime_token l + 1 + of_nat j \<noteq> 0
      \<and> map_of (lg_runtime l) (lg_next_runtime_token l + 1 + of_nat j) = None)"
    and "lg_next_runtime_token l + 1 + of_nat k \<noteq> 0"
    and "map_of (lg_runtime l) (lg_next_runtime_token l + 1 + of_nat k) = None"
  shows "next_runtime_token l = Some (lg_next_runtime_token l + 1 + of_nat k,
    l\<lparr>lg_next_runtime_token := lg_next_runtime_token l + 1 + of_nat k\<rparr>)"
  using assms
proof (induction k arbitrary: l)
  case 0
  then show ?case by (subst next_runtime_token.simps) (simp add: Let_def)
next
  case (Suc k)
  define m where "m = l\<lparr>lg_next_runtime_token := lg_next_runtime_token l + 1\<rparr>"
  have next_m: "lg_next_runtime_token m + 1 + of_nat j = lg_next_runtime_token l + 1 + of_nat (Suc j)" for j
    by (simp add: m_def)
  have run: "lg_runtime m = lg_runtime l" by (simp add: m_def)
  have "next_runtime_token m = Some (lg_next_runtime_token m + 1 + of_nat k,
      m\<lparr>lg_next_runtime_token := lg_next_runtime_token m + 1 + of_nat k\<rparr>)"
  proof (rule Suc.IH)
    show "\<forall>j < k. \<not> (lg_next_runtime_token m + 1 + of_nat j \<noteq> 0
      \<and> map_of (lg_runtime m) (lg_next_runtime_token m + 1 + of_nat j) = None)"
      using Suc.prems(1) unfolding next_m run by (metis Suc_less_eq)
    show "lg_next_runtime_token m + 1 + of_nat k \<noteq> 0"
      using Suc.prems(2) unfolding next_m .
    show "map_of (lg_runtime m) (lg_next_runtime_token m + 1 + of_nat k) = None"
      using Suc.prems(3) unfolding next_m run .
  qed
  moreover have "next_runtime_token l = next_runtime_token m"
    using Suc.prems(1) by (subst next_runtime_token.simps) (auto simp: m_def Let_def dest: spec [of _ 0])
  moreover have "m\<lparr>lg_next_runtime_token := x\<rparr> = l\<lparr>lg_next_runtime_token := x\<rparr>" for x
    by (simp add: m_def)
  ultimately show ?case unfolding next_m by simp
qed

lemma token_exists:
  fixes n :: u64 and S :: "u64 set"
  assumes "finite S" and "card S < 2 ^ 64"
  shows "\<exists>k. n + of_nat k \<notin> S"
proof (rule ccontr)
  assume "\<not> ?thesis"
  then have "\<forall>k. n + of_nat k \<in> S" by blast
  then have "t \<in> S" for t
  proof -
    have "n + of_nat (unat (t - n)) = t" by simp
    then show ?thesis using \<open>\<forall>k. n + of_nat k \<in> S\<close> by metis
  qed
  then have "S = UNIV" by blast
  then have "card S = 2 ^ 64" by (simp add: card_word)
  with assms(2) show False by simp
qed

lemma next_runtime_token_fresh:
  assumes "length (lg_runtime l) < 2 ^ 64 - 1"
  obtains t where "next_runtime_token l = Some (t, l\<lparr>lg_next_runtime_token := t\<rparr>)"
    and "t \<noteq> 0" and "map_of (lg_runtime l) t = None"
proof -
  define P where "P k \<longleftrightarrow> lg_next_runtime_token l + 1 + of_nat k \<noteq> 0
      \<and> map_of (lg_runtime l) (lg_next_runtime_token l + 1 + of_nat k) = None" for k :: nat
  let ?S = "insert 0 (set (map fst (lg_runtime l)))"
  have "card ?S \<le> Suc (length (lg_runtime l))"
    by (metis card_insert_le_m1 card_length diff_Suc_1 length_map zero_less_Suc le_SucI card_insert_if finite_set Suc_le_mono)
  then have "card ?S < 2 ^ 64" using assms by simp
  then obtain k where "lg_next_runtime_token l + 1 + of_nat k \<notin> ?S" using token_exists [of ?S] by blast
  then have "P k" by (simp add: P_def map_of_eq_None_iff)
  define j where "j = (LEAST k. P k)"
  have j: "P j" using \<open>P k\<close> unfolding j_def by (rule LeastI)
  have "\<forall>i < j. \<not> P i" unfolding j_def by (auto dest: not_less_Least)
  with j token_found [of j l] that show thesis unfolding P_def by blast
qed

section \<open>Counts per owner\<close>

text \<open>
  A claim in flight holds the lifecycle lock of its identifier and one reservation; \<open>f\<close> maps the
  identifiers of the claims in flight to their owners.
\<close>

type_synonym in_flight = "sandbox_id \<rightharpoonup> key_fingerprint"

definition count_of :: "(key_fingerprint \<rightharpoonup> nat) \<Rightarrow> key_fingerprint \<Rightarrow> nat" where
  "count_of counts owner = (case counts owner of None \<Rightarrow> 0 | Some n \<Rightarrow> n)"

definition owned :: "(sandbox_id, metadata) btree_map \<Rightarrow> key_fingerprint \<Rightarrow> sandbox_id set" where
  "owned records owner = {i. \<exists>m. bt_get records i = Some m \<and> md_owner m = owner}"

definition claiming :: "in_flight \<Rightarrow> key_fingerprint \<Rightarrow> sandbox_id set" where
  "claiming f owner = {i. f i = Some owner}"

definition accounts_ok :: "in_flight \<Rightarrow> mem_ledger \<Rightarrow> bool" where
  "accounts_ok f l \<longleftrightarrow> bt_sorted (lg_records l) \<and> finite (dom f) \<and> dom f \<inter> bt_keys (lg_records l) = {}
     \<and> lg_reserved_sandboxes l = card (dom f)
     \<and> (\<forall>owner. count_of (lg_owner_counts l) owner = card (owned (lg_records l) owner) + card (claiming f owner))
     \<and> (\<forall>owner. lg_owner_counts l owner \<noteq> Some 0)"

lemma accounts_okI:
  assumes "bt_sorted (lg_records l)" and "finite (dom f)" and "dom f \<inter> bt_keys (lg_records l) = {}"
    and "lg_reserved_sandboxes l = card (dom f)"
    and "\<And>owner. count_of (lg_owner_counts l) owner = card (owned (lg_records l) owner) + card (claiming f owner)"
    and "\<And>owner. lg_owner_counts l owner \<noteq> Some 0"
  shows "accounts_ok f l"
  unfolding accounts_ok_def by (intro conjI allI assms)

lemma accounts_okD:
  assumes "accounts_ok f l"
  shows "bt_sorted (lg_records l)" and "finite (dom f)" and "dom f \<inter> bt_keys (lg_records l) = {}"
    and "lg_reserved_sandboxes l = card (dom f)"
    and "count_of (lg_owner_counts l) owner = card (owned (lg_records l) owner) + card (claiming f owner)"
    and "\<forall>owner. lg_owner_counts l owner \<noteq> Some 0"
  using assms unfolding accounts_ok_def by blast+

lemma accounts_ok_default: "accounts_ok Map.empty ledger_default"
  by (simp add: accounts_ok_def ledger_default_def count_of_def owned_def claiming_def)

lemma accounts_ok_cong:
  assumes "lg_records m = lg_records l" and "lg_owner_counts m = lg_owner_counts l"
    and "lg_reserved_sandboxes m = lg_reserved_sandboxes l"
  shows "accounts_ok f m = accounts_ok f l"
  using assms by (simp add: accounts_ok_def)

lemma count_increment: "count_of (increment_owner owner c) x = count_of c x + (if x = owner then 1 else 0)"
  by (auto simp: count_of_def increment_owner_def)

lemma count_decrement:
  "c owner \<noteq> Some 0 \<Longrightarrow> count_of (decrement_owner owner c) x = count_of c x - (if x = owner then 1 else 0)"
  by (auto simp: count_of_def decrement_owner_def Let_def split: option.splits)

lemma no_zero_increment: "\<forall>x. c x \<noteq> Some 0 \<Longrightarrow> increment_owner owner c x \<noteq> Some 0"
  by (auto simp: increment_owner_def)

lemma no_zero_decrement: "\<forall>x. c x \<noteq> Some 0 \<Longrightarrow> decrement_owner owner c x \<noteq> Some 0"
  by (auto simp: decrement_owner_def Let_def split: option.splits)

lemma finite_owned: "finite (owned records owner)"
proof -
  have "owned records owner \<subseteq> bt_keys records" 
    by (auto simp: owned_def) (metis bt_get_None option.distinct(1))
  then show ?thesis by (rule finite_subset) (simp add: bt_keys_def)
qed

lemma finite_claiming: "finite (dom f) \<Longrightarrow> finite (claiming f owner)"
  by (erule finite_subset [rotated]) (auto simp: claiming_def)

lemma owned_insert:
  "owned (bt_insert i m r) owner = (if md_owner m = owner then insert i (owned r owner) else owned r owner - {i})"
  by (auto simp: owned_def bt_get_insert)

lemma owned_remove: "bt_sorted r \<Longrightarrow> owned (bt_remove i r) owner = owned r owner - {i}"
  by (auto simp: owned_def bt_get_remove)

lemma claiming_update:
  "claiming (f(i \<mapsto> x)) owner = (if x = owner then insert i (claiming f owner) else claiming f owner - {i})"
  "claiming (f(i := None)) owner = claiming f owner - {i}"
  by (auto simp: claiming_def)

lemmas account_simps = count_increment count_decrement owned_insert owned_remove claiming_update
  bt_sorted_insert bt_sorted_remove no_zero_increment no_zero_decrement

lemma not_owned: "i \<notin> bt_keys r \<Longrightarrow> i \<notin> owned r owner"
  by (auto simp: owned_def bt_get_None [symmetric])

lemma reserve_accounts:
  assumes ok: "accounts_ok f l" and i: "i \<notin> dom f" "\<not> has_record i l"
    and r: "reserve_sandbox c owner l = (Inr (), l')"
  shows "accounts_ok (f(i \<mapsto> owner)) l'"
proof -
  have l': "l' = l\<lparr>lg_reserved_sandboxes := lg_reserved_sandboxes l + 1,
      lg_owner_counts := increment_owner owner (lg_owner_counts l)\<rparr>"
    using r by (simp add: reserve_sandbox_def split: if_splits)
  have keys: "i \<notin> bt_keys (lg_records l)" using i(2) by (simp add: has_record_def bt_get_None)
  have fresh: "i \<notin> claiming f x" for x using i(1) by (auto simp: claiming_def)
  note ok = accounts_okD [OF ok]
  have fin: "finite (claiming f x)" for x using ok(2) by (rule finite_claiming)
  show ?thesis
  proof (rule accounts_okI)
    fix x
    show "count_of (lg_owner_counts l') x = card (owned (lg_records l') x) + card (claiming (f(i \<mapsto> owner)) x)"
      using ok(5) [of x] fresh [of x] fin [of x] by (auto simp: l' count_increment claiming_update)
    show "lg_owner_counts l' x \<noteq> Some 0" using no_zero_increment [OF ok(6)] by (simp add: l')
  qed (use ok(1-4) i(1) keys in \<open>auto simp: l'\<close>)
qed

lemma insert_reserved_accounts:
  assumes ok: "accounts_ok f l" and i: "f (md_id m) = Some (md_owner m)"
  shows "accounts_ok (f(md_id m := None)) (insert_reserved m l)"
proof -
  have keys: "md_id m \<notin> bt_keys (lg_records l)" using ok i by (auto simp: accounts_ok_def)
  have count: "card (owned (bt_insert (md_id m) m (lg_records l)) x) + card (claiming (f(md_id m := None)) x)
      = card (owned (lg_records l) x) + card (claiming f x)" for x
  proof (cases "x = md_owner m")
    case True
    then have "md_id m \<in> claiming f x" using i by (simp add: claiming_def)
    moreover have "finite (claiming f x)" using ok by (simp add: accounts_ok_def finite_claiming)
    ultimately have "card (claiming f x) > 0" "card (claiming f x - {md_id m}) = card (claiming f x) - 1"
      by (auto simp: card_gt_0_iff)
    with True show ?thesis by (simp add: owned_insert claiming_update(2) finite_owned not_owned [OF keys])
  next
    case False
    then have "md_id m \<notin> claiming f x" using i by (simp add: claiming_def)
    with False show ?thesis by (simp add: owned_insert claiming_update(2) not_owned [OF keys])
  qed
  note ok' = accounts_okD [OF ok]
  show ?thesis
  proof (rule accounts_okI)
    fix x
    show "count_of (lg_owner_counts (insert_reserved m l)) x = card (owned (lg_records (insert_reserved m l)) x)
        + card (claiming (f(md_id m := None)) x)"
      using ok'(5) [of x] count [of x] by (simp add: insert_reserved_def)
    show "lg_owner_counts (insert_reserved m l) x \<noteq> Some 0" using ok'(6) by (simp add: insert_reserved_def)
    show "lg_reserved_sandboxes (insert_reserved m l) = card (dom (f(md_id m := None)))"
      using ok'(2,4) i by (simp add: insert_reserved_def domI)
  qed (use ok'(1-3) in \<open>auto simp: insert_reserved_def bt_sorted_insert\<close>)
qed

lemma release_accounts:
  assumes ok: "accounts_ok f l" and i: "f i = Some owner"
  shows "accounts_ok (f(i := None)) (release_sandbox owner l)"
proof -
  have count: "card (claiming (f(i := None)) x) = card (claiming f x) - (if x = owner then 1 else 0)" for x
    using i by (auto simp: claiming_update) (auto simp: claiming_def)
  have "i \<in> claiming f owner" using i by (simp add: claiming_def)
  then have "card (claiming f owner) \<noteq> 0"
    using ok finite_claiming [of f owner] by (auto simp: accounts_ok_def)
  then have pos: "card (claiming f owner) > 0" by simp
  note ok' = accounts_okD [OF ok]
  show ?thesis
  proof (rule accounts_okI)
    fix x
    show "count_of (lg_owner_counts (release_sandbox owner l)) x = card (owned (lg_records (release_sandbox owner l)) x)
        + card (claiming (f(i := None)) x)"
      using ok'(5) [of x] ok'(6) count [of x] pos by (auto simp: release_sandbox_def count_decrement)
    show "lg_owner_counts (release_sandbox owner l) x \<noteq> Some 0"
      using no_zero_decrement [OF ok'(6)] by (simp add: release_sandbox_def)
    show "lg_reserved_sandboxes (release_sandbox owner l) = card (dom (f(i := None)))"
      using ok'(2,4) i by (simp add: release_sandbox_def domI)
  qed (use ok'(1-3) in \<open>auto simp: release_sandbox_def\<close>)
qed

lemma remove_entry_accounts:
  assumes ok: "accounts_ok f l" and m: "bt_get (lg_records l) i = Some m"
  shows "accounts_ok f (l\<lparr>lg_records := bt_remove i (lg_records l),
    lg_owner_counts := decrement_owner (md_owner m) (lg_owner_counts l)\<rparr>)"
proof -
  note ok' = accounts_okD [OF ok]
  have count: "card (owned (lg_records l) x - {i}) = card (owned (lg_records l) x) - (if x = md_owner m then 1 else 0)" for x
    using m by (auto simp: owned_def)
  have "i \<in> owned (lg_records l) (md_owner m)" using m by (simp add: owned_def)
  then have "card (owned (lg_records l) (md_owner m)) \<noteq> 0" using finite_owned by auto
  then have pos: "card (owned (lg_records l) (md_owner m)) > 0" by simp
  let ?l = "l\<lparr>lg_records := bt_remove i (lg_records l),
    lg_owner_counts := decrement_owner (md_owner m) (lg_owner_counts l)\<rparr>"
  show ?thesis
  proof (rule accounts_okI)
    fix x
    show "count_of (lg_owner_counts ?l) x = card (owned (lg_records ?l) x) + card (claiming f x)"
      using ok'(1) ok'(5) [of x] ok'(6) count [of x] pos by (auto simp: count_decrement owned_remove)
    show "lg_owner_counts ?l x \<noteq> Some 0" using no_zero_decrement [OF ok'(6)] by simp
  qed (use ok'(1-4) in \<open>auto simp: bt_sorted_remove\<close>)
qed

lemma fst_drop_token: "fst (drop_token t l) = snd (remove_runtime t l)"
  by (simp add: drop_token_def split: prod.splits option.splits)

lemma drop_token_fields:
  "lg_records (fst (drop_token t l)) = lg_records l" "lg_owner_counts (fst (drop_token t l)) = lg_owner_counts l"
  "lg_reserved_sandboxes (fst (drop_token t l)) = lg_reserved_sandboxes l"
  "lg_blocked (fst (drop_token t l)) = lg_blocked l"
  by (auto simp: drop_token_def remove_runtime_def split: option.splits)

lemma drop_token_index: "index_ok l \<Longrightarrow> index_ok (fst (drop_token t l))"
  by (simp add: fst_drop_token remove_runtime_index)

lemma remove_record_accounts:
  assumes "accounts_ok f l"
  shows "accounts_ok f (fst (remove_record_from_ledger i l))"
proof -
  have "accounts_ok f (fst (for_log ts drop_token m))" if "accounts_ok f m" for ts m
    by (rule for_log_inv [where I = "accounts_ok f"])
      (simp_all add: that accounts_ok_cong [OF drop_token_fields(1,2,3)])
  then show ?thesis using assms remove_entry_accounts [OF assms]
    by (auto simp: remove_record_from_ledger_def Let_def split: option.splits)
qed

lemma remove_record_index:
  assumes "index_ok l"
  shows "index_ok (fst (remove_record_from_ledger i l))"
proof -
  have "index_ok (fst (for_log ts drop_token m))" if "index_ok m" for ts m
    by (rule for_log_inv [where I = index_ok]) (simp_all add: that drop_token_index)
  then show ?thesis using assms
    by (auto simp: remove_record_from_ledger_def Let_def split: option.splits)
qed

section \<open>The tokens a step leaves\<close>

lemma drop_token_tokens: "index_ok l \<Longrightarrow> tokens_of (fst (drop_token t l)) i = tokens_of l i - {t}"
  by (simp add: fst_drop_token remove_runtime_index)

lemma drop_tokens_tokens:
  "index_ok l \<Longrightarrow> tokens_of (fst (for_log ts drop_token l)) i = tokens_of l i - set ts"
proof (induction ts arbitrary: l)
  case Nil
  then show ?case by simp
next
  case (Cons t ts)
  have "tokens_of (fst (for_log (t # ts) drop_token l)) i = tokens_of (fst (drop_token t l)) i - set ts"
    unfolding fst_for_log by (rule Cons.IH [OF drop_token_index [OF Cons.prems]])
  also have "\<dots> = tokens_of l i - set (t # ts)" unfolding drop_token_tokens [OF Cons.prems] by auto
  finally show ?case .
qed

lemma drop_tokens_fields:
  "lg_records (fst (for_log ts drop_token l)) = lg_records l"
  "lg_blocked (fst (for_log ts drop_token l)) = lg_blocked l"
  by (rule for_log_inv [where I = "\<lambda>m. lg_records m = lg_records l"], simp_all add: drop_token_fields)
    (rule for_log_inv [where I = "\<lambda>m. lg_blocked m = lg_blocked l"], simp_all add: drop_token_fields)

lemma remove_record_tokens:
  assumes "index_ok l"
  shows "tokens_of (fst (remove_record_from_ledger i l)) j = (if j = i then {} else tokens_of l j)"
proof -
  define m where "m = (case bt_get (lg_records l) i of None \<Rightarrow> l
    | Some r \<Rightarrow> l\<lparr>lg_records := bt_remove i (lg_records l),
        lg_owner_counts := decrement_owner (md_owner r) (lg_owner_counts l)\<rparr>)"
  have m: "index_ok m" "tokens_of m j = tokens_of l j" "runtime_tokens_for m i = runtime_tokens_for l i" for j
    using assms by (simp_all add: m_def split: option.splits)
  have "tokens_of l j \<inter> tokens_of l i = (if j = i then tokens_of l i else {})" by (auto simp: tokens_of_def)
  with drop_tokens_tokens [OF m(1)] index_tokens [OF assms, of i] m(2,3) show ?thesis
    by (auto simp: remove_record_from_ledger_def m_def [symmetric] Let_def)
qed

lemma remove_record_records:
  "bt_sorted (lg_records l) \<Longrightarrow>
     bt_get (lg_records (fst (remove_record_from_ledger i l))) = (bt_get (lg_records l))(i := None)"
  by (auto simp: remove_record_from_ledger_def Let_def drop_tokens_fields bt_get_remove split: option.splits)

section \<open>Every interleaving of critical sections\<close>

text \<open>
  The steps of the threads that share the memory. Claims and deletions of one identifier hold its
  lifecycle lock, so no other claim or deletion of that identifier is in flight; launches,
  cancellations and the end of a process take no lifecycle lock.
\<close>

inductive mem_step :: "caps \<Rightarrow> in_flight \<times> mem_ledger \<Rightarrow> in_flight \<times> mem_ledger \<Rightarrow> bool" for c where
  scan: "mem_step c (Map.empty, l) (Map.empty, fst (reconcile_scan r l))"
| reserve: "i \<notin> dom f \<Longrightarrow> \<not> has_record i l \<Longrightarrow> reserve_sandbox c owner l = (Inr (), l') \<Longrightarrow>
    mem_step c (f, l) (f(i \<mapsto> owner), l')"
| publish: "f (md_id m) = Some (md_owner m) \<Longrightarrow>
    mem_step c (f, l) (f(md_id m := None), insert_reserved m l)"
| abort: "f i = Some owner \<Longrightarrow> mem_step c (f, l) (f(i := None), release_sandbox owner l)"
| noted: "i \<notin> dom f \<Longrightarrow> note_valid_record i m l = (b, l', ps) \<Longrightarrow> mem_step c (f, l) (f, l')"
| corrupt: "mem_step c (f, l) (f, fst (note_corrupt i l))"
| replace: "bt_get (lg_records l) (md_id m) = Some old \<Longrightarrow> md_owner old = md_owner m \<Longrightarrow>
    mem_step c (f, l) (f, replace_record m l)"
| remove: "mem_step c (f, l) (f, fst (remove_record_from_ledger i l))"
| launch: "begin_launch c frozen i owner l = Some (res, l') \<Longrightarrow> mem_step c (f, l) (f, l')"
| commit: "commit_launch durable lease p l = (b, l') \<Longrightarrow> mem_step c (f, l) (f, l')"
| clear: "mem_step c (f, l) (f, clear_runtime reaped lease l)"
| cancel: "mem_step c (f, l) (f, fst (mark_cancelled t l))"
| reap: "mem_step c (f, l) (f, snd (remove_runtime t l))"

inductive_cases mem_stepE: "mem_step c (f, l) (g, m)"

text \<open>
  The invariant: exact counts, an exact index, at most the configured number of launches of a
  sandbox, and no process of a sandbox without a record.
\<close>

definition launches_ok :: "caps \<Rightarrow> mem_ledger \<Rightarrow> bool" where
  "launches_ok c l \<longleftrightarrow> (\<forall>i. card (tokens_of l i) \<le> unat (max_concurrent_launches_per_sandbox c)
     \<and> (tokens_of l i \<noteq> {} \<longrightarrow> has_record i l))"

definition mem_ok :: "caps \<Rightarrow> in_flight \<times> mem_ledger \<Rightarrow> bool" where
  "mem_ok c x \<longleftrightarrow> accounts_ok (fst x) (snd x) \<and> index_ok (snd x) \<and> launches_ok c (snd x)"

lemma mem_ok_default: "mem_ok c (Map.empty, ledger_default)"
  by (simp add: mem_ok_def accounts_ok_default index_ok_default launches_ok_def)
    (simp add: tokens_of_def ledger_default_def)

lemma finite_tokens: "finite (tokens_of l i)"
proof (rule finite_subset)
  show "tokens_of l i \<subseteq> set (map fst (lg_runtime l))"
    by (auto simp: tokens_of_def dest: map_of_SomeD intro: rev_image_eqI)
qed simp

lemma launches_ok_mono:
  assumes "launches_ok c l" and "\<And>i. tokens_of m i \<subseteq> tokens_of l i"
    and "\<And>i. tokens_of m i \<noteq> {} \<Longrightarrow> has_record i l \<Longrightarrow> has_record i m"
  shows "launches_ok c m"
proof -
  have le: "card (tokens_of m i) \<le> card (tokens_of l i)" for i
    by (rule card_mono [OF finite_tokens assms(2)])
  have l: "card (tokens_of l i) \<le> unat (max_concurrent_launches_per_sandbox c)"
    "tokens_of l i \<noteq> {} \<Longrightarrow> has_record i l" for i
    using assms(1) by (simp_all add: launches_ok_def)
  have "has_record i m" if "tokens_of m i \<noteq> {}" for i
    using that assms(2) [of i] by (intro assms(3) l(2)) auto
  with le_trans [OF le l(1)] show ?thesis by (simp add: launches_ok_def)
qed

lemma has_record_update [simp]:
  "has_record i (l\<lparr>lg_blocked := b\<rparr>) = has_record i l"
  "has_record i (l\<lparr>lg_unknown_entries := n\<rparr>) = has_record i l"
  "has_record i (l\<lparr>lg_owner_counts := k\<rparr>) = has_record i l"
  "has_record i (l\<lparr>lg_reserved_sandboxes := n\<rparr>) = has_record i l"
  "has_record i (l\<lparr>lg_next_runtime_token := t\<rparr>) = has_record i l"
  "has_record i (l\<lparr>lg_runtime := u\<rparr>) = has_record i l"
  "has_record i (l\<lparr>lg_runtime_by_sandbox := w\<rparr>) = has_record i l"
  "has_record i (l\<lparr>lg_records := bt_insert j m (lg_records l)\<rparr>) = (i = j \<or> has_record i l)"
  by (simp_all add: has_record_def bt_get_insert)

lemma accounts_update [simp]:
  "accounts_ok f (l\<lparr>lg_blocked := b\<rparr>) = accounts_ok f l"
  "accounts_ok f (l\<lparr>lg_unknown_entries := n\<rparr>) = accounts_ok f l"
  "accounts_ok f (l\<lparr>lg_next_runtime_token := t\<rparr>) = accounts_ok f l"
  "accounts_ok f (l\<lparr>lg_runtime := u\<rparr>) = accounts_ok f l"
  "accounts_ok f (l\<lparr>lg_runtime_by_sandbox := w\<rparr>) = accounts_ok f l"
  by (simp_all add: accounts_ok_def)

lemma launches_update [simp]:
  "launches_ok c (l\<lparr>lg_blocked := b\<rparr>) = launches_ok c l"
  "launches_ok c (l\<lparr>lg_unknown_entries := n\<rparr>) = launches_ok c l"
  "launches_ok c (l\<lparr>lg_owner_counts := k\<rparr>) = launches_ok c l"
  "launches_ok c (l\<lparr>lg_reserved_sandboxes := n\<rparr>) = launches_ok c l"
  "launches_ok c (l\<lparr>lg_next_runtime_token := t\<rparr>) = launches_ok c l"
  by (simp_all add: launches_ok_def)

lemma launches_insert: "launches_ok c l \<Longrightarrow> launches_ok c (l\<lparr>lg_records := bt_insert j m (lg_records l)\<rparr>)"
  by (erule launches_ok_mono) simp_all

lemma remove_record_ok:
  assumes "mem_ok c (f, l)"
  shows "mem_ok c (f, fst (remove_record_from_ledger i l))"
proof -
  have ok: "accounts_ok f l" "index_ok l" "launches_ok c l" using assms by (simp_all add: mem_ok_def)
  have "launches_ok c (fst (remove_record_from_ledger i l))"
    by (rule launches_ok_mono [OF ok(3)])
      (auto simp: remove_record_tokens [OF ok(2)] has_record_def remove_record_records [OF accounts_okD(1) [OF ok(1)]]
        split: if_splits)
  with ok show ?thesis by (simp add: mem_ok_def remove_record_accounts remove_record_index)
qed

lemma block_ok: "mem_ok c (f, block i l) = mem_ok c (f, l)"
  by (simp add: mem_ok_def block_def)

lemma replace_accounts:
  assumes ok: "accounts_ok f l" and old: "bt_get (lg_records l) i = Some old" "md_owner old = md_owner m"
  shows "accounts_ok f (l\<lparr>lg_records := bt_insert i m (lg_records l)\<rparr>)"
proof -
  note ok' = accounts_okD [OF ok]
  have "i \<in> bt_keys (lg_records l)" using old(1) bt_get_None [of "lg_records l" i] by auto
  then have keys: "bt_keys (bt_insert i m (lg_records l)) = bt_keys (lg_records l)" by auto
  have "owned (bt_insert i m (lg_records l)) x = owned (lg_records l) x" for x
    using old by (auto simp: owned_def bt_get_insert)
  with ok' keys show ?thesis by (intro accounts_okI) (simp_all add: bt_sorted_insert)
qed

lemma new_record_accounts:
  assumes ok: "accounts_ok f l" and i: "i \<notin> dom f" "bt_get (lg_records l) i = None"
  shows "accounts_ok f (l\<lparr>lg_records := bt_insert i m (lg_records l),
    lg_owner_counts := increment_owner (md_owner m) (lg_owner_counts l)\<rparr>)" (is "accounts_ok f ?l")
proof -
  note ok' = accounts_okD [OF ok]
  have "i \<notin> bt_keys (lg_records l)" using i(2) by (simp add: bt_get_None)
  then have fresh: "i \<notin> owned (lg_records l) x" for x by (rule not_owned)
  show ?thesis
  proof (rule accounts_okI)
    fix x
    show "count_of (lg_owner_counts ?l) x = card (owned (lg_records ?l) x) + card (claiming f x)"
      using ok'(5) [of x] fresh [of x] by (simp add: count_increment owned_insert finite_owned)
    show "lg_owner_counts ?l x \<noteq> Some 0" using no_zero_increment [OF ok'(6)] by simp
  qed (use ok'(1-4) i(1) in \<open>auto simp: bt_sorted_insert\<close>)
qed

lemma record_counts_commute:
  "l\<lparr>lg_owner_counts := k, lg_records := r\<rparr> = l\<lparr>lg_records := r, lg_owner_counts := k\<rparr>"
  by simp

lemma note_valid_record_ok:
  assumes ok: "mem_ok c (f, l)" and i: "i \<notin> dom f"
  shows "mem_ok c (f, fst (snd (note_valid_record i m l)))"
proof (cases "bt_get (lg_records l) i")
  case None
  then show ?thesis using ok new_record_accounts [of f l i m] i launches_insert [of c l i m]
    by (simp add: note_valid_record_def mem_ok_def record_counts_commute)
next
  case (Some old)
  show ?thesis
  proof (cases "same_identity old m")
    case True
    then have "md_owner old = md_owner m" by (simp add: same_identity_def)
    with Some True ok replace_accounts [of f l i old m] launches_insert [of c l i m] show ?thesis
      by (simp add: note_valid_record_def mem_ok_def)
  next
    case False
    with Some ok remove_record_ok [OF ok, of i] show ?thesis
      by (simp add: note_valid_record_def block_ok case_prod_unfold)
  qed
qed

lemma note_corrupt_ok: "mem_ok c (f, l) \<Longrightarrow> mem_ok c (f, fst (note_corrupt i l))"
  using remove_record_ok [of c f l i] by (simp add: note_corrupt_def block_ok case_prod_unfold)

lemma adopt_record_ok:
  assumes ok: "mem_ok c (f, l)" and i: "i \<notin> dom f"
  shows "mem_ok c (f, fst (adopt_record i m l))"
proof (cases "bt_get (lg_records l) i")
  case None
  then show ?thesis using ok new_record_accounts [of f l i m] i launches_insert [of c l i m]
    by (simp add: adopt_record_def mem_ok_def)
next
  case (Some old)
  show ?thesis
  proof (cases "same_identity old m")
    case True
    then have "md_owner old = md_owner m" by (simp add: same_identity_def)
    with Some True ok replace_accounts [of f l i old m] launches_insert [of c l i m] show ?thesis
      by (simp add: adopt_record_def mem_ok_def)
  next
    case False
    with Some ok remove_record_ok [OF ok, of i] show ?thesis
      by (simp add: adopt_record_def block_ok case_prod_unfold)
  qed
qed

lemma reconcile_scan_ok:
  assumes "mem_ok c (Map.empty, l)"
  shows "mem_ok c (Map.empty, fst (reconcile_scan r l))"
proof -
  let ?I = "\<lambda>l. mem_ok c (Map.empty, l)"
  have entry: "?I (fst (reconcile_entry x m))" if "?I m" for x m
    using that remove_record_ok [OF that] adopt_record_ok [OF that]
    by (cases x) (simp add: reconcile_entry_def block_ok case_prod_unfold split: entry.splits)
  have "?I (l\<lparr>lg_unknown_entries := sr_unknown_entries r\<rparr>)" using assms by (simp add: mem_ok_def)
  from for_log_inv [where I = ?I, OF _ this] entry
  have "?I (fst (for_log (sr_entries r) reconcile_entry (l\<lparr>lg_unknown_entries := sr_unknown_entries r\<rparr>)))" .
  then have "?I (fst (for_log ids remove_record_from_ledger
      (fst (for_log (sr_entries r) reconcile_entry (l\<lparr>lg_unknown_entries := sr_unknown_entries r\<rparr>)))))" for ids
    by (rule for_log_inv [where I = ?I, rotated]) (rule remove_record_ok)
  then show ?thesis by (simp add: reconcile_scan_def Let_def case_prod_unfold)
qed

lemma next_runtime_token_Some:
  assumes "next_runtime_token l = Some y"
  shows "fst y \<noteq> 0 \<and> map_of (lg_runtime l) (fst y) = None \<and> snd y = l\<lparr>lg_next_runtime_token := fst y\<rparr>"
  by (rule next_runtime_token.raw_induct [OF _ assms]) (fastforce simp: Let_def split: if_splits)

lemma insert_runtime_fields:
  "accounts_ok f (insert_runtime t e l) = accounts_ok f l" "has_record i (insert_runtime t e l) = has_record i l"
  by (simp_all add: insert_runtime_def)

lemma begin_launch_ok:
  assumes ok: "mem_ok c (f, l)" and b: "begin_launch c frozen i owner l = Some (res, l')"
  shows "mem_ok c (f, l')"
proof (cases "next_runtime_token l")
  case None
  with ok b show ?thesis by (auto simp: begin_launch_def split: if_splits option.splits)
next
  case (Some y)
  obtain t where y: "y = (t, l\<lparr>lg_next_runtime_token := t\<rparr>)" and fresh: "map_of (lg_runtime l) t = None"
    using next_runtime_token_Some [OF Some] by (cases y) auto
  define e where "e = \<lparr>re_sandbox_id = i, re_marker = Launching, re_cancelled = False, re_process = None\<rparr>"
  define m where "m = l\<lparr>lg_next_runtime_token := t\<rparr>"
  have m: "index_ok m" "map_of (lg_runtime m) t = None" "tokens_of m j = tokens_of l j" "has_record j m = has_record j l" for j
    using ok fresh by (simp_all add: m_def mem_ok_def)
  consider "l' = l" | "l' = insert_runtime t e m" "has_record i l"
      "length (runtime_tokens_for l i) < unat (max_concurrent_launches_per_sandbox c)"
    using b Some y by (auto simp: begin_launch_def has_record_def e_def m_def split: if_splits option.splits)
  then show ?thesis
  proof cases
    case 1
    with ok show ?thesis by simp
  next
    case 2
    have "card (tokens_of l i) = length (runtime_tokens_for l i)"
      using ok by (metis distinct_card index_ok_def mem_ok_def snd_conv)
    then have "card (insert t (tokens_of l i)) \<le> unat (max_concurrent_launches_per_sandbox c)"
      using 2(3) card_insert_le_m1 [of "unat (max_concurrent_launches_per_sandbox c)" "tokens_of l i" t] by auto
    then have "launches_ok c l'"
      using ok 2(2) insert_runtime_index(2) [OF m(1,2), of e] m(3,4)
      by (auto simp: launches_ok_def 2(1) insert_runtime_fields mem_ok_def e_def)
    with ok insert_runtime_index(1) [OF m(1,2)] 2(1) show ?thesis
      by (simp add: mem_ok_def insert_runtime_fields m_def)
  qed
qed

lemma set_entry_ok:
  assumes "mem_ok c (f, l)" and "map_of (lg_runtime l) t = Some e" and "re_sandbox_id e' = re_sandbox_id e"
  shows "mem_ok c (f, set_entry t e' l)"
proof -
  have "launches_ok c (set_entry t e' l)"
    using assms set_entry_index(2) [of l t e e'] by (simp add: launches_ok_def mem_ok_def) (simp add: set_entry_def)
  with assms set_entry_index(1) [of l t e e'] show ?thesis
    by (simp add: mem_ok_def) (simp add: set_entry_def)
qed

lemma commit_launch_ok:
  "mem_ok c (f, l) \<Longrightarrow> commit_launch d lease p l = (b, l') \<Longrightarrow> mem_ok c (f, l')"
  by (auto simp: commit_launch_def Let_def split: option.splits if_splits intro!: set_entry_ok)

lemma mark_cancelled_ok: "mem_ok c (f, l) \<Longrightarrow> mem_ok c (f, fst (mark_cancelled t l))"
  by (auto simp: mark_cancelled_def split: option.splits intro!: set_entry_ok)

lemma remove_runtime_ok:
  assumes "mem_ok c (f, l)"
  shows "mem_ok c (f, snd (remove_runtime t l))"
proof -
  have l: "accounts_ok f l" "index_ok l" "launches_ok c l" using assms by (simp_all add: mem_ok_def)
  have "accounts_ok f (snd (remove_runtime t l))" "has_record i (snd (remove_runtime t l)) = has_record i l" for i
    using l(1) by (simp_all add: remove_runtime_def split: option.splits)
  with l remove_runtime_index [OF l(2)] launches_ok_mono [OF l(3), of "snd (remove_runtime t l)"] show ?thesis
    by (simp add: mem_ok_def)
qed

lemma clear_runtime_ok: "mem_ok c (f, l) \<Longrightarrow> mem_ok c (f, clear_runtime reaped lease l)"
  by (auto simp: clear_runtime_def remove_runtime_ok split: option.splits)

lemma reserve_records: "reserve_sandbox c owner l = (r, l') \<Longrightarrow>
    index_ok l' = index_ok l \<and> launches_ok c' l' = launches_ok c' l"
  by (auto simp: reserve_sandbox_def split: if_splits)

lemma mem_step_ok: "mem_step c x y \<Longrightarrow> mem_ok c x \<Longrightarrow> mem_ok c y"
proof (induction rule: mem_step.induct)
  case (reserve i f l owner l')
  then show ?case using reserve_accounts [of f l i c owner l'] reserve_records [of c owner l "Inr ()" l' c]
    by (simp add: mem_ok_def)
next
  case (publish f m l)
  then show ?case using insert_reserved_accounts [of f l m]
      launches_insert [of c "l\<lparr>lg_reserved_sandboxes := lg_reserved_sandboxes l - 1\<rparr>" "md_id m" m]
    by (simp add: mem_ok_def) (simp add: insert_reserved_def)
next
  case (abort f i owner l)
  then show ?case using release_accounts [of f l i owner] by (simp add: mem_ok_def) (simp add: release_sandbox_def)
next
  case (replace l m old f)
  then show ?case using replace_accounts [of f l "md_id m" old m] launches_insert [of c l "md_id m" m]
    by (simp add: mem_ok_def replace_record_def)
next
  case (noted i f m l b l' ps)
  then show ?case using note_valid_record_ok [of c f l i m] by simp
next
  case (launch frozen i owner l res l' f)
  from launch(2,1) show ?case by (rule begin_launch_ok)
next
  case (commit durable lease p l b l' f)
  from commit(2,1) show ?case by (rule commit_launch_ok)
qed (simp_all add: reconcile_scan_ok note_corrupt_ok remove_record_ok clear_runtime_ok mark_cancelled_ok remove_runtime_ok)

lemma mem_steps_ok: "(mem_step c)\<^sup>*\<^sup>* x y \<Longrightarrow> mem_ok c x \<Longrightarrow> mem_ok c y"
  by (induction rule: rtranclp_induct) (simp_all add: mem_step_ok)

end
