(* ===== verification/Storage_Removal.thy ===== *)
theory Storage_Removal
  imports Storage
begin

text \<open>
  What removing the contents of a sandbox directory does (\<open>remove_children\<close>): the recursion ends,
  on success everything but the metadata file of the directory itself is gone, and on failure the
  tree is only pruned, below that directory, with the metadata file still there.
\<close>

section \<open>Updates of one directory\<close>

lemma update_dir_compose: "update_dir g p (update_dir f p n) = update_dir (\<lambda>cs. g (f cs)) p n"
  by (induction f p n rule: update_dir.induct) (auto simp: case_prod_beta comp_def)

lemma updated_compose: "updated p g (updated p f r) = updated p (\<lambda>cs. g (f cs)) r"
  by (cases r) (simp_all add: update_dir_compose)

lemma updated_id: "updated p (\<lambda>cs. cs) r = r"
proof -
  have "update_dir (\<lambda>cs. cs) p n = n" for n
    by (induction "\<lambda>cs :: dirents. cs" p n rule: update_dir.induct) (auto intro!: map_idI)
  then show ?thesis by (cases r) simp_all
qed

text \<open>An update of a child directory is an update of its parent.\<close>

definition in_child :: "string \<Rightarrow> (dirents \<Rightarrow> dirents) \<Rightarrow> dirents \<Rightarrow> dirents" where
  "in_child x f = map (\<lambda>(k, n). (k, if k = x then update_dir f [] n else n))"

lemma update_dir_child: "update_dir f (p @ [x]) n = update_dir (in_child x f) p n"
  by (induction "in_child x f" p n rule: update_dir.induct) (auto simp: in_child_def)

lemma updated_child: "updated (p @ [x]) f r = updated p (in_child x f) r"
  by (cases r) (simp_all add: update_dir_child)

lemma map_of_in_child:
  "map_of (in_child x f cs) k = (if k = x then map_option (update_dir f []) (map_of cs k) else map_of cs k)"
  by (simp add: in_child_def map_of_update_entry)

text \<open>Dropping the entries with a name in \<open>D\<close>, but never the metadata file.\<close>

definition keep :: "string set \<Rightarrow> dirents \<Rightarrow> dirents" where
  "keep D cs = filter (\<lambda>(k, n). k \<notin> D \<or> k = METADATA_NAME) cs"

lemma map_of_keep:
  "map_of (keep D cs) k = (if k \<notin> D \<or> k = METADATA_NAME then map_of cs k else None)"
  by (induction cs) (auto simp: keep_def)

lemma keep_nothing: "keep {} cs = cs"
  by (simp add: keep_def case_prod_beta)

lemma keep_metadata: "keep (insert METADATA_NAME D) = keep D"
  by (auto simp: keep_def fun_eq_iff intro!: filter_cong)

lemma dir_del_keep: "n \<noteq> METADATA_NAME \<Longrightarrow> dir_del n (keep D cs) = keep (insert n D) cs"
  by (auto simp: keep_def dir_del_def intro!: filter_cong)

lemma dir_del_in_child: "dir_del n (in_child n f cs) = dir_del n cs"
  by (induction cs) (auto simp: dir_del_def in_child_def)

section \<open>Pruning\<close>

text \<open>\<open>pruned x y\<close>: \<open>x\<close> is \<open>y\<close> with some entries removed below it, or nothing at all.\<close>

fun kept :: "node option \<Rightarrow> node option \<Rightarrow> bool" where
  "kept None y = True"
| "kept (Some (Directory a cs)) y \<longleftrightarrow> (\<exists>ds. y = Some (Directory a ds))"
| "kept x y \<longleftrightarrow> x = y"

definition pruned :: "node option \<Rightarrow> node option \<Rightarrow> bool" where
  "pruned x y \<longleftrightarrow> (\<forall>q. kept (lookup x q) (lookup y q))"

definition prunes :: "dirents \<Rightarrow> dirents \<Rightarrow> bool" where
  "prunes cs ds \<longleftrightarrow> (\<forall>k. pruned (map_of cs k) (map_of ds k))"

lemma kept_refl: "kept x x"
  by (cases "(x, x)" rule: kept.cases) auto

lemma kept_trans: "kept x y \<Longrightarrow> kept y z \<Longrightarrow> kept x z"
  by (cases "(x, y)" rule: kept.cases) auto

lemma pruned_refl [simp]: "pruned x x"
  by (simp add: pruned_def kept_refl)

lemma pruned_trans: "pruned x y \<Longrightarrow> pruned y z \<Longrightarrow> pruned x z"
  using kept_trans unfolding pruned_def by blast

lemma lookup_None [simp]: "lookup None q = None"
  by (simp add: lookup_def)

lemma pruned_None [simp]: "pruned None y"
  by (simp add: pruned_def)

lemma pruned_Directory:
  "pruned (Some (Directory a cs)) (Some (Directory b ds)) \<longleftrightarrow> a = b \<and> prunes cs ds"
proof
  assume p: "pruned (Some (Directory a cs)) (Some (Directory b ds))"
  have "pruned (map_of cs k) (map_of ds k)" for k
    unfolding pruned_def
  proof
    fix q from p have "kept (lookup (Some (Directory a cs)) (k # q)) (lookup (Some (Directory b ds)) (k # q))"
      unfolding pruned_def by blast
    then show "kept (lookup (map_of cs k) q) (lookup (map_of ds k) q)" by (simp add: lookup_Cons)
  qed
  moreover have "kept (Some (Directory a cs)) (Some (Directory b ds))"
    using p unfolding pruned_def by (metis lookup_Some_Nil)
  ultimately show "a = b \<and> prunes cs ds" by (simp add: prunes_def)
next
  assume "a = b \<and> prunes cs ds"
  then have ab: "a = b" and p: "\<And>k q. kept (lookup (map_of cs k) q) (lookup (map_of ds k) q)"
    by (auto simp: prunes_def pruned_def)
  show "pruned (Some (Directory a cs)) (Some (Directory b ds))"
    unfolding pruned_def
  proof
    fix q show "kept (lookup (Some (Directory a cs)) q) (lookup (Some (Directory b ds)) q)"
      by (cases q) (simp_all add: lookup_Cons p ab)
  qed
qed

lemma prunes_refl [simp]: "prunes cs cs"
  by (simp add: prunes_def)

lemma prunes_trans: "prunes x y \<Longrightarrow> prunes y z \<Longrightarrow> prunes x z"
  unfolding prunes_def by (blast intro: pruned_trans)

lemma prunes_keep: "prunes (keep D cs) cs"
  by (simp add: prunes_def map_of_keep)

lemma prunes_in_child:
  assumes "map_of cs n = Some (Directory b ds)" and "prunes (f ds) ds"
  shows "prunes (in_child n f cs) cs"
  using assms by (auto simp: prunes_def map_of_in_child pruned_Directory [unfolded prunes_def])

section \<open>Well-formed trees\<close>

text \<open>Names are distinct in each directory and none is a dot entry.\<close>

fun wf_node :: "node \<Rightarrow> bool" where
  "wf_node (Directory a cs) \<longleftrightarrow> distinct (map fst cs)
     \<and> list_all (\<lambda>(k, n). k \<noteq> ''.'' \<and> k \<noteq> ''..'' \<and> wf_node n) cs"
| "wf_node _ = True"

text \<open>No directory below a node, the node included, has an entry with the metadata file's name.\<close>

fun tidy :: "node \<Rightarrow> bool" where
  "tidy (Directory a cs) \<longleftrightarrow> list_all (\<lambda>(k, n). k \<noteq> METADATA_NAME \<and> tidy n) cs"
| "tidy _ = True"

definition tidy_below :: "dirents \<Rightarrow> bool" where
  "tidy_below cs \<longleftrightarrow> list_all (\<lambda>(k, n). k = METADATA_NAME \<or> tidy n) cs"

definition wf_dirents :: "dirents \<Rightarrow> bool" where
  "wf_dirents cs \<longleftrightarrow> distinct (map fst cs)
     \<and> list_all (\<lambda>(k, n). k \<noteq> ''.'' \<and> k \<noteq> ''..'' \<and> wf_node n) cs"

lemma wf_node_Directory: "wf_node (Directory a cs) \<longleftrightarrow> wf_dirents cs"
  by (simp add: wf_dirents_def)

lemma wf_dirents_keep: "wf_dirents cs \<Longrightarrow> wf_dirents (keep D cs)"
  by (auto simp: wf_dirents_def keep_def list_all_iff distinct_map_filter)

lemma wf_dirents_in_child:
  assumes "wf_dirents cs" and "map_of cs n = Some (Directory b ds)" and "wf_dirents (f ds)"
  shows "wf_dirents (in_child n f cs)"
proof -
  have "distinct (map fst (in_child n f cs))"
    using assms(1) by (simp add: wf_dirents_def in_child_def comp_def case_prod_beta)
  moreover have "k \<noteq> ''.'' \<and> k \<noteq> ''..'' \<and> wf_node m" if km: "(k, m) \<in> set (in_child n f cs)" for k m
  proof -
    from km obtain x where x: "(k, x) \<in> set cs" "m = (if k = n then update_dir f [] x else x)"
      by (auto simp: in_child_def)
    with assms(1) have "map_of cs k = Some x" "k \<noteq> ''.''" "k \<noteq> ''..''" "wf_node x"
      by (auto simp: wf_dirents_def list_all_iff)
    with x assms(2,3) show ?thesis by (cases "k = n") (auto simp: wf_node_Directory simp del: wf_node.simps)
  qed
  ultimately show ?thesis by (auto simp: wf_dirents_def list_all_iff)
qed

lemma fold_max_mono: "(m :: nat) \<le> fold max xs m"
  by (induction xs arbitrary: m) (auto intro: order_trans [OF max.cobounded2])

lemma fold_max_member: "x \<in> set xs \<Longrightarrow> (x :: nat) \<le> fold max xs m"
proof (induction xs arbitrary: m)
  case (Cons y ys)
  then show ?case using fold_max_mono [of "max y m" ys] by auto
qed simp

lemma height_child:
  assumes "map_of cs k = Some n"
  shows "height n < height (Directory a cs)"
proof -
  have "(k, n) \<in> set cs" using assms by (rule map_of_SomeD)
  then have "height n \<in> set (map (\<lambda>(k, n). height n) cs)" by force
  from fold_max_member [OF this, of 0] show ?thesis by simp
qed

lemma wf_child: "wf_node (Directory a cs) \<Longrightarrow> map_of cs k = Some n \<Longrightarrow> wf_node n"
  by (auto simp: list_all_iff dest: map_of_SomeD)

section \<open>One entry, and all of them\<close>

text \<open>
  How far a removal got in the directory \<open>d\<close> with entries \<open>cs\<close> when it fails: the directory is
  pruned, its metadata file is as it was, and nothing outside it changed.
\<close>

definition removal_stopped :: "node option \<Rightarrow> fd \<Rightarrow> dirents \<Rightarrow> io_error option \<Rightarrow> fsys \<Rightarrow> bool" where
  "removal_stopped r d cs e s \<longleftrightarrow> e \<noteq> None
     \<and> (\<exists>f. tree (updated d f r) s \<and> prunes (f cs) cs \<and> wf_dirents (f cs)
          \<and> map_of (f cs) METADATA_NAME = map_of cs METADATA_NAME)"

lemma removal_stoppedI:
  "tree (updated d f r) s \<Longrightarrow> prunes (f cs) cs \<Longrightarrow> wf_dirents (f cs) \<Longrightarrow> map_of (f cs) METADATA_NAME = map_of cs METADATA_NAME
     \<Longrightarrow> removal_stopped r d cs (Some e) s"
  by (auto simp: removal_stopped_def)

abbreviation removed_upto :: "node option \<Rightarrow> fd \<Rightarrow> string set \<Rightarrow> fsys \<Rightarrow> bool" where
  "removed_upto r d D \<equiv> tree (updated d (keep D) r)"

lemma stopped_keep: "wf_dirents cs \<Longrightarrow> removed_upto r d D s \<Longrightarrow> removal_stopped r d cs (Some e) s"
  by (rule removal_stoppedI [where f = "keep D"]) (simp_all add: prunes_keep wf_dirents_keep map_of_keep)

text \<open>The part of \<open>remove_child\<close> that follows a directory.\<close>

lemma remove_directory_rule:
  assumes wf: "wf_dirents cs" and d: "lookup r d = Some (Directory a cs)" and n: "map_of cs n = Some (Directory b ds)"
    and nD: "n \<notin> D" and nM: "n \<noteq> METADATA_NAME"
    and descend: "\<And>r'. lookup r' (d @ [n]) = Some (Directory b ds) \<Longrightarrow>
      io_valid (tree r') (descend (d @ [n])) (\<lambda>_ s. removed_upto r' (d @ [n]) (fst ` set ds) s \<and> tidy_below ds)
        (removal_stopped r' (d @ [n]) ds)"
  shows "io_valid (removed_upto r d D)
    (io_bind (io_map_err Some (open_directory_at d n)) (\<lambda>child.
       io_then (descend child) (io_then (io_map_err Some (trip DeleteEntry))
       (io_map_err Some (unlink_at d n True)))))
    (\<lambda>_ s. removed_upto r d (insert n D) s \<and> tidy (Directory b ds)) (removal_stopped r d cs)"
proof -
  let ?r = "updated d (keep D) r" and ?R = "removal_stopped r d cs"
  let ?f = "\<lambda>cs. in_child n (keep (fst ` set ds)) (keep D cs)"
  let ?M = "\<lambda>s. tree (updated d ?f r) s \<and> tidy_below ds"
  note r = lookup_updated [OF d, of "keep D"] and u = lookup_updated [OF d, of ?f]
  have kn: "map_of (keep D cs) n = Some (Directory b ds)" using n nD by (simp add: map_of_keep)
  have c: "lookup ?r (d @ [n]) = Some (Directory b ds)" using lookup_child [OF r] kn by simp
  have stop: "removal_stopped r d cs e s" if "removal_stopped ?r (d @ [n]) ds e s" for e s
  proof -
    from that obtain f where e: "e \<noteq> None" and f: "tree (updated (d @ [n]) f ?r) s" "prunes (f ds) ds" "wf_dirents (f ds)"
      by (auto simp: removal_stopped_def)
    have "tree (updated d (\<lambda>cs. in_child n f (keep D cs)) r) s"
      using f(1) by (simp add: updated_child updated_compose)
    moreover have "prunes (in_child n f (keep D cs)) cs"
      by (rule prunes_trans [OF prunes_in_child [where f = f, OF kn f(2)] prunes_keep])
    moreover have "wf_dirents (in_child n f (keep D cs))"
      by (rule wf_dirents_in_child [where f = f, OF wf_dirents_keep [OF wf] kn f(3)])
    ultimately show ?thesis
      using e nM by (auto simp: removal_stopped_def map_of_in_child map_of_keep)
  qed
  have wds: "wf_dirents ds"
    using wf_child [OF wf [folded wf_node_Directory [of a]] n] by (simp only: wf_node_Directory)
  have wff: "wf_dirents (?f cs)"
    by (rule wf_dirents_in_child [where f = "keep (fst ` set ds)", OF wf_dirents_keep [OF wf] kn wf_dirents_keep [OF wds]])
  have st: "?M s \<Longrightarrow> removal_stopped r d cs (Some e) s" for e s
    by (rule removal_stoppedI [where f = ?f])
      (use wff nM prunes_trans [OF prunes_in_child [where f = "keep (fst ` set ds)", OF kn prunes_keep] prunes_keep] in
        \<open>auto simp: map_of_in_child map_of_keep\<close>)
  have open1: "io_valid (tree ?r) (io_map_err Some (open_directory_at d n)) (\<lambda>v s. tree ?r s \<and> v = d @ [n]) ?R"
    by (rule io_valid_map_err, rule io_valid_conseq [OF open_directory_at_rule]) (auto intro: stopped_keep [OF wf])
  have desc: "io_valid (tree ?r) (descend (d @ [n])) (\<lambda>_. ?M) ?R"
    by (rule io_valid_conseq [OF descend [OF c]]) (auto simp: updated_child updated_compose intro: stop)
  have tr: "io_valid ?M (io_map_err Some (trip DeleteEntry)) (\<lambda>_. ?M) ?R"
    by (rule io_valid_pure, rule io_valid_map_err, rule io_valid_conseq [OF trip_rule]) (auto intro: st)
  have del: "dir_del n (?f cs) = keep (insert n D) cs" for cs
    by (simp add: dir_del_in_child dir_del_keep [OF nM])
  have un: "io_valid ?M (io_map_err Some (unlink_at d n True))
      (\<lambda>_ s. removed_upto r d (insert n D) s \<and> tidy (Directory b ds)) ?R"
  proof (rule io_valid_pure, rule io_valid_map_err, rule io_valid_conseq [OF unlink_at_rule])
    fix x s assume t: "tidy_below ds" and "\<exists>a' cs' m. lookup (updated d ?f r) d = Some (Directory a' cs')
      \<and> map_of cs' n = Some m \<and> unlinkable True m \<and> tree (updated d (dir_del n) (updated d ?f r)) s"
    then have "keep (fst ` set ds) ds = []" and s: "tree (updated d (dir_del n) (updated d ?f r)) s"
      using u kn by (auto simp: map_of_in_child)
    then have "\<forall>(k, m) \<in> set ds. k \<noteq> METADATA_NAME" by (auto simp: keep_def filter_empty_conv)
    with t have "tidy (Directory b ds)" by (fastforce simp: tidy_below_def list_all_iff)
    with s show "removed_upto r d (insert n D) s \<and> tidy (Directory b ds)"
      by (simp add: updated_compose del)
  qed (auto intro: st)
  show ?thesis
    by (rule io_valid_bind [OF open1], rule io_valid_pure, hypsubst)
      (intro io_valid_then [OF desc] io_valid_then [OF tr] un)
qed

lemma remove_child_rule:
  assumes wf: "wf_dirents cs" and d: "lookup r d = Some (Directory a cs)" and n: "map_of cs n = Some m" and nD: "n \<notin> D"
    and descend: "\<And>r' b ds. m = Directory b ds \<Longrightarrow> lookup r' (d @ [n]) = Some (Directory b ds) \<Longrightarrow>
      io_valid (tree r') (descend (d @ [n])) (\<lambda>_ s. removed_upto r' (d @ [n]) (fst ` set ds) s \<and> tidy_below ds)
        (removal_stopped r' (d @ [n]) ds)"
  shows "io_valid (removed_upto r d D) (remove_child descend d n)
    (\<lambda>_ s. removed_upto r d (insert n D) s \<and> (n = METADATA_NAME \<or> tidy m)) (removal_stopped r d cs)"
proof (cases "n = METADATA_NAME")
  case True
  then show ?thesis
    by (auto simp: remove_child_def keep_metadata intro!: io_validI) (auto simp: io_simps)
next
  case False
  let ?r = "updated d (keep D) r"
  let ?Q = "\<lambda>_ s. removed_upto r d (insert n D) s \<and> (n = METADATA_NAME \<or> tidy m)"
  note r = lookup_updated [OF d, of "keep D"]
  have c: "lookup ?r (d @ [n]) = Some m" using lookup_child [OF r, of n] n nD by (simp add: map_of_keep)
  have stat: "io_valid (tree ?r) (stat_at d n) (\<lambda>v s. tree ?r s \<and> v = stat_of m)
      (\<lambda>e s. tree ?r s \<and> e \<noteq> OsError ENOENT)"
    by (rule io_valid_conseq [OF stat_at_rule]) (auto simp: c)
  have tr: "io_valid (tree ?r) (io_map_err Some (trip DeleteEntry)) (\<lambda>_. tree ?r) (removal_stopped r d cs)"
    by (rule io_valid_map_err, rule io_valid_conseq [OF trip_rule]) (auto intro: stopped_keep [OF wf])
  have fil: "io_valid (tree ?r) (io_map_err Some (unlink_at d n False)) ?Q (removal_stopped r d cs)"
    if "\<forall>b ds. m \<noteq> Directory b ds"
  proof (rule io_valid_map_err, rule io_valid_conseq [OF unlink_at_rule])
    have "tidy m" using that by (cases m) auto
    then show "\<exists>a cs m. lookup ?r d = Some (Directory a cs) \<and> map_of cs n = Some m \<and> unlinkable False m
        \<and> tree (updated d (dir_del n) ?r) s \<Longrightarrow> ?Q x s" for x s
      by (auto simp: updated_compose dir_del_keep [OF False])
  qed (auto intro: stopped_keep [OF wf])
  have dir: "io_valid (tree ?r)
      (io_bind (io_map_err Some (open_directory_at d n)) (\<lambda>child.
         io_then (descend child) (io_then (io_map_err Some (trip DeleteEntry))
         (io_map_err Some (unlink_at d n True))))) ?Q (removal_stopped r d cs)"
    if "m = Directory b ds" for b ds
    using remove_directory_rule [where descend = descend, OF wf d n [unfolded that] nD False descend [OF that]]
    by (rule io_valid_conseq) (auto simp: that)
  show ?thesis
    unfolding remove_child_def if_not_P [OF False]
  proof (rule io_valid_match [OF stat])
    show "io_valid (\<lambda>s. tree ?r s \<and> x = stat_of m)
      (io_then (io_map_err Some (trip DeleteEntry))
          (if is_directory (st_mode x) then
             io_bind (io_map_err Some (open_directory_at d n)) (\<lambda>child.
             io_then (descend child)
            (io_then (io_map_err Some (trip DeleteEntry))
             (io_map_err Some (unlink_at d n True))))
           else io_map_err Some (unlink_at d n False))) ?Q (removal_stopped r d cs)" for x
      by (rule io_valid_pure, rule io_valid_then [OF tr], rule io_valid_if)
        (simp, elim exE, rule dir, assumption, rule fil, simp)
  qed (rule io_validI, auto simp: io_simps errno_is_def intro: stopped_keep [OF wf] split: if_splits)
qed

lemma remove_names_rule:
  assumes wf: "wf_dirents cs" and d: "lookup r d = Some (Directory a cs)"
    and descend: "\<And>r' n b ds. map_of cs n = Some (Directory b ds) \<Longrightarrow> lookup r' (d @ [n]) = Some (Directory b ds) \<Longrightarrow>
      io_valid (tree r') (descend (d @ [n])) (\<lambda>_ s. removed_upto r' (d @ [n]) (fst ` set ds) s \<and> tidy_below ds)
        (removal_stopped r' (d @ [n]) ds)"
  shows "distinct ns \<Longrightarrow> set ns \<inter> D = {} \<Longrightarrow> set ns \<subseteq> dom (map_of cs) \<Longrightarrow>
    io_valid (removed_upto r d D) (io_for ns (remove_child descend d))
      (\<lambda>_ s. removed_upto r d (set ns \<union> D) s \<and> (\<forall>n \<in> set ns. n = METADATA_NAME \<or> tidy (the (map_of cs n))))
      (removal_stopped r d cs)"
proof (induction ns arbitrary: D)
  case Nil
  show ?case by (rule io_validI) (auto simp: io_simps)
next
  case (Cons n ns)
  then obtain m where m: "map_of cs n = Some m" by auto
  have step: "io_valid (removed_upto r d D) (remove_child descend d n)
      (\<lambda>_ s. removed_upto r d (insert n D) s \<and> (n = METADATA_NAME \<or> tidy m)) (removal_stopped r d cs)"
    by (rule remove_child_rule [OF wf d m]) (use Cons.prems m descend in auto)
  have rest: "io_valid (removed_upto r d (insert n D)) (io_for ns (remove_child descend d))
      (\<lambda>_ s. removed_upto r d (set ns \<union> insert n D) s
         \<and> (\<forall>n \<in> set ns. n = METADATA_NAME \<or> tidy (the (map_of cs n)))) (removal_stopped r d cs)"
    by (rule Cons.IH) (use Cons.prems in auto)
  show ?case
    unfolding io_for.simps
    by (rule io_valid_then [OF step], rule io_valid_pure, rule io_valid_conseq [OF rest]) (use m in auto)
qed

text \<open>
  With as much fuel as directories are nested, the removal ends, and without an error nothing is
  left but the metadata file, at any depth no entry of that name having been in the way.
\<close>

lemma remove_children_rule:
  "lookup r d = Some (Directory a cs) \<Longrightarrow> wf_node (Directory a cs) \<Longrightarrow> height (Directory a cs) \<le> fuel \<Longrightarrow>
    io_valid (tree r) (remove_children fuel d)
      (\<lambda>_ s. removed_upto r d (fst ` set cs) s \<and> tidy_below cs) (removal_stopped r d cs)"
proof (induction fuel arbitrary: r d a cs)
  case 0
  then show ?case by simp
next
  case (Suc fuel)
  note d = Suc.prems(1) and wf = Suc.prems(2) and wd = Suc.prems(2) [unfolded wf_node_Directory]
  let ?ns = "map fst cs"
  have nil: "updated d (keep {}) r = r" by (simp add: keep_nothing [abs_def] updated_id)
  have dots: "filter (\<lambda>n. n \<noteq> ''.'' \<and> n \<noteq> ''..'') ?ns = ?ns"
    using wf by (auto simp: filter_id_conv list_all_iff)
  have names: "io_valid (tree r) (io_map_err Some (read_names d)) (\<lambda>v s. tree r s \<and> v = ?ns) (removal_stopped r d cs)"
    by (rule io_valid_map_err, rule io_valid_conseq [OF read_names_rule])
      (use d dots stopped_keep [OF wd, where r = r and d = d and D = "{}", unfolded nil] in auto)
  have "io_valid (removed_upto r d {}) (io_for ?ns (remove_child (remove_children fuel) d))
      (\<lambda>_ s. removed_upto r d (set ?ns \<union> {}) s \<and> (\<forall>n \<in> set ?ns. n = METADATA_NAME \<or> tidy (the (map_of cs n))))
      (removal_stopped r d cs)"
  proof (rule remove_names_rule [OF wd d])
    fix r' n b ds
    assume n: "map_of cs n = Some (Directory b ds)" and r': "lookup r' (d @ [n]) = Some (Directory b ds)"
    show "io_valid (tree r') (remove_children fuel (d @ [n]))
        (\<lambda>_ s. removed_upto r' (d @ [n]) (fst ` set ds) s \<and> tidy_below ds) (removal_stopped r' (d @ [n]) ds)"
      by (rule Suc.IH [OF r' wf_child [OF wf n]]) (use height_child [OF n, of a] Suc.prems(3) in linarith)
  qed (use wf in \<open>auto simp: dom_map_of_conv_image_fst\<close>)
  note loop = this [unfolded nil]
  show ?case
    unfolding remove_children.simps
    by (rule io_valid_bind [OF names], rule io_valid_pure, hypsubst, rule io_valid_conseq [OF loop])
      (use wf in \<open>auto simp: tidy_below_def list_all_iff\<close>)
qed

section \<open>More fuel changes nothing\<close>

definition refines :: "('s, 'e option, 'a) io \<Rightarrow> ('s, 'e option, 'a) io \<Rightarrow> bool" where
  "refines m m' \<longleftrightarrow> (\<forall>s. fst (m s) = Inl None \<or> m' s = m s)"

lemma refines_refl [simp]: "refines m m"
  by (simp add: refines_def)

lemma refines_bind:
  assumes m: "refines m m'" and n: "\<And>x. refines (n x) (n' x)"
  shows "refines (io_bind m n) (io_bind m' n')"
  unfolding refines_def
proof
  fix s
  obtain v t where v: "m s = (v, t)" by fastforce
  with m have "v = Inl None \<or> m' s = (v, t)" unfolding refines_def by (metis fst_conv)
  with v n show "fst (io_bind m n s) = Inl None \<or> io_bind m' n' s = io_bind m n s"
    by (cases v) (auto simp: io_bind_def refines_def)
qed

lemma refines_then: "refines m m' \<Longrightarrow> refines n n' \<Longrightarrow> refines (io_then m n) (io_then m' n')"
  unfolding io_then_def by (rule refines_bind)

lemma refines_for: "(\<And>x. refines (f x) (f' x)) \<Longrightarrow> refines (io_for xs f) (io_for xs f')"
  by (induction xs) (auto intro: refines_then)

lemma refines_match:
  "(\<And>e. refines (h e) (h' e)) \<Longrightarrow> (\<And>x. refines (f x) (f' x)) \<Longrightarrow> refines (io_match m h f) (io_match m h' f')"
  by (auto simp: refines_def io_match_def split: prod.splits sum.splits)

lemma refines_if:
  "(b \<Longrightarrow> refines m m') \<Longrightarrow> (\<not> b \<Longrightarrow> refines n n') \<Longrightarrow>
     refines (if b then m else n) (if b then m' else n')"
  by simp

lemma refines_remove_child:
  assumes "\<And>d. refines (f d) (g d)"
  shows "refines (remove_child f d n) (remove_child g d n)"
  unfolding remove_child_def
  by (intro refines_refl refines_if refines_match refines_then refines_bind assms)

lemma remove_children_more: "refines (remove_children k d) (remove_children (Suc k) d)"
proof (induction k arbitrary: d)
  case 0
  show ?case by (simp add: refines_def io_err_def)
next
  case (Suc k)
  have "refines (io_bind (io_map_err Some (read_names d)) (\<lambda>names.
        io_for names (remove_child (remove_children k) d)))
      (io_bind (io_map_err Some (read_names d)) (\<lambda>names.
        io_for names (remove_child (remove_children (Suc k)) d)))"
    by (intro refines_bind refines_refl refines_for refines_remove_child Suc.IH)
  then show ?case by simp
qed

lemma remove_children_fuel:
  assumes "fst (remove_children k d s) \<noteq> Inl None"
  shows "remove_children (k + j) d s = remove_children k d s"
proof (induction j)
  case (Suc j)
  with assms remove_children_more [of "k + j" d] show ?case unfolding refines_def
    by (metis add_Suc_right)
qed simp

lemma height_lookup: "node_at n p = Some m \<Longrightarrow> height m \<le> height n"
proof (induction n p rule: node_at.induct)
  case (2 a cs p ps)
  then obtain x where x: "map_of cs p = Some x" "node_at x ps = Some m" by (auto split: option.splits)
  with 2 height_child [OF x(1), of a] show ?case by (metis less_imp_le order_trans)
qed auto

lemma wf_lookup: "node_at n p = Some m \<Longrightarrow> wf_node n \<Longrightarrow> wf_node m"
proof (induction n p rule: node_at.induct)
  case (2 a cs p ps)
  then obtain x where x: "map_of cs p = Some x" "node_at x ps = Some m" by (auto split: option.splits)
  with 2 wf_child [OF 2(3) x(1)] show ?case by simp
qed auto

definition wf_tree :: "node option \<Rightarrow> bool" where
  "wf_tree r \<longleftrightarrow> (case r of None \<Rightarrow> True | Some n \<Rightarrow> wf_node n)"

text \<open>An update that leaves good entries keeps the tree well-formed.\<close>

lemma wf_update:
  "wf_node n \<Longrightarrow> node_at n p = Some (Directory a cs) \<Longrightarrow> wf_dirents (f cs) \<Longrightarrow> wf_node (update_dir f p n)"
proof (induction p arbitrary: n)
  case Nil
  then show ?case by (simp add: wf_dirents_def)
next
  case (Cons x p)
  then obtain b ds m where n: "n = Directory b ds" and m: "map_of ds x = Some m" "node_at m p = Some (Directory a cs)"
    by (cases n) (auto split: option.splits)
  have ds: "wf_dirents ds" using Cons.prems(1) by (simp only: n wf_node_Directory)
  have IH: "wf_node (update_dir f p m)"
    by (rule Cons.IH [OF wf_child [OF Cons.prems(1) [unfolded n] m(1)] m(2) Cons.prems(3)])
  have "distinct (map fst (map (\<lambda>(k, n). (k, if k = x then update_dir f p n else n)) ds))"
    using ds by (simp add: wf_dirents_def comp_def case_prod_beta)
  moreover have "k \<noteq> ''.'' \<and> k \<noteq> ''..'' \<and> wf_node y"
    if "(k, y) \<in> set (map (\<lambda>(k, n). (k, if k = x then update_dir f p n else n)) ds)" for k y
  proof -
    from that obtain z where z: "(k, z) \<in> set ds" "y = (if k = x then update_dir f p z else z)" by auto
    with ds have "map_of ds k = Some z" "k \<noteq> ''.''" "k \<noteq> ''..''" "wf_node z"
      by (auto simp: wf_dirents_def list_all_iff)
    with z m(1) IH show ?thesis by (cases "k = x") auto
  qed
  ultimately show ?case unfolding n update_dir.simps wf_node.simps list_all_iff by blast
qed

lemma wf_tree_updated:
  "wf_tree r \<Longrightarrow> lookup r p = Some (Directory a cs) \<Longrightarrow> wf_dirents (f cs) \<Longrightarrow> wf_tree (updated p f r)"
  by (auto simp: wf_tree_def lookup_def intro: wf_update split: option.splits)

lemma wf_dirents_put:
  "wf_dirents cs \<Longrightarrow> wf_node n \<Longrightarrow> k \<noteq> ''.'' \<Longrightarrow> k \<noteq> ''..'' \<Longrightarrow> wf_dirents (dir_put k n cs)"
  by (auto simp: wf_dirents_def dir_put_def list_all_iff comp_def case_prod_beta)

lemma wf_dirents_del: "wf_dirents cs \<Longrightarrow> wf_dirents (dir_del k cs)"
  by (auto simp: wf_dirents_def dir_del_def list_all_iff distinct_map_filter)

lemma height_in_enough: "lookup (fs_root s) d = Some n \<Longrightarrow> height n \<le> height_in s"
  by (auto simp: height_in_def lookup_def height_lookup split: option.splits)

lemma wf_tree_lookup: "wf_tree r \<Longrightarrow> lookup r d = Some n \<Longrightarrow> wf_node n"
  by (auto simp: wf_tree_def lookup_def intro: wf_lookup split: option.splits)

text \<open>The fuel of \<open>remove_tree\<close> is enough.\<close>

lemma remove_children_ends:
  assumes "wf_tree (fs_root s)" and "lookup (fs_root s) d = Some (Directory a cs)" and "height_in s \<le> k"
  shows "fst (remove_children k d s) \<noteq> Inl None"
proof
  assume f: "fst (remove_children k d s) = Inl None"
  then obtain t where t: "remove_children k d s = (Inl None, t)" by (cases "remove_children k d s") auto
  have h: "height (Directory a cs) \<le> k" using height_in_enough [OF assms(2)] assms(3) by linarith
  from io_valid_err [OF remove_children_rule [OF assms(2) wf_tree_lookup [OF assms(1,2)] h] refl t]
  show False by (simp add: removal_stopped_def)
qed

lemma remove_all_children_rule:
  assumes d: "lookup r d = Some (Directory a cs)" and wf: "wf_tree r"
  shows "io_valid (tree r) (remove_all_children d)
    (\<lambda>_ s. removed_upto r d (fst ` set cs) s \<and> tidy_below cs) (\<lambda>e. removal_stopped r d cs (Some e))"
proof (rule io_validI)
  fix s e t assume s: "tree r s" and m: "remove_all_children d s = (Inl e, t)"
  have h: "height (Directory a cs) \<le> height_in s"
    using height_in_enough [of s d "Directory a cs"] d s by (simp del: height.simps)
  note rule = remove_children_rule [OF d wf_tree_lookup [OF wf d] h]
  obtain e' where e': "remove_children (height_in s) d s = (Inl e', t)" "e = the e'"
    using m by (auto simp: remove_all_children_def io_simps split: prod.splits sum.splits)
  from io_valid_err [OF rule s e'(1)] e'(2) show "removal_stopped r d cs (Some e) t"
    by (auto simp: removal_stopped_def)
next
  fix s x t assume s: "tree r s" and m: "remove_all_children d s = (Inr x, t)"
  have h: "height (Directory a cs) \<le> height_in s"
    using height_in_enough [of s d "Directory a cs"] d s by (simp del: height.simps)
  note rule = remove_children_rule [OF d wf_tree_lookup [OF wf d] h]
  have "remove_children (height_in s) d s = (Inr x, t)"
    using m by (auto simp: remove_all_children_def io_simps split: prod.splits sum.splits)
  from io_valid_ok [OF rule s this] show "removed_upto r d (fst ` set cs) t \<and> tidy_below cs" .
qed

end
