(* ===== verification/Storage_Rules.thy ===== *)
theory Storage_Rules
  imports Storage_Removal
begin

text \<open>
  What the registry operations do, against a map from identifiers to slots: an identifier is
  vacant, held by a record, or broken. Each operation changes the slot of its own identifier only.
\<close>

section \<open>What a directory holds\<close>

datatype slot = Vacant | Held metadata | Broken

type_synonym registry = "sandbox_id \<Rightarrow> slot"

definition trusted :: "env \<Rightarrow> fattr \<Rightarrow> bool" where
  "trusted E a \<longleftrightarrow> fa_uid a = env_euid E \<and> \<not> group_world_writable (fa_perm a)"

fun workspace_ok :: "env \<Rightarrow> metadata \<Rightarrow> node option \<Rightarrow> bool" where
  "workspace_ok E m None \<longleftrightarrow> is_deleting m"
| "workspace_ok E m (Some (Directory a cs)) \<longleftrightarrow> trusted E a"
| "workspace_ok E m (Some n) = False"

fun metadata_file :: "env \<Rightarrow> sandbox_id \<Rightarrow> node option \<Rightarrow> metadata option" where
  "metadata_file E i (Some (RegFile b bytes)) =
     (if fa_uid b = env_euid E \<and> mode_bits (fa_perm b) = 0x180
      then (case metadata_decode E bytes i of Inl e \<Rightarrow> None | Inr m \<Rightarrow> Some m) else None)"
| "metadata_file E i _ = None"

definition record_in :: "env \<Rightarrow> sandbox_id \<Rightarrow> fattr \<Rightarrow> (string \<Rightarrow> node option) \<Rightarrow> metadata option" where
  "record_in E i a M =
     (if trusted E a \<and> dom M \<subseteq> {METADATA_NAME, WORKSPACE_NAME} then
        (case metadata_file E i (M METADATA_NAME) of
           None \<Rightarrow> None
         | Some m \<Rightarrow> if workspace_ok E m (M WORKSPACE_NAME) then Some m else None)
      else None)"

definition slot_of :: "env \<Rightarrow> node option \<Rightarrow> sandbox_id \<Rightarrow> slot" where
  "slot_of E r i =
     (case lookup r [id_as_str i] of
        None \<Rightarrow> Vacant
      | Some (Directory a cs) \<Rightarrow>
          (case record_in E i a (map_of cs) of None \<Rightarrow> Broken | Some m \<Rightarrow> Held m)
      | Some n \<Rightarrow> Broken)"

text \<open>The entry that \<open>inspect\<close> reports for a record, and for a slot.\<close>

definition entry_for :: "metadata \<Rightarrow> entry" where
  "entry_for m = (case md_state m of Active \<Rightarrow> EntryActive m | Deleting \<Rightarrow> EntryDeleting m)"

fun entry_matches :: "entry \<Rightarrow> slot \<Rightarrow> bool" where
  "entry_matches v Vacant \<longleftrightarrow> v = EntryAbsent"
| "entry_matches v (Held m) \<longleftrightarrow> v = entry_for m"
| "entry_matches v Broken \<longleftrightarrow> (\<exists>reason. v = EntryCorrupt reason)"

definition corrupt_or :: "metadata option \<Rightarrow> entry \<Rightarrow> bool" where
  "corrupt_or x v \<longleftrightarrow> (case x of None \<Rightarrow> \<exists>reason. v = EntryCorrupt reason | Some m \<Rightarrow> v = entry_for m)"

lemma corrupt_or_simps [simp]:
  "corrupt_or None v \<longleftrightarrow> (\<exists>reason. v = EntryCorrupt reason)" "corrupt_or (Some m) v \<longleftrightarrow> v = entry_for m"
  by (simp_all add: corrupt_or_def)

section \<open>Inspecting\<close>

lemma io_valid_value: "Q x s0 \<Longrightarrow> io_valid (\<lambda>s. s = s0) (io_ok x) Q R"
  by (simp add: io_valid_def io_ok_def)

lemma tree_ok: "(\<And>s. tree r s \<Longrightarrow> Q x s) \<Longrightarrow> io_valid (tree r) (io_ok x) Q R"
  by (simp add: io_valid_def io_ok_def)

lemma tree_err: "(\<And>s. tree r s \<Longrightarrow> R e s) \<Longrightarrow> io_valid (tree r) (io_err e) Q R"
  by (simp add: io_valid_def io_err_def)

lemma stat_child:
  assumes "lookup r d = Some (Directory a cs)"
  shows "io_valid (tree r) (stat_at d n) (\<lambda>st s. tree r s \<and> (\<exists>m. map_of cs n = Some m \<and> st = stat_of m))
    (\<lambda>e s. tree r s \<and> (e = OsError ENOENT \<longrightarrow> map_of cs n = None))"
  by (rule io_valid_conseq [OF stat_at_rule [of r]]) (auto simp: lookup_child [OF assms])

lemma workspace_ok_Some: "workspace_ok E m (Some n) \<longleftrightarrow> (\<exists>a cs. n = Directory a cs \<and> trusted E a)"
  by (cases n) auto

lemma metadata_file_Some:
  "metadata_file E i (Some n) = Some m \<longleftrightarrow>
     (\<exists>b bytes. n = RegFile b bytes \<and> fa_uid b = env_euid E \<and> mode_bits (fa_perm b) = 0x180
        \<and> metadata_decode E bytes i = Inr m)"
  by (cases n) (auto split: sum.splits)

lemma inspect_workspace_rule:
  assumes d: "lookup r d = Some (Directory a cs)"
  shows "io_valid (tree r) (inspect_workspace E st i d m)
    (\<lambda>v s. tree r s \<and> corrupt_or (if workspace_ok E m (map_of cs WORKSPACE_NAME) then Some m else None) v)
    (\<lambda>e s. tree r s)"
  unfolding inspect_workspace_def
  by (rule io_valid_match [OF stat_child [OF d]]; rule io_validI)
    (auto simp: io_simps errno_is_def entry_for_def is_deleting_def workspace_ok_Some trusted_def
      split: if_splits)

lemma inspect_metadata_rule:
  assumes d: "lookup r d = Some (Directory a cs)"
  shows "io_valid (tree r) (inspect_metadata E st i d)
    (\<lambda>v s. tree r s \<and> corrupt_or (case metadata_file E i (map_of cs METADATA_NAME) of None \<Rightarrow> None
       | Some m \<Rightarrow> if workspace_ok E m (map_of cs WORKSPACE_NAME) then Some m else None) v)
    (\<lambda>e s. tree r s)" (is "io_valid _ _ ?Q ?R")
  unfolding inspect_metadata_def
proof (rule io_valid_match [OF stat_child [OF d]])
  show "io_valid (\<lambda>s. tree r s \<and> (e = OsError ENOENT \<longrightarrow> map_of cs METADATA_NAME = None))
      (if errno_is e ENOENT then corrupt ''metadata.toml is missing''
       else io_err (storage_io st ''stat sandbox metadata'' i e)) ?Q ?R" for e
    by (rule io_validI) (auto simp: io_simps errno_is_def split: if_splits)
next
  fix x :: stat
  let ?body = "(if \<not> is_regular (st_mode x) then corrupt ''metadata.toml is not a regular file''
         else if st_uid x \<noteq> env_euid E then corrupt ''metadata.toml is not daemon-owned''
         else if mode_bits (st_mode x) \<noteq> 0x180 then corrupt ''metadata.toml does not have mode 0600''
         else io_bind (io_map_err (storage_io st ''read sandbox metadata'' i)
                        (read_file_at d METADATA_NAME METADATA_MAX_BYTES)) (\<lambda>bytes.
              case metadata_decode E bytes i of
                Inl e \<Rightarrow> corrupt (display_metadata_error E e)
              | Inr m \<Rightarrow> inspect_workspace E st i d m))"
  have "io_valid (tree r) ?body ?Q ?R" if n: "map_of cs METADATA_NAME = Some n" "x = stat_of n" for n
  proof (cases "\<exists>b bytes. n = RegFile b bytes \<and> fa_uid b = env_euid E \<and> mode_bits (fa_perm b) = 0x180")
    case False
    then have "metadata_file E i (Some n) = None"
      using metadata_file_Some [of E i n] by (metis option.exhaust)
    with False n show ?thesis
      by (auto intro!: tree_ok simp del: not_ex)
  next
    case True
    then obtain b bytes where b: "n = RegFile b bytes" "fa_uid b = env_euid E" "mode_bits (fa_perm b) = 0x180"
      by blast
    have read: "io_valid (tree r) (io_map_err (storage_io st ''read sandbox metadata'' i)
        (read_file_at d METADATA_NAME METADATA_MAX_BYTES)) (\<lambda>v s. tree r s \<and> v = bytes) ?R"
      by (rule io_valid_map_err, rule io_valid_conseq [OF read_file_at_rule])
        (use lookup_child [OF d] n b in auto)
    have tail: "io_valid (tree r) (case metadata_decode E bytes i of
                Inl e \<Rightarrow> corrupt (display_metadata_error E e)
              | Inr m \<Rightarrow> inspect_workspace E st i d m) ?Q ?R"
      using inspect_workspace_rule [OF d]
      by (cases "metadata_decode E bytes i") (auto intro!: tree_ok simp: n b)
    have "io_valid (tree r) (io_bind (io_map_err (storage_io st ''read sandbox metadata'' i)
        (read_file_at d METADATA_NAME METADATA_MAX_BYTES)) (\<lambda>bytes.
          case metadata_decode E bytes i of
            Inl e \<Rightarrow> corrupt (display_metadata_error E e)
          | Inr m \<Rightarrow> inspect_workspace E st i d m)) ?Q ?R"
      by (rule io_valid_bind [OF read], rule io_valid_pure, hypsubst, rule tail)
    with b n show ?thesis by simp
  qed
  then show "io_valid (\<lambda>s. tree r s \<and> (\<exists>n. map_of cs METADATA_NAME = Some n \<and> x = stat_of n)) ?body ?Q ?R"
    by (intro io_valid_pure, elim exE conjE)
qed

lemma map_of_names: "dom (map_of cs) = set (map fst cs)"
  by (simp add: dom_map_of_conv_image_fst)

lemma inspect_directory_rule:
  assumes d: "lookup r d = Some (Directory a cs)" and wf: "wf_dirents cs"
  shows "io_valid (tree r) (inspect_directory E st i d)
    (\<lambda>v s. tree r s \<and> corrupt_or (record_in E i a (map_of cs)) v) (\<lambda>e s. tree r s)" (is "io_valid _ _ ?Q ?R")
proof -
  let ?ns = "map fst cs"
  have dots: "filter (\<lambda>n. n \<noteq> ''.'' \<and> n \<noteq> ''..'') ?ns = ?ns"
    using wf by (auto simp: filter_id_conv wf_dirents_def list_all_iff)
  have st: "io_valid (tree r) (io_map_err (storage_io st ''stat sandbox directory'' i) (fstat d))
      (\<lambda>v s. tree r s \<and> v = stat_of (Directory a cs)) ?R"
    by (rule io_valid_map_err, rule io_valid_conseq [OF fstat_rule [of r]]) (auto simp: d)
  have nm: "io_valid (tree r) (io_map_err (storage_io st ''scan sandbox directory'' i) (read_names d))
      (\<lambda>v s. tree r s \<and> v = ?ns) ?R"
    by (rule io_valid_map_err, rule io_valid_conseq [OF read_names_rule [of r]]) (auto simp: d dots)
  have names: "list_ex (\<lambda>n. n \<noteq> METADATA_NAME \<and> n \<noteq> WORKSPACE_NAME) ?ns
      \<longleftrightarrow> \<not> dom (map_of cs) \<subseteq> {METADATA_NAME, WORKSPACE_NAME}"
    by (auto simp: list_ex_iff map_of_names)
  have body: "io_valid (tree r) (if list_ex (\<lambda>n. n \<noteq> METADATA_NAME \<and> n \<noteq> WORKSPACE_NAME) ?ns
        then corrupt ''sandbox directory contains an unknown management entry''
        else inspect_metadata E st i d) ?Q ?R" if "trusted E a"
    unfolding names using inspect_metadata_rule [OF d] that
    by (auto intro!: tree_ok simp: record_in_def)
  have "io_valid (tree r)
     (if fa_uid a \<noteq> env_euid E then corrupt ''sandbox directory is not daemon-owned''
     else if group_world_writable (fa_perm a) then corrupt ''sandbox directory is group or world writable''
     else io_bind (io_map_err (storage_io st ''scan sandbox directory'' i) (read_names d)) (\<lambda>names.
          if list_ex (\<lambda>n. n \<noteq> METADATA_NAME \<and> n \<noteq> WORKSPACE_NAME) names
          then corrupt ''sandbox directory contains an unknown management entry''
          else inspect_metadata E st i d)) ?Q ?R"
  proof (cases "trusted E a")
    case True
    have "io_valid (tree r)
      (io_bind (io_map_err (storage_io st ''scan sandbox directory'' i) (read_names d)) (\<lambda>names.
          if list_ex (\<lambda>n. n \<noteq> METADATA_NAME \<and> n \<noteq> WORKSPACE_NAME) names
          then corrupt ''sandbox directory contains an unknown management entry''
          else inspect_metadata E st i d)) ?Q ?R"
      by (rule io_valid_bind [OF nm], rule io_valid_pure, hypsubst, rule body [OF True])
    with True show ?thesis by (simp add: trusted_def)
  next
    case False
    then show ?thesis by (auto intro!: tree_ok simp: trusted_def record_in_def)
  qed
  then show ?thesis
    unfolding inspect_directory_def
    by (intro io_valid_bind [OF st] io_valid_pure) (simp cong: if_cong split del: if_split)
qed

lemma inspect_rule:
  assumes wf: "wf_tree r"
  shows "io_valid (tree r) (inspect E st i)
    (\<lambda>v s. tree r s \<and> entry_matches v (slot_of E r i)) (\<lambda>e s. tree r s)" (is "io_valid _ _ ?Q ?R")
proof -
  let ?n = "id_as_str i"
  have root: "io_valid (tree r) (storage_open_root st) (\<lambda>v s. tree r s \<and> v = []) ?R"
    unfolding storage_open_root_def
    by (rule io_valid_map_err, rule io_valid_conseq [OF open_directory_path_rule [of r]]) auto
  have dir: "io_valid (tree r) (inspect_directory E st i [?n]) ?Q ?R" if d: "lookup r [?n] = Some (Directory a cs)" for a cs
    using wf_tree_lookup [OF wf d] 
    by (intro io_valid_conseq [OF inspect_directory_rule [OF d]])
      (auto simp: slot_of_def d wf_node_Directory simp del: wf_node.simps split: option.splits)
  have "io_valid (tree r) (io_match (open_directory_at [] ?n)
       (\<lambda>e. if errno_is e ENOENT then io_ok EntryAbsent
             else if errno_is e ELOOP then corrupt ''sandbox directory is a symlink''
             else if errno_is e ENOTDIR then corrupt ''sandbox entry is not a directory''
             else io_err (storage_io st ''open sandbox directory'' i e))
       (inspect_directory E st i)) ?Q ?R"
  proof (rule io_valid_match [OF open_directory_at_rule])
    show "io_valid (\<lambda>s. tree r s \<and> x = [] @ [?n] \<and> (\<exists>a cs. lookup r ([] @ [?n]) = Some (Directory a cs)))
      (inspect_directory E st i x) ?Q ?R" for x
      by (rule io_valid_pure) (use dir in auto)
  qed (rule io_validI, auto simp: io_simps errno_is_def open_error_def slot_of_def
      split: if_splits option.splits node.splits)
  then show ?thesis
    unfolding inspect_def by (intro io_valid_bind [OF root] io_valid_pure) simp
qed

section \<open>Changing one directory\<close>

text \<open>
  \<open>shows_at r d cs M\<close>: the tree is \<open>r\<close> with the directory \<open>d\<close>, whose entries were \<open>cs\<close>, now holding
  the entries \<open>M\<close>.
\<close>

definition shows_at :: "node option \<Rightarrow> fd \<Rightarrow> dirents \<Rightarrow> (string \<Rightarrow> node option) \<Rightarrow> fsys \<Rightarrow> bool" where
  "shows_at r d cs M s \<longleftrightarrow> (\<exists>f. (wf_dirents (f cs) \<and> map_of (f cs) = M) \<and> tree (updated d f r) s)"

lemma shows_at_start: "wf_dirents cs \<Longrightarrow> tree r s \<Longrightarrow> shows_at r d cs (map_of cs) s"
  unfolding shows_at_def by (rule exI [of _ "\<lambda>cs. cs"]) (simp add: updated_id)

lemma from_shows_at:
  assumes "\<And>f. wf_dirents (f cs) \<Longrightarrow> map_of (f cs) = M \<Longrightarrow> io_valid (tree (updated d f r)) m Q R"
  shows "io_valid (shows_at r d cs M) m Q R"
  unfolding shows_at_def by (rule io_valid_ex) (use assms in blast)

lemma shows_atI:
  "wf_dirents (g (f cs)) \<Longrightarrow> map_of (g (f cs)) = M \<Longrightarrow> tree (updated d g (updated d f r)) s \<Longrightarrow> shows_at r d cs M s"
  unfolding shows_at_def updated_compose by (rule exI [of _ "\<lambda>cs. g (f cs)"]) simp

lemma shows_at_same:
  "wf_dirents (f cs) \<Longrightarrow> map_of (f cs) = M \<Longrightarrow> tree (updated d f r) s \<Longrightarrow> shows_at r d cs M s"
  unfolding shows_at_def by blast

lemma shows_at_put:
  "wf_dirents (f cs) \<Longrightarrow> map_of (f cs) = M \<Longrightarrow> wf_node x \<Longrightarrow> n \<noteq> ''.'' \<Longrightarrow> n \<noteq> ''..'' \<Longrightarrow>
     tree (updated d (dir_put n x) (updated d f r)) s \<Longrightarrow> shows_at r d cs (M(n \<mapsto> x)) s"
  by (rule shows_atI [where g = "dir_put n x" and f = f]) (auto intro: wf_dirents_put)

lemma shows_at_del:
  "wf_dirents (f cs) \<Longrightarrow> map_of (f cs) = M \<Longrightarrow>
     tree (updated d (dir_del n) (updated d f r)) s \<Longrightarrow> shows_at r d cs (M(n := None)) s"
  by (rule shows_atI [where g = "dir_del n" and f = f]) (auto intro: wf_dirents_del)

lemma keeps_shows_at:
  assumes "\<And>r. io_valid (tree r) m (\<lambda>_. tree r) (\<lambda>e s. io_fault e \<and> tree r s)"
  shows "io_valid (shows_at r d cs M) m (\<lambda>_. shows_at r d cs M) (\<lambda>_. shows_at r d cs M)"
  by (rule from_shows_at, rule io_valid_conseq [OF assms]) (auto intro: shows_at_same)

lemma create_at_rule:
  assumes d: "lookup r d = Some (Directory a cs)" and n: "n \<noteq> ''.''" "n \<noteq> ''..''"
  shows "io_valid (shows_at r d cs M) (create_file_at E d n mode)
    (\<lambda>_ s. shows_at r d cs (M(n \<mapsto> RegFile \<lparr>fa_uid = env_euid E, fa_perm = mode\<rparr> [])) s \<and> M n = None)
    (\<lambda>_. shows_at r d cs M)"
proof (rule from_shows_at, rule io_valid_conseq [OF create_file_at_rule])
  fix f x s assume f: "wf_dirents (f cs)" "map_of (f cs) = M"
    and c: "x = d @ [n] \<and> (\<exists>b ds. lookup (updated d f r) d = Some (Directory b ds) \<and> n \<notin> fst ` set ds)
      \<and> tree (updated d (dir_put n (RegFile \<lparr>fa_uid = env_euid E, fa_perm = mode\<rparr> [])) (updated d f r)) s"
  from c lookup_updated [OF d, of f] have "n \<notin> fst ` set (f cs)" by simp
  then have "M n = None" unfolding f(2) [symmetric] by (simp add: map_of_eq_None_iff)
  then show "shows_at r d cs (M(n \<mapsto> RegFile \<lparr>fa_uid = env_euid E, fa_perm = mode\<rparr> [])) s \<and> M n = None"
    using f c n by (auto intro!: shows_at_put)
qed (auto intro: shows_at_same)

lemma mkdir_in_rule:
  assumes d: "lookup r d = Some (Directory a cs)" and n: "n \<noteq> ''.''" "n \<noteq> ''..''"
  shows "io_valid (shows_at r d cs M) (mkdir_at E d n mode)
    (\<lambda>_ s. shows_at r d cs (M(n \<mapsto> Directory \<lparr>fa_uid = env_euid E, fa_perm = mode\<rparr> [])) s \<and> M n = None)
    (\<lambda>e s. shows_at r d cs M s \<and> (e = OsError EEXIST \<longrightarrow> M n \<noteq> None))"
proof (rule from_shows_at, rule io_valid_conseq [OF mkdir_at_rule])
  fix f x s assume f: "wf_dirents (f cs)" "map_of (f cs) = M"
    and c: "(\<exists>b ds. lookup (updated d f r) d = Some (Directory b ds) \<and> n \<notin> fst ` set ds)
      \<and> tree (updated d (dir_put n (Directory \<lparr>fa_uid = env_euid E, fa_perm = mode\<rparr> [])) (updated d f r)) s"
  from c lookup_updated [OF d, of f] have "n \<notin> fst ` set (f cs)" by simp
  then have "M n = None" unfolding f(2) [symmetric] by (simp add: map_of_eq_None_iff)
  then show "shows_at r d cs (M(n \<mapsto> Directory \<lparr>fa_uid = env_euid E, fa_perm = mode\<rparr> [])) s \<and> M n = None"
    using f c n by (auto intro!: shows_at_put)
next
  fix f e s assume f: "wf_dirents (f cs)" "map_of (f cs) = M"
    and c: "tree (updated d f r) s \<and> (e = OsError EEXIST \<longrightarrow>
        (\<exists>a cs'. lookup (updated d f r) d = Some (Directory a cs') \<and> n \<in> fst ` set cs'))"
  have "M n \<noteq> None" if "e = OsError EEXIST"
    using that c lookup_updated [OF d, of f] unfolding f(2) [symmetric] by (auto simp: map_of_eq_None_iff)
  with f c show "shows_at r d cs M s \<and> (e = OsError EEXIST \<longrightarrow> M n \<noteq> None)" by (auto intro: shows_at_same)
qed auto

lemma wf_dirents_member:
  "wf_dirents cs \<Longrightarrow> map_of cs n = Some x \<Longrightarrow> n \<noteq> ''.'' \<and> n \<noteq> ''..'' \<and> wf_node x"
  by (auto simp: wf_dirents_def list_all_iff dest!: map_of_SomeD)

lemma wf_dirents_append: "wf_dirents cs \<Longrightarrow> wf_dirents (append_file n bytes cs)"
  using wf_dirents_member [of cs n]
  by (auto simp: append_file_def intro!: wf_dirents_put split: option.splits node.splits)

lemma write_at_rule:
  assumes M: "M n = Some (RegFile b [])"
  shows "io_valid (shows_at r d cs M) (write_all d n bytes)
    (\<lambda>_. shows_at r d cs (M(n \<mapsto> RegFile b bytes)))
    (\<lambda>_ s. \<exists>k. shows_at r d cs (M(n \<mapsto> RegFile b (take k bytes))) s)"
proof (rule from_shows_at)
  fix f assume f: "wf_dirents (f cs)" "map_of (f cs) = M"
  have w: "shows_at r d cs (M(n \<mapsto> RegFile b bs)) s" if "tree (updated d (append_file n bs) (updated d f r)) s" for bs s
    by (rule shows_atI [OF wf_dirents_append [OF f(1)] _ that]) (use f M in \<open>simp add: append_file_def\<close>)
  show "io_valid (tree (updated d f r)) (write_all d n bytes) (\<lambda>_. shows_at r d cs (M(n \<mapsto> RegFile b bytes)))
    (\<lambda>_ s. \<exists>k. shows_at r d cs (M(n \<mapsto> RegFile b (take k bytes))) s)"
    by (rule io_valid_conseq [OF write_all_rule]) (auto intro: w)
qed

lemma rename_at_rule:
  assumes d: "lookup r d = Some (Directory a cs)" and n: "m \<noteq> ''.''" "m \<noteq> ''..''" and M: "M n = Some x" and x: "wf_node x"
  shows "io_valid (shows_at r d cs M) (rename_in d n m)
    (\<lambda>_. shows_at r d cs ((M(n := None))(m \<mapsto> x))) (\<lambda>_. shows_at r d cs M)"
proof (rule from_shows_at, rule io_valid_conseq [OF rename_in_rule])
  fix f v s assume f: "wf_dirents (f cs)" "map_of (f cs) = M"
    and c: "\<exists>a' cs' y. lookup (updated d f r) d = Some (Directory a' cs') \<and> map_of cs' n = Some y
      \<and> tree (updated d (\<lambda>cs. dir_put m y (dir_del n cs)) (updated d f r)) s"
  from c lookup_updated [OF d, of f] f M
  have s: "tree (updated d (\<lambda>cs. dir_put m x (dir_del n cs)) (updated d f r)) s" by auto
  show "shows_at r d cs ((M(n := None))(m \<mapsto> x)) s"
    by (rule shows_atI [OF _ _ s]) (use f n x in \<open>auto intro!: wf_dirents_put wf_dirents_del\<close>)
qed (auto intro: shows_at_same)

lemma unlink_in_rule:
  assumes d: "lookup r d = Some (Directory a cs)"
  shows "io_valid (shows_at r d cs M) (unlink_at d n rd)
    (\<lambda>_. shows_at r d cs (M(n := None))) (\<lambda>_. shows_at r d cs M)"
  by (rule from_shows_at, rule io_valid_conseq [OF unlink_at_rule]) (auto intro: shows_at_same shows_at_del)

section \<open>Publishing the metadata file\<close>

definition metadata_node :: "env \<Rightarrow> metadata \<Rightarrow> node" where
  "metadata_node E m = RegFile \<lparr>fa_uid = env_euid E, fa_perm = 0x180\<rparr> (metadata_encode E m)"

lemma metadata_temp_name:
  "metadata_temp_name E c \<noteq> ''.''" "metadata_temp_name E c \<noteq> ''..''"
  "metadata_temp_name E c \<noteq> METADATA_NAME" "metadata_temp_name E c \<noteq> WORKSPACE_NAME"
  by (simp_all add: metadata_temp_name_def METADATA_TEMP_PREFIX_def METADATA_NAME_def WORKSPACE_NAME_def)

text \<open>
  \<open>metadata_unpublished\<close>: the metadata file and the workspace are as they were; only an entry with
  the name of a temporary file may have come or gone.
\<close>

definition metadata_unpublished ::
  "env \<Rightarrow> node option \<Rightarrow> fd \<Rightarrow> dirents \<Rightarrow> (string \<Rightarrow> node option) \<Rightarrow> fsys \<Rightarrow> bool" where
  "metadata_unpublished E r d cs M s \<longleftrightarrow> (\<exists>c y. shows_at r d cs (M(metadata_temp_name E c := y)) s)"

lemma unpublishedI: "shows_at r d cs (M(metadata_temp_name E c := y)) s \<Longrightarrow> metadata_unpublished E r d cs M s"
  by (auto simp: metadata_unpublished_def)

lemma metadata_steps_rule:
  fixes E c defines "t \<equiv> metadata_temp_name E c"
  assumes d: "lookup r d = Some (Directory a cs)"
  shows "io_valid (shows_at r d cs M) (metadata_steps E d t m)
    (\<lambda>_. shows_at r d cs (M(METADATA_NAME \<mapsto> metadata_node E m)))
    (\<lambda>_ s. \<exists>y. shows_at r d cs (M(t := y)) s)"
proof -
  let ?S = "shows_at r d cs" and ?R = "\<lambda>_ s. \<exists>y. shows_at r d cs (M(t := y)) s"
  let ?e = "RegFile \<lparr>fa_uid = env_euid E, fa_perm = 0x180\<rparr> []"
  note t = metadata_temp_name [of E c, folded t_def]
  have M: "?S M s \<Longrightarrow> ?R e s" for e :: io_error and s by (rule exI [of _ "M t"]) simp
  have keep: "io_valid (?S (M(t := y))) k (\<lambda>_. ?S (M(t := y))) ?R"
    if "\<And>r. io_valid (tree r) k (\<lambda>_. tree r) (\<lambda>e s. io_fault e \<and> tree r s)" for y and k :: "unit sys"
    by (rule io_valid_conseq [OF keeps_shows_at [OF that]]) auto
  have create: "io_valid (?S M) (create_file_at E d t 0x180) (\<lambda>_ s. ?S (M(t \<mapsto> ?e)) s \<and> M t = None) ?R"
    by (rule io_valid_conseq [OF create_at_rule [OF d t(1,2)]]) (auto intro: M)
  have wr: "io_valid (?S (M(t \<mapsto> ?e))) (write_all d t (metadata_encode E m)) (\<lambda>_. ?S (M(t \<mapsto> metadata_node E m))) ?R"
    using write_at_rule [where M = "M(t \<mapsto> ?e)" and n = t and bytes = "metadata_encode E m" and d = d and r = r and cs = cs]
    by (rule io_valid_conseq) (auto simp: metadata_node_def)
  have ren: "io_valid (?S (M(t \<mapsto> metadata_node E m))) (rename_in d t METADATA_NAME)
      (\<lambda>_. ?S (M(METADATA_NAME \<mapsto> metadata_node E m))) ?R" if "M t = None"
  proof -
    have "M(t := None) = M" using that by auto
    moreover have "METADATA_NAME \<noteq> ''.''" "METADATA_NAME \<noteq> ''..''" "wf_node (metadata_node E m)"
      by (simp_all add: METADATA_NAME_def metadata_node_def)
    ultimately show ?thesis
      using rename_at_rule [OF d, where M = "M(t \<mapsto> metadata_node E m)" and n = t and m = METADATA_NAME
          and x = "metadata_node E m"]
      by (auto elim!: io_valid_conseq)
  qed
  have trip0: "io_valid (?S M) (trip p) (\<lambda>_. ?S M) ?R" for p
    by (rule io_valid_conseq [OF keeps_shows_at [OF trip_rule]]) (auto intro: M)
  show ?thesis
    unfolding metadata_steps_def
    by (rule io_valid_then [OF trip0], rule io_valid_bind [OF create], rule io_valid_pure)
      (intro io_valid_then [OF keep [OF trip_rule]] io_valid_then [OF wr]
        io_valid_then [OF keep [OF sync_file_rule]] ren)
qed

lemma write_metadata_at_rule:
  assumes d: "lookup r d = Some (Directory a cs)"
  shows "io_valid (shows_at r d cs M) (write_metadata_at E d m)
    (\<lambda>_. shows_at r d cs (M(METADATA_NAME \<mapsto> metadata_node E m)))
    (\<lambda>_. metadata_unpublished E r d cs M)"
  unfolding write_metadata_at_def
proof (rule io_valid_bind)
  show "io_valid (shows_at r d cs M) fetch_counter (\<lambda>_. shows_at r d cs M) (\<lambda>_. metadata_unpublished E r d cs M)"
    by (rule io_validI) (auto simp: fetch_counter_def shows_at_def)
next
  fix c let ?t = "metadata_temp_name E c"
  have un: "io_valid (\<lambda>s. \<exists>y. shows_at r d cs (M(?t := y)) s) (unlink_at d ?t False)
      (\<lambda>_. metadata_unpublished E r d cs M) (\<lambda>_. metadata_unpublished E r d cs M)"
    by (rule io_valid_pre, rule io_valid_ex [where P = "\<lambda>_. True"],
        rule io_valid_conseq [OF unlink_in_rule [OF d, where M = "M(?t := y)" for y]])
      (auto intro: unpublishedI)
  show "io_valid (shows_at r d cs M) (with_cleanup (metadata_steps E d ?t m) (unlink_at d ?t False))
      (\<lambda>_. shows_at r d cs (M(METADATA_NAME \<mapsto> metadata_node E m))) (\<lambda>_. metadata_unpublished E r d cs M)"
    by (rule with_cleanup_rule [OF metadata_steps_rule [OF d] un])
qed

section \<open>The registry a tree represents\<close>

definition registry_on :: "env \<Rightarrow> registry \<Rightarrow> node option \<Rightarrow> bool" where
  "registry_on E R r \<longleftrightarrow> wf_tree r \<and> (\<exists>a cs. r = Some (Directory a cs))
     \<and> (\<forall>i. valid_id i \<longrightarrow> slot_of E r i = R i)"

definition registry_at :: "env \<Rightarrow> registry \<Rightarrow> fsys \<Rightarrow> bool" where
  "registry_at E R s \<longleftrightarrow> registry_on E R (fs_root s)"

definition record_slot :: "metadata option \<Rightarrow> slot" where
  "record_slot x = (case x of None \<Rightarrow> Broken | Some m \<Rightarrow> Held m)"

lemma record_slot_simps [simp]: "record_slot None = Broken" "record_slot (Some m) = Held m"
  by (simp_all add: record_slot_def)

lemma from_registry_at:
  assumes "\<And>r. registry_on E R r \<Longrightarrow> io_valid (tree r) m Q Z"
  shows "io_valid (registry_at E R) m Q Z"
proof -
  have "io_valid (\<lambda>s. \<exists>r. registry_on E R r \<and> tree r s) m Q Z" by (rule io_valid_ex) (rule assms)
  then show ?thesis by (rule io_valid_pre) (simp add: registry_at_def)
qed

lemma registry_atI: "registry_on E R r \<Longrightarrow> tree r s \<Longrightarrow> registry_at E R s"
  by (simp add: registry_at_def)

lemma id_name: "valid_id i \<Longrightarrow> id_as_str i \<noteq> ''.'' \<and> id_as_str i \<noteq> ''..''"
  by (auto simp: valid_id_def id_grammar_def is_ascii_alphanumeric_def is_ascii_digit_def is_ascii_alphabetic_def)

lemma updated_root: "r = Some (Directory a cs) \<Longrightarrow> \<exists>b ds. updated p f r = Some (Directory b ds)"
  by (cases p) auto

lemma slot_shown:
  assumes "lookup r [id_as_str i] = Some (Directory a cs)" and "shows_at r [id_as_str i] cs M s"
  shows "slot_of E (fs_root s) i = record_slot (record_in E i a M)"
  using assms(2) lookup_updated [OF assms(1)]
  by (auto simp: shows_at_def slot_of_def record_slot_def)

lemma slot_beside:
  assumes "id_as_str j \<noteq> n" and "shows_at r [n] cs M s"
  shows "slot_of E (fs_root s) j = slot_of E r j"
  using assms lookup_updated_beside [where x = n and y = "id_as_str j" and p = "[]" and q = "[]" and r = r]
  by (auto simp: shows_at_def slot_of_def)

text \<open>A changed sandbox directory changes the slot of its own identifier only.\<close>

lemma registry_shown:
  assumes R: "registry_on E R r" and i: "lookup r [id_as_str i] = Some (Directory a cs)"
    and s: "shows_at r [id_as_str i] cs M s"
  shows "registry_at E (R(i := record_slot (record_in E i a M))) s"
proof -
  from s obtain f where f: "wf_dirents (f cs)" "tree (updated [id_as_str i] f r) s" by (auto simp: shows_at_def)
  have "wf_tree (fs_root s)" using R i f by (auto simp: registry_on_def intro!: wf_tree_updated)
  moreover have "\<exists>b ds. fs_root s = Some (Directory b ds)"
    using R f updated_root [of r] by (auto simp: registry_on_def)
  moreover have "slot_of E (fs_root s) j = (R(i := record_slot (record_in E i a M))) j" if "valid_id j" for j
  proof (cases "j = i")
    case True
    then show ?thesis using slot_shown [OF i s] by simp
  next
    case False
    then have "id_as_str j \<noteq> id_as_str i" by (auto simp: sandbox_id.expand)
    with slot_beside [OF this s] R that False show ?thesis by (simp add: registry_on_def)
  qed
  ultimately show ?thesis by (simp add: registry_at_def registry_on_def)
qed

lemma slot_broken: "M METADATA_NAME = None \<or> \<not> dom M \<subseteq> {METADATA_NAME, WORKSPACE_NAME} \<Longrightarrow> record_in E i a M = None"
  by (auto simp: record_in_def)

text \<open>A record that its own document denotes.\<close>

definition metadata_readable :: "env \<Rightarrow> metadata \<Rightarrow> bool" where
  "metadata_readable E m \<longleftrightarrow> metadata_decode E (metadata_encode E m) (md_id m) = Inr m"

lemma metadata_file_node: "metadata_readable E m \<Longrightarrow> metadata_file E (md_id m) (Some (metadata_node E m)) = Some m"
  by (simp add: metadata_node_def metadata_readable_def mode_bits_def)

section \<open>Creating a sandbox\<close>

lemma open_root_rule:
  "io_valid (tree r) (storage_open_root st) (\<lambda>v s. tree r s \<and> v = []) (\<lambda>e s. tree r s \<and> (\<forall>p. e \<noteq> StAlreadyExists p))"
  unfolding storage_open_root_def
  by (rule io_valid_map_err, rule io_valid_conseq [OF open_directory_path_rule [of r]]) (auto simp: storage_io_path_def)

text \<open>The tree right after the directory of the sandbox was made.\<close>

definition new_dir :: "env \<Rightarrow> node" where
  "new_dir E = Directory \<lparr>fa_uid = env_euid E, fa_perm = 0x1C0\<rparr> []"

lemma trusted_new: "trusted E \<lparr>fa_uid = env_euid E, fa_perm = 0x1C0\<rparr>"
  by (simp add: trusted_def group_world_writable_def mode_bits_def)

lemma registry_new_dir:
  assumes R: "registry_on E R r" and i: "valid_id i" and v: "R i = Vacant"
  defines "r' \<equiv> updated [] (dir_put (id_as_str i) (new_dir E)) r"
  shows "registry_on E (R(i := Broken)) r'" and "lookup r' [id_as_str i] = Some (new_dir E)"
proof -
  from R obtain a cs where r: "r = Some (Directory a cs)" by (auto simp: registry_on_def)
  have r': "r' = Some (Directory a (dir_put (id_as_str i) (new_dir E) cs))" by (simp add: r'_def r)
  have wf: "wf_dirents cs" using R by (simp add: registry_on_def r wf_tree_def wf_dirents_def)
  have look: "lookup r' [x] = (if x = id_as_str i then Some (new_dir E) else lookup r [x])" for x
    by (simp add: r' r lookup_Cons)
  then show "lookup r' [id_as_str i] = Some (new_dir E)" by simp
  have "wf_dirents (dir_put (id_as_str i) (new_dir E) cs)"
    by (rule wf_dirents_put [OF wf]) (use id_name [OF i] in \<open>auto simp: new_dir_def\<close>)
  then have "wf_tree r'" by (simp add: r' wf_tree_def wf_dirents_def)
  moreover have "slot_of E r' j = (R(i := Broken)) j" if "valid_id j" for j
  proof (cases "j = i")
    case True
    then show ?thesis by (simp add: slot_of_def look new_dir_def slot_broken)
  next
    case False
    then have "id_as_str j \<noteq> id_as_str i" by (auto simp: sandbox_id.expand)
    with R that False show ?thesis by (simp add: slot_of_def look registry_on_def)
  qed
  ultimately show "registry_on E (R(i := Broken)) r'" by (simp add: registry_on_def r')
qed

text \<open>The steps after the directory was made, in that directory.\<close>

definition create_rest :: "env \<Rightarrow> storage \<Rightarrow> sandbox_id \<Rightarrow> metadata \<Rightarrow> fd \<Rightarrow> fd \<Rightarrow> metadata storage_io" where
  "create_rest E st i m root d =
     io_then (storage_trip st CreateWorkspace i)
     (io_then (io_map_err (storage_io st ''create sandbox workspace'' i) (mkdir_at E d WORKSPACE_NAME 0x1C0))
     (io_then (io_map_err (with_context ''publish sandbox metadata'' (entry_path st i)) (write_metadata_at E d m))
     (io_then (io_map_err (storage_io st ''sync sandbox directory'' i) (storage_sync_directory d MetadataParentSync))
     (io_then (io_map_err (storage_io st ''sync sandbox root'' i) (storage_sync_directory root RegistryParentSync))
     (io_ok m)))))"

lemma sync_rule: "io_valid (tree r) (storage_sync_directory d p) (\<lambda>_. tree r) (\<lambda>e s. io_fault e \<and> tree r s)"
  unfolding storage_sync_directory_def by (rule io_valid_then [OF trip_rule sync_directory_rule])

lemma record_in_published:
  assumes "metadata_readable E m" and "trusted E a"
    and "dom M \<subseteq> {METADATA_NAME, WORKSPACE_NAME}" and "workspace_ok E m (M WORKSPACE_NAME)"
  shows "record_in E (md_id m) a (M(METADATA_NAME \<mapsto> metadata_node E m)) = Some m"
proof -
  have "WORKSPACE_NAME \<noteq> METADATA_NAME" by (simp add: WORKSPACE_NAME_def METADATA_NAME_def)
  with assms metadata_file_node [OF assms(1)] show ?thesis by (auto simp: record_in_def)
qed

definition not_exists :: "storage_error \<Rightarrow> bool" where
  "not_exists e \<longleftrightarrow> (\<forall>p. e \<noteq> StAlreadyExists p)"

lemma not_exists_io [simp]:
  "not_exists (storage_io st op i e)" "not_exists (with_context op p e)" "not_exists (StIo op p e)"
  by (simp_all add: not_exists_def storage_io_def with_context_def)

lemma create_rest_rule:
  assumes m: "metadata_readable E m" "md_state m = Active" "md_id m = i" and R: "registry_on E R r"
    and d: "lookup r [id_as_str i] = Some (new_dir E)"
  shows "io_valid (tree r) (create_rest E st i m [] [id_as_str i])
    (\<lambda>v s. v = m \<and> registry_at E (R(i := Held m)) s)
    (\<lambda>e s. not_exists e \<and> (registry_at E (R(i := Broken)) s \<or> registry_at E (R(i := Held m)) s))"
    (is "io_valid _ _ ?Q ?Z")
proof -
  let ?a = "\<lparr>fa_uid = env_euid E, fa_perm = 0x1C0\<rparr>" and ?d = "[id_as_str i]" and ?w = WORKSPACE_NAME
  let ?S = "shows_at r ?d []"
  let ?W = "[?w \<mapsto> new_dir E]" and ?F = "[?w \<mapsto> new_dir E, METADATA_NAME \<mapsto> metadata_node E m]"
  note d' = d [unfolded new_dir_def]
  have names: "?w \<noteq> METADATA_NAME" "?w \<noteq> ''.''" "?w \<noteq> ''..''"
    by (simp_all add: WORKSPACE_NAME_def METADATA_NAME_def)
  have broken: "?S M s \<Longrightarrow> record_in E i ?a M = None \<Longrightarrow> not_exists e \<Longrightarrow> ?Z e s" for M s e
    using registry_shown [OF R d'] by (metis record_slot_simps(1))
  have held: "?S ?F s \<Longrightarrow> registry_at E (R(i := Held m)) s" for s
    using registry_shown [OF R d', of ?F s] record_in_published [OF m(1) trusted_new, of ?W] trusted_new [of E]
    by (auto simp: m(3) new_dir_def)
  have fresh: "?S Map.empty s \<Longrightarrow> registry_at E (R(i := Broken)) s" for s
    using registry_shown [OF R d', of Map.empty s] by (simp add: slot_broken)
  have t0: "io_valid (?S Map.empty) (storage_trip st p i) (\<lambda>_. ?S Map.empty) ?Z" for p
    unfolding storage_trip_def
    by (rule io_valid_map_err, rule io_valid_conseq [OF keeps_shows_at [OF trip_rule]])
      (auto dest: fresh)
  have ws: "io_valid (?S Map.empty) (io_map_err (storage_io st op i) (mkdir_at E ?d ?w 0x1C0)) (\<lambda>_. ?S ?W) ?Z" for op
    by (rule io_valid_map_err, rule io_valid_conseq [OF mkdir_in_rule [OF d' names(2,3)]])
      (auto simp: new_dir_def dest: fresh)
  have wm: "io_valid (?S ?W) (io_map_err (with_context op (entry_path st i)) (write_metadata_at E ?d m)) (\<lambda>_. ?S ?F) ?Z" for op
  proof (rule io_valid_map_err, rule io_valid_conseq [OF write_metadata_at_rule [OF d']])
    fix e s assume "metadata_unpublished E r ?d [] ?W s"
    then obtain c y where cy: "?S (?W(metadata_temp_name E c := y)) s" by (auto simp: metadata_unpublished_def)
    show "?Z (with_context op (entry_path st i) e) s"
      by (rule broken [OF cy slot_broken], rule disjI1)
        (simp_all add: names(1) [symmetric] metadata_temp_name(3) [symmetric])
  qed auto
  have sy: "io_valid (?S ?F) (io_map_err (storage_io st op i) (storage_sync_directory q p)) (\<lambda>_. ?S ?F) ?Z" for op p q
    by (rule io_valid_map_err, rule io_valid_conseq [OF keeps_shows_at [OF sync_rule]]) (auto dest: held)
  have fin: "io_valid (?S ?F) (io_ok m) ?Q ?Z"
    by (rule io_validI) (auto simp: io_ok_def dest: held)
  have start: "tree r s \<Longrightarrow> ?S Map.empty s" for s
    using shows_at_start [where cs = "[]" and r = r and s = s and d = ?d] by (simp add: wf_dirents_def)
  show ?thesis
    unfolding create_rest_def
    by (rule io_valid_pre [where P = "?S Map.empty"],
        intro io_valid_then [OF t0] io_valid_then [OF ws] io_valid_then [OF wm] io_valid_then [OF sy] fin)
      (rule start)
qed

lemma create_active_rule:
  assumes i: "valid_id i" and m: "metadata_readable E (metadata_active i owner)"
  shows "io_valid (registry_at E R) (create_active E st i owner)
    (\<lambda>v s. v = metadata_active i owner \<and> R i = Vacant \<and> registry_at E (R(i := Held v)) s)
    (\<lambda>e s. (e = StAlreadyExists (entry_path st i) \<and> R i \<noteq> Vacant \<and> registry_at E R s)
       \<or> not_exists e \<and> (registry_at E R s \<or> R i = Vacant \<and>
           (registry_at E (R(i := Broken)) s \<or> registry_at E (R(i := Held (metadata_active i owner))) s)))"
    (is "io_valid _ _ ?Q ?Z")
proof (rule from_registry_at)
  fix r assume R: "registry_on E R r"
  let ?n = "id_as_str i" and ?m = "metadata_active i owner"
  let ?r = "updated [] (dir_put ?n (new_dir E)) r"
  obtain a cs where r: "r = Some (Directory a cs)" using R by (auto simp: registry_on_def)
  have vac: "R i = Vacant \<longleftrightarrow> ?n \<notin> fst ` set cs"
  proof -
    have "R i = slot_of E r i" using R i by (simp add: registry_on_def)
    then show ?thesis by (auto simp: slot_of_def r lookup_Cons map_of_eq_None_iff record_slot_def
          split: option.splits node.splits) (metis map_of_eq_None_iff option.distinct(1))+
  qed
  note keep = registry_atI [OF R]
  have t: "io_valid (tree r) (storage_trip st p i) (\<lambda>_. tree r) ?Z" for p
    unfolding storage_trip_def
    by (rule io_valid_map_err, rule io_valid_conseq [OF trip_rule]) (auto intro: keep)
  have mk: "io_valid (tree r) (io_match (mkdir_at E [] ?n 0x1C0)
        (\<lambda>e. if errno_is e EEXIST then io_err (StAlreadyExists (entry_path st i))
              else io_err (storage_io st ''create sandbox directory'' i e)) io_ok)
      (\<lambda>_ s. tree ?r s \<and> R i = Vacant) ?Z"
    by (rule io_valid_match [OF mkdir_at_rule]; rule io_validI)
      (auto simp: io_simps vac errno_is_def new_dir_def r intro: keep split: if_splits)
  have rest: "io_valid (\<lambda>s. tree ?r s \<and> R i = Vacant)
      (io_bind (io_map_err (storage_io st ''open new sandbox directory'' i) (open_directory_at [] ?n)) (\<lambda>d.
         create_rest E st i ?m [] d)) ?Q ?Z"
  proof (rule io_valid_pure)
    assume v: "R i = Vacant"
    note new = registry_new_dir [OF R i v]
    have op: "io_valid (tree ?r) (io_map_err (storage_io st ''open new sandbox directory'' i) (open_directory_at [] ?n))
        (\<lambda>d s. tree ?r s \<and> d = [?n]) ?Z"
      by (rule io_valid_map_err, rule io_valid_conseq [OF open_directory_at_rule])
        (auto simp: v intro: registry_atI [OF new(1)])
    have "io_valid (tree ?r) (create_rest E st i ?m [] [?n]) ?Q ?Z"
      by (rule io_valid_conseq [OF create_rest_rule [OF m _ _ new]]) (auto simp: metadata_active_def v)
    then show "io_valid (tree ?r) (io_bind (io_map_err (storage_io st ''open new sandbox directory'' i)
        (open_directory_at [] ?n)) (\<lambda>d. create_rest E st i ?m [] d)) ?Q ?Z"
      by (intro io_valid_bind [OF op] io_valid_pure) simp
  qed
  have root: "io_valid (tree r) (storage_open_root st) (\<lambda>v s. tree r s \<and> v = []) ?Z"
    by (rule io_valid_conseq [OF open_root_rule]) (auto simp: not_exists_def intro: keep)
  show "io_valid (tree r) (create_active E st i owner) ?Q ?Z"
    unfolding create_active_def Let_def create_rest_def [symmetric]
    by (rule io_valid_bind [OF root], rule io_valid_pure, hypsubst)
      (intro io_valid_then [OF t] io_valid_then [OF mk] rest)
qed

end
