(* ===== verification/Storage_Ops.thy ===== *)
theory Storage_Ops
  imports Storage_Rules
begin

text \<open>
  Updating, removing and scanning sandboxes, against the registry map of \<open>Storage_Rules\<close>.
\<close>

section \<open>Updating a record\<close>

text \<open>The update that \<open>write_metadata\<close> allows: same owner, and never from deleting to active.\<close>

definition may_replace :: "slot \<Rightarrow> metadata \<Rightarrow> bool" where
  "may_replace x m \<longleftrightarrow> (case x of Held cur \<Rightarrow> md_owner cur = md_owner m
     \<and> (md_state cur = Deleting \<longrightarrow> md_state m = Deleting) | _ \<Rightarrow> False)"

lemma record_in_Some:
  "record_in E i a M = Some m \<longleftrightarrow> trusted E a \<and> dom M \<subseteq> {METADATA_NAME, WORKSPACE_NAME}
     \<and> metadata_file E i (M METADATA_NAME) = Some m \<and> workspace_ok E m (M WORKSPACE_NAME)"
  by (auto simp: record_in_def split: option.splits)

lemma current_record_Inr: "current_record st i e = Inr m \<longleftrightarrow> e = EntryActive m \<or> e = EntryDeleting m"
  by (cases e) (auto simp: current_record_def)

lemma entry_for_held: "entry_for m = EntryActive c \<or> entry_for m = EntryDeleting c \<longleftrightarrow> c = m"
  by (auto simp: entry_for_def split: state.splits)

lemma names_differ [simp]: "WORKSPACE_NAME \<noteq> METADATA_NAME" "METADATA_NAME \<noteq> WORKSPACE_NAME"
  by (simp_all add: WORKSPACE_NAME_def METADATA_NAME_def)

lemma record_replaced:
  assumes "record_in E i a M = Some cur" and "may_replace (Held cur) m" and "metadata_readable E m" and "md_id m = i"
  shows "record_in E i a (M(METADATA_NAME \<mapsto> metadata_node E m)) = Some m"
proof -
  have "workspace_ok E m (M WORKSPACE_NAME)"
    using assms(1,2) by (cases "(E, m, M WORKSPACE_NAME)" rule: workspace_ok.cases)
      (auto simp: record_in_Some may_replace_def is_deleting_def)
  with assms show ?thesis using record_in_published [of E m a M] by (auto simp: record_in_Some)
qed

lemma record_beside_temp:
  assumes "record_in E i a M = Some cur"
  shows "record_in E i a (M(metadata_temp_name E c := y)) = (if y = None then Some cur else None)"
proof (cases y)
  case None
  have "M (metadata_temp_name E c) = None"
    using assms metadata_temp_name(3,4) [of E c] by (auto simp: record_in_Some)
  then have "M(metadata_temp_name E c := y) = M" using None by auto
  with assms None show ?thesis by simp
next
  case (Some z)
  then show ?thesis using metadata_temp_name(3,4) [of E c] by (auto intro!: slot_broken)
qed

text \<open>What an update may leave when it fails: the old record, a stray temporary file, or the new record.\<close>

abbreviation update_failed :: "env \<Rightarrow> registry \<Rightarrow> sandbox_id \<Rightarrow> metadata \<Rightarrow> fsys \<Rightarrow> bool" where
  "update_failed E R i m s \<equiv> registry_at E R s \<or> may_replace (R i) m \<and>
     (registry_at E (R(i := Broken)) s \<or> registry_at E (R(i := Held m)) s)"

lemma registry_dirents:
  "registry_on E R r \<Longrightarrow> lookup r p = Some (Directory a cs) \<Longrightarrow> wf_dirents cs"
  using wf_tree_lookup [of r p] by (auto simp: registry_on_def wf_dirents_def)

lemma replace_record_rule:
  fixes m defines "i \<equiv> md_id m"
  assumes R: "registry_on E R r" and m: "metadata_readable E m"
    and d: "lookup r [id_as_str i] = Some (Directory a cs)" and cur: "record_in E i a (map_of cs) = Some cur"
    and Ri: "R i = Held cur" and may: "may_replace (Held cur) m"
  shows "io_valid (tree r)
      (io_then (io_map_err (with_context op (entry_path st i)) (write_metadata_at E [id_as_str i] m))
        (io_map_err (storage_io st op' i) (storage_sync_directory [id_as_str i] p)))
      (\<lambda>_. registry_at E (R(i := Held m))) (\<lambda>_. update_failed E R i m)" (is "io_valid _ _ ?Q ?Z")
proof -
  let ?S = "shows_at r [id_as_str i] cs" and ?F = "(map_of cs)(METADATA_NAME \<mapsto> metadata_node E m)"
  have new: "?S ?F s \<Longrightarrow> registry_at E (R(i := Held m)) s" for s
    using registry_shown [OF R d] record_replaced [OF cur may m] by (metis i_def record_slot_simps(2))
  have part: "update_failed E R i m s" if unp: "metadata_unpublished E r [id_as_str i] cs (map_of cs) s" for s
  proof -
    from unp obtain c y where "?S ((map_of cs)(metadata_temp_name E c := y)) s"
      by (auto simp: metadata_unpublished_def)
    from registry_shown [OF R d this] show ?thesis
      using Ri may fun_upd_triv [of R i] by (cases y) (simp_all add: record_beside_temp [OF cur])
  qed
  have w: "io_valid (tree r) (io_map_err (with_context op (entry_path st i)) (write_metadata_at E [id_as_str i] m))
      (\<lambda>_. ?S ?F) ?Z"
    by (rule io_valid_map_err, rule io_valid_conseq [OF write_metadata_at_rule [OF d]])
      (use part shows_at_start [OF registry_dirents [OF R d]] in auto)
  have sy: "io_valid (?S ?F) (io_map_err (storage_io st op' i) (storage_sync_directory [id_as_str i] p)) ?Q ?Z"
    by (rule io_valid_map_err, rule io_valid_conseq [OF keeps_shows_at [OF sync_rule]])
      (use Ri may new in auto)
  show ?thesis by (rule io_valid_then [OF w sy])
qed

lemma write_metadata_rule:
  fixes m defines "i \<equiv> md_id m"
  assumes i: "valid_id (md_id m)" and m: "metadata_readable E m"
  shows "io_valid (registry_at E R) (write_metadata E st m)
    (\<lambda>_ s. may_replace (R i) m \<and> registry_at E (R(i := Held m)) s) (\<lambda>_. update_failed E R i m)"
    (is "io_valid _ _ ?Q ?Z")
proof (rule from_registry_at)
  fix r assume R: "registry_on E R r"
  let ?n = "id_as_str i"
  note keep = registry_atI [OF R]
  have Ri: "R i = slot_of E r i" using R i by (simp add: registry_on_def i_def)
  have root: "io_valid (tree r) (storage_open_root st) (\<lambda>v s. tree r s \<and> v = []) ?Z"
    by (rule io_valid_conseq [OF open_root_rule]) (auto intro: keep)
  have op: "io_valid (tree r) (io_map_err (storage_io st ''open sandbox directory'' i) (open_directory_at [] ?n))
      (\<lambda>d s. tree r s \<and> d = [?n] \<and> (\<exists>a cs. lookup r [?n] = Some (Directory a cs))) ?Z"
    by (rule io_valid_map_err, rule io_valid_conseq [OF open_directory_at_rule]) (auto intro: keep)
  have ref: "io_valid (tree r) (io_err e) ?Q ?Z" for e by (rule tree_err) (auto intro: keep)
  have body: "io_valid (tree r) (io_bind (inspect_directory E st i [?n]) (\<lambda>entry.
      io_bind (io_lift (current_record st i entry)) (\<lambda>current.
      if md_owner current \<noteq> md_owner m
        then io_err (StCorrupt (entry_path st i) ''metadata owner cannot be changed'')
      else if md_state current = Deleting \<and> md_state m = Active
        then io_err (StCorrupt (entry_path st i) ''Deleting metadata cannot return to Active'')
      else io_then (io_map_err (with_context ''replace sandbox metadata'' (entry_path st i))
                     (write_metadata_at E [?n] m))
           (io_map_err (storage_io st ''sync sandbox metadata'' i)
             (storage_sync_directory [?n] MetadataParentSync))))) ?Q ?Z"
    if d: "lookup r [?n] = Some (Directory a cs)" for a cs
  proof -
    have ins: "io_valid (tree r) (inspect_directory E st i [?n])
        (\<lambda>v s. tree r s \<and> corrupt_or (record_in E i a (map_of cs)) v) ?Z"
      by (rule io_valid_conseq [OF inspect_directory_rule [OF d registry_dirents [OF R d]]]) (auto intro: keep)
    have cur: "io_valid (\<lambda>s. tree r s \<and> corrupt_or (record_in E i a (map_of cs)) v)
        (io_lift (current_record st i v)) (\<lambda>c s. tree r s \<and> record_in E i a (map_of cs) = Some c) ?Z" for v
      by (rule io_valid_pure, cases "record_in E i a (map_of cs)"; rule io_validI)
        (auto simp: io_lift_def current_record_Inr entry_for_held intro: keep)
    show ?thesis
    proof (intro io_valid_bind [OF ins] io_valid_bind [OF cur] io_valid_pure io_valid_if ref)
      fix c assume c: "record_in E i a (map_of cs) = Some c" "\<not> md_owner c \<noteq> md_owner m"
        "\<not> (md_state c = Deleting \<and> md_state m = Active)"
      have held: "R i = Held c" by (simp add: Ri slot_of_def d c)
      have may: "may_replace (Held c) m" using c by (cases "md_state m") (auto simp: may_replace_def)
      from replace_record_rule [OF R m, folded i_def, OF d c(1) held may]
      show "io_valid (tree r) (io_then (io_map_err (with_context ''replace sandbox metadata'' (entry_path st i))
                     (write_metadata_at E [?n] m))
           (io_map_err (storage_io st ''sync sandbox metadata'' i)
             (storage_sync_directory [?n] MetadataParentSync))) ?Q ?Z"
        by (rule io_valid_conseq) (use held may in auto)
    qed
  qed
  show "io_valid (tree r) (write_metadata E st m) ?Q ?Z"
    unfolding write_metadata_def Let_def i_def [symmetric]
    by (rule io_valid_bind [OF root], rule io_valid_pure, hypsubst, rule io_valid_bind [OF op],
        rule io_valid_pure, elim conjE exE, hypsubst, rule body)
qed

section \<open>Removing a sandbox\<close>

lemma registry_rmdir:
  assumes R: "registry_on E R r"
  shows "registry_on E (R(i := Vacant)) (updated [] (dir_del (id_as_str i)) r)"
proof -
  let ?r = "updated [] (dir_del (id_as_str i)) r"
  obtain a cs where r: "r = Some (Directory a cs)" using R by (auto simp: registry_on_def)
  have look: "lookup ?r [x] = (if x = id_as_str i then None else lookup r [x])" for x
    by (simp add: r lookup_Cons)
  have "wf_dirents cs" by (rule registry_dirents [OF R, of "[]" a]) (simp add: r)
  then have "wf_tree ?r" using wf_dirents_del [of cs "id_as_str i"] by (simp add: r wf_tree_def wf_dirents_def)
  moreover have "slot_of E ?r j = (R(i := Vacant)) j" if "valid_id j" for j
  proof (cases "j = i")
    case True
    then show ?thesis by (simp add: slot_of_def look)
  next
    case False
    then have "id_as_str j \<noteq> id_as_str i" by (auto simp: sandbox_id.expand)
    with R that False show ?thesis by (simp add: slot_of_def look registry_on_def)
  qed
  ultimately show ?thesis by (simp add: registry_on_def r)
qed

text \<open>
  What a removal may leave when it fails, for a record in the deleting state: that record, or,
  once everything else is gone, an empty directory or nothing.
\<close>

definition removal_failed :: "env \<Rightarrow> registry \<Rightarrow> sandbox_id \<Rightarrow> fsys \<Rightarrow> bool" where
  "removal_failed E R i s \<longleftrightarrow> (\<exists>x. registry_at E (R(i := x)) s
     \<and> ((\<exists>m. R i = Held m \<and> md_state m = Deleting) \<longrightarrow>
          x = R i \<or> x = Vacant \<or> x = Broken \<and> (\<exists>a. lookup (fs_root s) [id_as_str i] = Some (Directory a []))))"

lemma removal_failedI: "registry_at E R s \<Longrightarrow> removal_failed E R i s"
  unfolding removal_failed_def by (rule exI [of _ "R i"]) simp

lemma record_pruned:
  assumes "record_in E i a (map_of cs) = Some m" and "md_state m = Deleting"
    and "prunes ds cs" and "map_of ds METADATA_NAME = map_of cs METADATA_NAME"
  shows "record_in E i a (map_of ds) = Some m"
proof -
  have p: "kept (map_of ds k) (map_of cs k)" for k
    using assms(3) unfolding prunes_def pruned_def by (metis lookup_Some_Nil)
  have "dom (map_of ds) \<subseteq> dom (map_of cs)"
  proof
    fix k assume "k \<in> dom (map_of ds)"
    with p [of k] show "k \<in> dom (map_of cs)"
      by (cases "(map_of ds k, map_of cs k)" rule: kept.cases) auto
  qed
  moreover have "workspace_ok E m (map_of ds WORKSPACE_NAME)"
    using p [of WORKSPACE_NAME] assms(1,2)
    by (cases "(map_of ds WORKSPACE_NAME, map_of cs WORKSPACE_NAME)" rule: kept.cases)
      (auto simp: record_in_Some is_deleting_def)
  ultimately show ?thesis using assms by (auto simp: record_in_Some)
qed

lemma removal_pruned:
  assumes R: "registry_on E R r" and i: "valid_id i" and d: "lookup r [id_as_str i] = Some (Directory a cs)"
    and f: "tree (updated [id_as_str i] f r) s" "prunes (f cs) cs" "wf_dirents (f cs)"
      "map_of (f cs) METADATA_NAME = map_of cs METADATA_NAME"
  shows "removal_failed E R i s"
proof -
  have "shows_at r [id_as_str i] cs (map_of (f cs)) s" using f by (auto simp: shows_at_def)
  from registry_shown [OF R d this]
  have reg: "registry_at E (R(i := record_slot (record_in E i a (map_of (f cs))))) s" .
  have "record_slot (record_in E i a (map_of (f cs))) = R i" if "R i = Held m" "md_state m = Deleting" for m
  proof -
    have "record_in E i a (map_of cs) = Some m"
      using R i that d by (auto simp: registry_on_def slot_of_def split: option.splits)
    from record_pruned [OF this that(2) f(2,4)] that show ?thesis by simp
  qed
  with reg show ?thesis by (auto simp: removal_failed_def)
qed

lemma remove_tree_rule:
  assumes i: "valid_id i"
  shows "io_valid (registry_at E R) (remove_tree st i)
    (\<lambda>_. registry_at E (R(i := Vacant))) (\<lambda>_. removal_failed E R i)" (is "io_valid _ _ ?Q ?Z")
proof (rule from_registry_at)
  fix r assume R: "registry_on E R r"
  let ?n = "id_as_str i" and ?w = "\<lambda>cs. keep (fst ` set cs)"
  note keep = removal_failedI [OF registry_atI [OF R]]
  have root: "io_valid (tree r) (storage_open_root st) (\<lambda>v s. tree r s \<and> v = []) ?Z"
    by (rule io_valid_conseq [OF open_root_rule]) (auto intro: keep)
  have sync: "io_valid (registry_at E (R(i := Vacant))) (io_map_err g (storage_sync_directory d p)) ?Q ?Z" for g d p
  proof (rule io_valid_map_err, rule from_registry_at, rule io_valid_conseq [OF sync_rule])
    fix r' s e assume "registry_on E (R(i := Vacant)) r'" "io_fault e \<and> tree r' s"
    then have "registry_at E (R(i := Vacant)) s" by (auto intro: registry_atI)
    then show "removal_failed E R i s" by (auto simp: removal_failed_def)
  qed (auto intro: registry_atI)
  have body: "io_valid (tree r)
       (io_then (io_map_err (storage_io st ''remove sandbox contents'' i) (remove_all_children [?n]))
        (io_then (io_map_err (storage_io st ''remove sandbox metadata'' i) (trip DeleteEntry))
        (io_then (io_map_err (storage_io st ''remove sandbox metadata'' i) (unlink_at [?n] METADATA_NAME False))
        (io_then (io_map_err (storage_io st ''remove sandbox directory'' i) (unlink_at [] ?n True))
        (io_map_err (storage_io st ''sync sandbox root after deletion'' i)
          (storage_sync_directory [] DeleteRootSync)))))) ?Q ?Z"
    if d: "lookup r [?n] = Some (Directory a cs)" for a cs
  proof -
    note wd = registry_dirents [OF R d]
    let ?r1 = "updated [?n] (?w cs) r" and ?r2 = "updated [?n] (\<lambda>ds. dir_del METADATA_NAME (?w cs ds)) r"
    have pr: "tree ?r1 s \<Longrightarrow> removal_failed E R i s" for s
      by (rule removal_pruned [OF R i d, where f = "?w cs"]) (simp_all add: prunes_keep wf_dirents_keep [OF wd] map_of_keep)
    have ch: "io_valid (tree r) (io_map_err g (remove_all_children [?n])) (\<lambda>_. tree ?r1) ?Z" for g
      by (rule io_valid_map_err, rule io_valid_conseq [OF remove_all_children_rule [OF d]])
        (use R in \<open>auto simp: registry_on_def removal_stopped_def intro: removal_pruned [OF R i d]\<close>)
    have tr: "io_valid (tree ?r1) (io_map_err g (trip DeleteEntry)) (\<lambda>_. tree ?r1) ?Z" for g
      by (rule io_valid_map_err, rule io_valid_conseq [OF trip_rule]) (auto intro: pr)
    have un: "io_valid (tree ?r1) (io_map_err g (unlink_at [?n] METADATA_NAME False)) (\<lambda>_. tree ?r2) ?Z" for g
      by (rule io_valid_map_err, rule io_valid_conseq [OF unlink_at_rule]) (auto simp: updated_compose intro: pr)
    have empty: "dir_del METADATA_NAME (?w cs cs) = []"
      by (force simp: dir_del_def keep_def filter_empty_conv)
    have reg2: "tree ?r2 s \<Longrightarrow> registry_at E (R(i := Broken)) s" for s
      using registry_shown [OF R d, of Map.empty s]
        shows_at_same [where f = "\<lambda>ds. dir_del METADATA_NAME (?w cs ds)" and cs = cs and r = r and d = "[?n]"] empty
      by (simp add: wf_dirents_def slot_broken)
    have at2: "lookup ?r2 [?n] = Some (Directory a [])" using lookup_updated [OF d] empty by simp
    have fail2: "tree ?r2 s \<Longrightarrow> removal_failed E R i s" for s
      using reg2 [of s] at2 by (auto simp: removal_failed_def)
    have rm: "io_valid (tree ?r2) (io_map_err g (unlink_at [] ?n True)) (\<lambda>_. registry_at E (R(i := Vacant))) ?Z" for g
    proof (rule io_valid_map_err, rule io_valid_conseq [OF unlink_at_rule])
      fix x s assume "\<exists>a' cs' m. lookup ?r2 [] = Some (Directory a' cs') \<and> map_of cs' ?n = Some m
        \<and> unlinkable True m \<and> tree (updated [] (dir_del ?n) ?r2) s"
      moreover have "registry_on E (R(i := Broken)) ?r2"
        using reg2 [of "\<lparr>fs_root = ?r2, fs_outcomes = [], fs_faults = None, fs_counter = 0\<rparr>"]
        by (simp add: registry_at_def)
      ultimately show "registry_at E (R(i := Vacant)) s"
        using registry_rmdir [of E "R(i := Broken)" ?r2 i] by (auto simp: registry_at_def)
    qed (auto intro: fail2)
    show ?thesis
      by (intro io_valid_then [OF ch] io_valid_then [OF tr] io_valid_then [OF un] io_valid_then [OF rm] sync)
  qed
  have "io_valid (tree r) (io_match (open_directory_at [] ?n)
       (\<lambda>e. if errno_is e ENOENT then io_ok ()
             else io_err (storage_io st ''open sandbox for deletion'' i e))
       (\<lambda>d.
         io_then (io_map_err (storage_io st ''remove sandbox contents'' i) (remove_all_children d))
        (io_then (io_map_err (storage_io st ''remove sandbox metadata'' i) (trip DeleteEntry))
        (io_then (io_map_err (storage_io st ''remove sandbox metadata'' i) (unlink_at d METADATA_NAME False))
        (io_then (io_map_err (storage_io st ''remove sandbox directory'' i) (unlink_at [] ?n True))
        (io_map_err (storage_io st ''sync sandbox root after deletion'' i)
          (storage_sync_directory [] DeleteRootSync))))))) ?Q ?Z"
  proof (rule io_valid_match [OF open_directory_at_rule])
    fix e
    have vac: "R = R(i := Vacant)" if "lookup r [?n] = None"
    proof -
      have "slot_of E r i = R i" using R i by (simp add: registry_on_def)
      then have "R i = Vacant" using that by (simp add: slot_of_def)
      then show ?thesis by auto
    qed
    show "io_valid (\<lambda>s. tree r s \<and> open_error (lookup r ([] @ [?n])) e)
        (if errno_is e ENOENT then io_ok () else io_err (storage_io st ''open sandbox for deletion'' i e)) ?Q ?Z"
      by (rule io_validI) (use vac in \<open>auto simp: io_simps errno_is_def open_error_def
        intro: keep registry_atI [OF R] split: if_splits\<close>)
  qed (rule io_valid_pure, use body in auto)
  then show "io_valid (tree r) (remove_tree st i) ?Q ?Z"
    unfolding remove_tree_def
    by (intro io_valid_bind [OF root] io_valid_pure) simp
qed

text \<open>
  The walk leaves every entry named like the metadata file alone, at any depth, so a sandbox
  whose workspace holds such an entry cannot be removed.
\<close>

lemma remove_tree_needs_tidy:
  assumes wf: "wf_tree r" and d: "lookup r [id_as_str i] = Some (Directory a cs)" and t: "\<not> tidy_below cs"
  shows "io_valid (tree r) (remove_tree st i) (\<lambda>_ _. False) (\<lambda>_ _. True)"
  unfolding remove_tree_def
proof (rule io_valid_bind)
  show "io_valid (tree r) (storage_open_root st) (\<lambda>v s. tree r s \<and> v = []) (\<lambda>_ _. True)"
    by (rule io_valid_conseq [OF open_root_rule]) auto
next
  fix root
  have ch: "io_valid (tree r) (io_map_err g (remove_all_children [id_as_str i])) (\<lambda>_ _. False) (\<lambda>_ _. True)" for g
    by (rule io_valid_map_err, rule io_valid_conseq [OF remove_all_children_rule [OF d wf]]) (use t in auto)
  have none: "io_valid (\<lambda>_. False) m (\<lambda>_ _. False) (\<lambda>_ _. True)" for m :: "unit storage_io"
    by (simp add: io_valid_def)
  show "io_valid (\<lambda>s. tree r s \<and> root = []) (io_match (open_directory_at root (id_as_str i))
       (\<lambda>e. if errno_is e ENOENT then io_ok ()
             else io_err (storage_io st ''open sandbox for deletion'' i e))
       (\<lambda>d.
         io_then (io_map_err (storage_io st ''remove sandbox contents'' i) (remove_all_children d))
        (io_then (io_map_err (storage_io st ''remove sandbox metadata'' i) (trip DeleteEntry))
        (io_then (io_map_err (storage_io st ''remove sandbox metadata'' i) (unlink_at d METADATA_NAME False))
        (io_then (io_map_err (storage_io st ''remove sandbox directory'' i)
                   (unlink_at root (id_as_str i) True))
        (io_map_err (storage_io st ''sync sandbox root after deletion'' i)
          (storage_sync_directory root DeleteRootSync))))))) (\<lambda>_ _. False) (\<lambda>_ _. True)"
    apply (rule io_valid_pure, hypsubst, rule io_valid_match [OF open_directory_at_rule])
     apply (rule io_valid_pure, elim conjE, hypsubst, rule io_valid_then)
      apply (simp, rule ch)
     apply (rule none)
    apply (rule io_validI; use d in \<open>auto simp: io_simps errno_is_def open_error_def split: if_splits\<close>)
    done
qed

section \<open>Scanning\<close>

lemma grammar_ascii: "id_grammar n \<Longrightarrow> from_utf8 n = Some n"
  by (intro from_utf8_ascii plain_ascii_is_ascii grammar_plain)

lemma scanned_id:
  "(case from_utf8 n of None \<Rightarrow> None
      | Some raw \<Rightarrow> (case parse_id raw of Inl e \<Rightarrow> None | Inr i \<Rightarrow> Some i)) =
   (if id_grammar n then Some (SandboxId n) else None)"
proof (cases "id_grammar n")
  case True
  then show ?thesis using parse_id_Inr [of n "SandboxId n"] by (simp add: grammar_ascii)
next
  case False
  then show ?thesis
    by (auto split: option.splits sum.splits dest!: from_utf8_same simp: parse_id_Inr)
qed

lemma scan_entry_rule:
  assumes R: "registry_on E R r" and n: "id_grammar n" and there: "lookup r [n] \<noteq> None"
  shows "io_valid (tree r) (scan_entry E st [] n (SandboxId n))
    (\<lambda>v s. tree r s \<and> entry_matches v (R (SandboxId n))) (\<lambda>_. tree r)" (is "io_valid _ _ ?Q ?Z")
proof -
  have Ri: "R (SandboxId n) = slot_of E r (SandboxId n)" using R n by (simp add: registry_on_def valid_id_def)
  have dir: "io_valid (tree r) (inspect_directory E st (SandboxId n) [n]) ?Q ?Z" if d: "lookup r [n] = Some (Directory a cs)" for a cs
    by (rule io_valid_conseq [OF inspect_directory_rule [OF d registry_dirents [OF R d]]])
      (auto simp: Ri slot_of_def d split: option.splits)
  show ?thesis
    unfolding scan_entry_def
  proof (rule io_valid_match [OF open_directory_at_rule])
    show "io_valid (\<lambda>s. tree r s \<and> x = [] @ [n] \<and> (\<exists>a cs. lookup r ([] @ [n]) = Some (Directory a cs)))
      (inspect_directory E st (SandboxId n) x) ?Q ?Z" for x
      by (rule io_valid_pure) (use dir in auto)
  qed (rule io_validI, use there in \<open>auto simp: Ri io_simps errno_is_def open_error_def slot_of_def
      split: if_splits option.splits node.splits\<close>)
qed

definition scanned :: "registry \<Rightarrow> string list \<Rightarrow> scan_result \<Rightarrow> bool" where
  "scanned R names v \<longleftrightarrow> map fst (sr_entries v) = map SandboxId (filter id_grammar names)
     \<and> list_all (\<lambda>(i, e). entry_matches e (R i)) (sr_entries v)
     \<and> sr_unknown_entries v = length (filter (\<lambda>n. \<not> id_grammar n) names)"

lemma scan_names_rule:
  assumes R: "registry_on E R r"
  shows "(\<forall>n \<in> set names. lookup r [n] \<noteq> None) \<Longrightarrow>
    io_valid (tree r) (scan_names E st [] names) (\<lambda>v s. tree r s \<and> scanned R names v) (\<lambda>_. tree r)"
proof (induction names)
  case Nil
  show ?case by (rule io_validI) (auto simp: io_simps scanned_def)
next
  case (Cons n ns)
  then have IH: "io_valid (tree r) (scan_names E st [] ns) (\<lambda>v s. tree r s \<and> scanned R ns v) (\<lambda>_. tree r)" by simp
  show ?case
  proof (cases "id_grammar n")
    case True
    have e: "io_valid (tree r) (scan_entry E st [] n (SandboxId n))
        (\<lambda>v s. tree r s \<and> entry_matches v (R (SandboxId n))) (\<lambda>_. tree r)"
      by (rule scan_entry_rule [OF R True]) (use Cons.prems in simp)
    have "io_valid (tree r) (io_bind (scan_entry E st [] n (SandboxId n)) (\<lambda>e.
        io_bind (scan_names E st [] ns) (\<lambda>v. io_ok (v\<lparr>sr_entries := (SandboxId n, e) # sr_entries v\<rparr>))))
        (\<lambda>v s. tree r s \<and> scanned R (n # ns) v) (\<lambda>_. tree r)"
      by (intro io_valid_bind [OF e] io_valid_pure io_valid_bind [OF IH] tree_ok)
        (use True in \<open>auto simp: scanned_def\<close>)
    with True show ?thesis by (simp add: scanned_id)
  next
    case False
    have "io_valid (tree r) (io_bind (scan_names E st [] ns) (\<lambda>v.
        io_ok (v\<lparr>sr_unknown_entries := Suc (sr_unknown_entries v)\<rparr>)))
        (\<lambda>v s. tree r s \<and> scanned R (n # ns) v) (\<lambda>_. tree r)"
      by (intro io_valid_bind [OF IH] io_valid_pure tree_ok) (use False in \<open>auto simp: scanned_def\<close>)
    with False show ?thesis by (simp add: scanned_id)
  qed
qed

text \<open>The scan reports each identifier that is not vacant once, with an entry that matches its slot.\<close>

lemma scan_rule:
  "io_valid (registry_at E R) (scan E st)
     (\<lambda>v s. registry_at E R s \<and> distinct (map fst (sr_entries v))
        \<and> set (map fst (sr_entries v)) = {i. valid_id i \<and> R i \<noteq> Vacant}
        \<and> (\<forall>(i, e) \<in> set (sr_entries v). entry_matches e (R i)))
     (\<lambda>_. registry_at E R)" (is "io_valid _ _ ?Q ?Z")
proof (rule from_registry_at)
  fix r assume R: "registry_on E R r"
  obtain a cs where r: "r = Some (Directory a cs)" using R by (auto simp: registry_on_def)
  let ?ns = "map fst cs"
  have wd: "wf_dirents cs" by (rule registry_dirents [OF R, of "[]" a]) (simp add: r)
  have dots: "filter (\<lambda>n. n \<noteq> ''.'' \<and> n \<noteq> ''..'') ?ns = ?ns"
    using wd by (auto simp: filter_id_conv wf_dirents_def list_all_iff)
  have root: "io_valid (tree r) (storage_open_root st) (\<lambda>v s. tree r s \<and> v = []) ?Z"
    by (rule io_valid_conseq [OF open_root_rule]) (auto intro: registry_atI [OF R])
  have nm: "io_valid (tree r) (io_map_err (storage_io_path st ''scan sandbox root'') (read_names []))
      (\<lambda>v s. tree r s \<and> v = ?ns) ?Z"
    by (rule io_valid_map_err, rule io_valid_conseq [OF read_names_rule])
      (auto simp: r dots intro: registry_atI [OF R [unfolded r]])
  have there: "\<forall>n \<in> set ?ns. lookup r [n] \<noteq> None"
    by (auto simp: r lookup_Cons map_of_eq_None_iff)
  have vac: "R i \<noteq> Vacant \<longleftrightarrow> id_as_str i \<in> set ?ns" if "valid_id i" for i
  proof -
    have "R i = slot_of E r i" using R that by (simp add: registry_on_def)
    moreover have "lookup r [id_as_str i] = map_of cs (id_as_str i)" by (simp add: r lookup_Cons)
    ultimately show ?thesis
      using map_of_eq_None_iff [of cs "id_as_str i"]
      by (auto simp: slot_of_def split: option.splits node.splits)
  qed
  have fin: "?Q v s" if "tree r s" "scanned R ?ns v" for v s
  proof -
    have "distinct (filter id_grammar ?ns)" using wd by (simp add: wf_dirents_def)
    then have "distinct (map fst (sr_entries v))"
      using that by (simp add: scanned_def distinct_map inj_on_def)
    moreover have "set (map fst (sr_entries v)) = SandboxId ` {n \<in> set ?ns. id_grammar n}"
      using that by (simp add: scanned_def)
    moreover have "\<dots> = {i. valid_id i \<and> R i \<noteq> Vacant}"
    proof (rule set_eqI)
      fix i show "i \<in> SandboxId ` {n \<in> set ?ns. id_grammar n} \<longleftrightarrow> i \<in> {i. valid_id i \<and> R i \<noteq> Vacant}"
        using vac [of i] by (cases i) (auto simp: valid_id_def)
    qed
    ultimately show ?thesis
      using that registry_atI [OF R] by (auto simp: scanned_def list_all_iff)
  qed
  show "io_valid (tree r) (scan E st) ?Q ?Z"
    unfolding scan_def
    apply (rule io_valid_bind [OF root], rule io_valid_pure, hypsubst, rule io_valid_bind [OF nm], rule io_valid_pure, hypsubst)
    apply (rule io_valid_conseq [OF scan_names_rule [OF R there]])
      apply assumption
     apply (elim conjE, rule fin, assumption, assumption)
    apply (rule registry_atI [OF R], assumption)
    done
qed

lemma inspect_registry:
  assumes "valid_id i"
  shows "io_valid (registry_at E R) (inspect E st i)
    (\<lambda>v s. registry_at E R s \<and> entry_matches v (R i)) (\<lambda>_. registry_at E R)"
proof (rule from_registry_at)
  fix r assume R: "registry_on E R r"
  then have "wf_tree r" "slot_of E r i = R i" using assms by (auto simp: registry_on_def)
  then show "io_valid (tree r) (inspect E st i) (\<lambda>v s. registry_at E R s \<and> entry_matches v (R i)) (\<lambda>_. registry_at E R)"
    by (intro io_valid_conseq [OF inspect_rule]) (auto intro: registry_atI [OF R])
qed

end
