(* ===== verification/Manager_Rules.thy ===== *)
theory Manager_Rules
  imports Manager_Runtime Manager_Invariants Storage_Ops
begin

text \<open>
  Rules for the manager's operations against the registry of slots on disk and the ledger of
  leases: calls on one part leave the others alone, so the rules of the parts lift to the manager.
\<close>

section \<open>Lifting\<close>

abbreviation parts :: "(fsys \<Rightarrow> bool) \<Rightarrow> (allocator option \<Rightarrow> bool) \<Rightarrow> manager \<Rightarrow> bool" where
  "parts P S w \<equiv> P (mg_fs w) \<and> S (mg_subids w)"

lemma on_storage_rule:
  assumes "\<And>st. io_valid P (m st) Q R"
  shows "io_valid (parts P S) (on_storage g m) (\<lambda>x. parts (Q x) S) (\<lambda>e w. \<exists>x. e = g x \<and> parts (R x) S w)"
proof (rule io_validI)
  fix w e t assume w: "parts P S w" and m: "on_storage g m w = (Inl e, t)"
  then obtain x fs where "m (mg_storage w) (mg_fs w) = (Inl x, fs)" "e = g x" "t = w\<lparr>mg_fs := fs\<rparr>"
    by (auto simp: on_storage_def map_err_def split: prod.splits sum.splits)
  with w io_valid_err [OF assms] show "\<exists>x. e = g x \<and> parts (R x) S t" by auto
next
  fix w x t assume w: "parts P S w" and m: "on_storage g m w = (Inr x, t)"
  then obtain fs where "m (mg_storage w) (mg_fs w) = (Inr x, fs)" "t = w\<lparr>mg_fs := fs\<rparr>"
    by (auto simp: on_storage_def map_err_def split: prod.splits sum.splits)
  with w io_valid_ok [OF assms] show "parts (Q x) S t" by auto
qed

text \<open>The allocator, where there is one; the answer of a manager without one is the default.\<close>

definition leases :: "(allocator \<Rightarrow> bool) \<Rightarrow> allocator option \<Rightarrow> bool" where
  "leases A x = (case x of None \<Rightarrow> True | Some a \<Rightarrow> A a)"

definition answered :: "'a \<Rightarrow> 'a \<Rightarrow> (allocator \<Rightarrow> bool) \<Rightarrow> allocator option \<Rightarrow> bool" where
  "answered d v A x = (case x of None \<Rightarrow> v = d | Some a \<Rightarrow> A a)"

lemma leases_simps [simp]: "leases A None" "leases A (Some a) = A a"
  by (simp_all add: leases_def)

lemma on_allocator_rule:
  assumes "io_valid A m Q R"
  shows "io_valid (parts P (leases A)) (on_allocator d m) (\<lambda>v. parts P (answered d v (Q v)))
    (\<lambda>e. parts P (leases (R e)))"
  using assms by (fastforce simp: io_valid_def on_allocator_def leases_def answered_def split: prod.splits sum.splits option.splits)

lemma on_allocator_total:
  assumes "io_valid A m Q (\<lambda>_ _. False)"
  shows "io_valid (parts P (leases A)) (on_allocator d m) (\<lambda>v. parts P (answered d v (Q v))) (\<lambda>_ _. False)"
  using assms by (fastforce simp: io_valid_def on_allocator_def leases_def answered_def split: prod.splits sum.splits option.splits)

lemma leases_mono: "leases A x \<Longrightarrow> (\<And>a. A a \<Longrightarrow> B a) \<Longrightarrow> leases B x"
  by (auto simp: leases_def split: option.splits)

lemma answered_leases: "answered d v A x \<Longrightarrow> (\<And>a. A a \<Longrightarrow> B a) \<Longrightarrow> leases B x"
  by (auto simp: leases_def answered_def split: option.splits)

text \<open>Steps on the memory, the locks and the signals leave the disk alone.\<close>

definition disk_free :: "('e \<Rightarrow> bool) \<Rightarrow> (manager, 'e, 'a) io \<Rightarrow> bool" where
  "disk_free Z m \<longleftrightarrow> (\<forall>P S. io_valid (parts P S) m (\<lambda>_. parts P S) (\<lambda>e w. Z e \<and> parts P S w))"

lemma disk_free_rule:
  assumes "disk_free Z m"
  shows "io_valid (parts P S) m (\<lambda>_. parts P S) (\<lambda>e w. Z e \<and> parts P S w)"
  using assms by (simp add: disk_free_def)

lemma disk_free_memory [simp]:
  "disk_free (\<lambda>_. False) (on_ledger f)" "disk_free (\<lambda>_. False) (on_logged h)" "disk_free (\<lambda>_. False) (send xs)"
  "disk_free (\<lambda>_. False) (noting i m)" "disk_free (\<lambda>e. \<exists>c. e = MeLimit c) (reserving owner)"
  "disk_free (\<lambda>e. e = MeUnavailable) ensure_ready" "disk_free (\<lambda>_. False) (handle m idt created)"
  by (auto simp: disk_free_def io_valid_def on_ledger_def on_logged_def send_def noting_def reserving_def
      ensure_ready_def handle_def map_err_def split: prod.splits sum.splits)

text \<open>No assertion speaks about the lock table.\<close>

lemma with_lifecycle_rule:
  assumes "io_valid P m Q R" and "\<And>w t. P w \<Longrightarrow> P (w\<lparr>mg_locks := t\<rparr>)"
    and "\<And>x w t. Q x w \<Longrightarrow> Q x (w\<lparr>mg_locks := t\<rparr>)" and "\<And>e w t. R e w \<Longrightarrow> R e (w\<lparr>mg_locks := t\<rparr>)"
  shows "io_valid P (with_lifecycle i m) Q R"
proof (rule io_validI)
  fix w e t assume w: "P w" and r: "with_lifecycle i m w = (Inl e, t)"
  then obtain a u t' where "m (w\<lparr>mg_locks := u\<rparr>) = (Inl e, t')" "t = t'\<lparr>mg_locks := lifecycle_drop a (mg_locks t')\<rparr>"
    by (auto simp: with_lifecycle_def split: prod.splits)
  with io_valid_err [OF assms(1) assms(2) [OF w]] assms(4) show "R e t" by blast
next
  fix w x t assume w: "P w" and r: "with_lifecycle i m w = (Inr x, t)"
  then obtain a u t' where "m (w\<lparr>mg_locks := u\<rparr>) = (Inr x, t')" "t = t'\<lparr>mg_locks := lifecycle_drop a (mg_locks t')\<rparr>"
    by (auto simp: with_lifecycle_def split: prod.splits)
  with io_valid_ok [OF assms(1) assms(2) [OF w]] assms(3) show "Q x t" by blast
qed

section \<open>Looking up the lease of a sandbox\<close>

definition lease_of :: "ledger \<Rightarrow> sandbox_id \<Rightarrow> lease_record option \<Rightarrow> bool" where
  "lease_of L i v = (case v of
     Some r \<Rightarrow> L (lr_lease_id r) = Some r \<and> lr_sandbox_id r = i
   | None \<Rightarrow> \<forall>r \<in> ran L. lr_sandbox_id r \<noteq> i)"

lemma indexed_get:
  assumes "listing L rs" and "unique_ids L"
  shows "lease_of L i (bt_get (indexed rs) i)"
proof -
  have d: "distinct (map fst (map (\<lambda>r. (lr_sandbox_id r, r)) rs))"
  proof -
    have "validate_uniqueness rs = Inr ()" using validate_uniqueness_ok [OF assms(1)] assms(2) by (rule iffD2)
    then have "distinct (map lr_sandbox_id rs)" unfolding validate_uniqueness_def check_unique_ok by (elim conjE)
    then show ?thesis by (simp add: comp_def)
  qed
  note c = bt_collect_set [OF d, folded indexed_def]
  have get: "bt_get (indexed rs) i = Some r \<longleftrightarrow> r \<in> set rs \<and> lr_sandbox_id r = i" for r
    unfolding bt_get_Some [OF c(1)] c(2) by auto
  show ?thesis
  proof (cases "bt_get (indexed rs) i")
    case None
    with get have "\<forall>r \<in> set rs. lr_sandbox_id r \<noteq> i" by auto
    then show ?thesis unfolding lease_of_def None by (simp add: listing_ran [OF assms(1), symmetric])
  next
    case (Some r)
    then have "r \<in> set rs" "lr_sandbox_id r = i" using get by auto
    then show ?thesis unfolding lease_of_def Some using listing_mem [OF assms(1), of "lr_lease_id r" r] by simp
  qed
qed

lemma load_indexed_rule:
  "io_valid (at_ledger E L) (io_bind (alloc_load_indexed E) (\<lambda>m. io_ok (bt_get m i)))
     (\<lambda>v a. at_ledger E L a \<and> lease_of L i v) (\<lambda>_. at_ledger E L)"
  unfolding alloc_load_indexed_def
proof (rule io_valid_bind [where M = "\<lambda>m a. at_ledger E L a \<and> lease_of L i (bt_get m i)"])
  show "io_valid (at_ledger E L)
      (io_bind (alloc_load E) (\<lambda>rs. io_ok (bt_collect (map (\<lambda>r. (lr_sandbox_id r, r)) rs))))
      (\<lambda>m a. at_ledger E L a \<and> lease_of L i (bt_get m i)) (\<lambda>_. at_ledger E L)"
  proof (rule io_valid_bind [OF alloc_load_rule])
    fix rs
    show "io_valid (\<lambda>a. at_ledger E L a \<and> listing L rs \<and> unique_ids L)
        (io_ok (bt_collect (map (\<lambda>r. (lr_sandbox_id r, r)) rs)))
        (\<lambda>m a. at_ledger E L a \<and> lease_of L i (bt_get m i)) (\<lambda>_. at_ledger E L)"
      by (rule io_valid_pre [OF io_valid_io_ok]) (simp add: indexed_get [unfolded indexed_def])
  qed
qed (rule io_valid_io_ok)

lemma lease_for_rule:
  "io_valid (at_ledger E L) (lease_for E i) (\<lambda>v a. at_ledger E L a \<and> lease_of L i v) (\<lambda>_. at_ledger E L)"
  unfolding lease_for_def
proof (rule io_valid_bind [OF memory_rules(3)])
  fix known
  show "io_valid (at_ledger E L)
    (case known of None \<Rightarrow> io_bind (alloc_load_indexed E) (\<lambda>m. io_ok (bt_get m i))
     | Some l \<Rightarrow> io_bind (on_store (\<lambda>st. store_read E st l)) (\<lambda>found.
         case found of
           None \<Rightarrow> io_bind (alloc_load_indexed E) (\<lambda>m. io_ok (bt_get m i))
         | Some r \<Rightarrow>
             if lr_sandbox_id r = i then io_ok (Some r)
             else io_err (AeCorrupt (''lease '' @ lr_lease_id r @ '' is indexed for sandbox ''
                    @ id_as_str i @ '' but names sandbox '' @ id_as_str (lr_sandbox_id r)))))
    (\<lambda>v a. at_ledger E L a \<and> lease_of L i v) (\<lambda>_. at_ledger E L)" (is "io_valid _ ?m ?Q ?Z")
  proof (cases known)
    case None
    then show ?thesis by (simp add: load_indexed_rule)
  next
    case (Some l)
    have read: "io_valid (at_ledger E L) (on_store (\<lambda>st. store_read E st l)) (\<lambda>v a. at_ledger E L a \<and> v = L l) ?Z"
      by (rule io_valid_conseq [OF on_store_rule [OF store.read_law]]) auto
    have found: "io_valid (\<lambda>a. at_ledger E L a \<and> found = L l)
        (case found of
           None \<Rightarrow> io_bind (alloc_load_indexed E) (\<lambda>m. io_ok (bt_get m i))
         | Some r \<Rightarrow>
             if lr_sandbox_id r = i then io_ok (Some r)
             else io_err (AeCorrupt (''lease '' @ lr_lease_id r @ '' is indexed for sandbox ''
                    @ id_as_str i @ '' but names sandbox '' @ id_as_str (lr_sandbox_id r)))) ?Q ?Z" for found
    proof (cases found)
      case None
      then show ?thesis by (auto intro: io_valid_pre [OF load_indexed_rule])
    next
      case (Some r)
      have "lease_of L i (Some r)" if "at_ledger E L a" "Some r = L l" "lr_sandbox_id r = i" for a
        using at_ledger_valid(2) [OF that(1) that(2) [symmetric]] that(2) [symmetric] that(3) by (simp add: lease_of_def)
      then show ?thesis unfolding Some option.case
        by (intro io_valid_if) (rule io_valid_pre [OF io_valid_io_ok] io_valid_pre [OF io_valid_io_err], blast)+
    qed
    show ?thesis unfolding Some by simp (rule io_valid_bind [OF read found])
  qed
qed

section \<open>Operations on the lease of one sandbox\<close>

text \<open>Operations on the lease of \<open>i\<close> leave the leases of all other sandboxes alone.\<close>

definition beside :: "sandbox_id \<Rightarrow> ledger \<Rightarrow> ledger \<Rightarrow> bool" where
  "beside i L L' \<longleftrightarrow> (\<forall>l r. L l = Some r \<longrightarrow> lr_sandbox_id r \<noteq> i \<longrightarrow> L' l = Some r)"

lemma beside_refl [simp]: "beside i L L"
  by (simp add: beside_def)

lemma beside_trans: "beside i L M \<Longrightarrow> beside i M N \<Longrightarrow> beside i L N"
  by (simp add: beside_def)

lemma beside_update: "(\<And>r. L l = Some r \<Longrightarrow> lr_sandbox_id r = i) \<Longrightarrow> beside i L (L(l := v))"
  by (auto simp: beside_def)

definition leased_beside :: "env \<Rightarrow> sandbox_id \<Rightarrow> ledger \<Rightarrow> allocator \<Rightarrow> bool" where
  "leased_beside E i L a \<longleftrightarrow> (\<exists>L'. beside i L L' \<and> at_ledger E L' a)"

lemma leased_besideI: "beside i L L' \<Longrightarrow> at_ledger E L' a \<Longrightarrow> leased_beside E i L a"
  by (auto simp: leased_beside_def)

lemma moved_beside: "moved_by (beside i) E L a \<Longrightarrow> leased_beside E i L a"
  by (metis beside_refl leased_beside_def moved_by_def)

lemma from_leased_beside:
  assumes "\<And>L'. beside i L L' \<Longrightarrow> io_valid (at_ledger E L') m Q R"
  shows "io_valid (leased_beside E i L) m Q R"
  unfolding leased_beside_def by (rule io_valid_ex [OF assms])

lemma stays_beside:
  assumes "\<And>L'. io_valid (at_ledger E L') m (\<lambda>_. leased_beside E i L') (\<lambda>_. leased_beside E i L')"
  shows "io_valid (leased_beside E i L) m (\<lambda>_. leased_beside E i L) (\<lambda>_. leased_beside E i L)"
proof (rule from_leased_beside)
  fix L' assume "beside i L L'"
  then show "io_valid (at_ledger E L') m (\<lambda>_. leased_beside E i L) (\<lambda>_. leased_beside E i L)"
    by (intro io_valid_conseq [OF assms [of L']]) (auto simp: leased_beside_def intro: beside_trans)
qed

lemma incarnation_sandbox: "same_incarnation r x \<Longrightarrow> lr_sandbox_id r = lr_sandbox_id x"
  by (simp add: same_incarnation_def)

lemma lease_ops_beside:
  assumes t: "toml_reads_plain E" and x: "lr_sandbox_id x = i"
  shows "io_valid (leased_beside E i L) (begin_release E x) (\<lambda>_. leased_beside E i L) (\<lambda>_. leased_beside E i L)"
    and "io_valid (leased_beside E i L) (finish_release E x) (\<lambda>_. leased_beside E i L) (\<lambda>_. leased_beside E i L)"
    and "io_valid (leased_beside E i L) (alloc_activate E x) (\<lambda>_. leased_beside E i L) (\<lambda>_. leased_beside E i L)"
    and "reason_readable E reason \<Longrightarrow>
      io_valid (leased_beside E i L) (alloc_quarantine E x reason) (\<lambda>_. leased_beside E i L) (\<lambda>_. leased_beside E i L)"
proof -
  have step: "beside i L' (L'(lr_lease_id x := v))" if "L' (lr_lease_id x) = Some r" "same_incarnation r x" for L' r v
    by (rule beside_update) (use that x incarnation_sandbox in auto)
  show "io_valid (leased_beside E i L) (begin_release E x) (\<lambda>_. leased_beside E i L) (\<lambda>_. leased_beside E i L)"
    by (rule stays_beside, rule io_valid_conseq [OF begin_release_by [OF t, where T = "beside i"]])
      (auto intro: moved_beside leased_besideI step)
  show "io_valid (leased_beside E i L) (finish_release E x) (\<lambda>_. leased_beside E i L) (\<lambda>_. leased_beside E i L)"
    unfolding finish_release_def
    by (rule stays_beside, rule io_valid_conseq [OF remove_expected_by [where T = "beside i"]])
      (auto intro: moved_beside leased_besideI step)
  show "io_valid (leased_beside E i L) (alloc_activate E x) (\<lambda>_. leased_beside E i L) (\<lambda>_. leased_beside E i L)"
    by (rule stays_beside, rule io_valid_conseq [OF activate_by [OF t, where T = "beside i"]])
      (auto intro: moved_beside leased_besideI step leased_besideI [OF beside_refl])
  show "io_valid (leased_beside E i L) (alloc_quarantine E x reason) (\<lambda>_. leased_beside E i L) (\<lambda>_. leased_beside E i L)"
    if "reason_readable E reason"
    by (rule stays_beside, rule io_valid_conseq [OF quarantine_by [OF that, where T = "beside i"]])
      (auto intro: moved_beside leased_besideI step)
qed

definition identity_of :: "lease_record \<Rightarrow> isolated_identity" where
  "identity_of r = \<lparr>runtime_uid = ISOLATED_RUNTIME_UID_GID, runtime_gid = ISOLATED_RUNTIME_UID_GID,
     host_uid = lr_uid r, host_gid = lr_gid r\<rparr>"

definition granted :: "ledger \<Rightarrow> metadata \<Rightarrow> isolated_identity option \<Rightarrow> bool" where
  "granted L m v \<longleftrightarrow> (\<exists>r. lease_of L (md_id m) (Some r) \<and> lr_owner r = md_owner m \<and> lr_state r = LeaseActive
     \<and> v = Some (identity_of r))"

lemma identity_for_at:
  "io_valid (parts P (leases (at_ledger E L))) (identity_for E q m)
     (\<lambda>v. parts P (answered None v (\<lambda>a. at_ledger E L a \<and> granted L m v))) (\<lambda>_. parts P (leases (at_ledger E L)))"
  unfolding identity_for_def
proof (rule on_allocator_rule)
  have look: "io_valid (at_ledger E L) (io_map_err MeSubid (lease_for E (md_id m)))
      (\<lambda>v a. at_ledger E L a \<and> lease_of L (md_id m) v) (\<lambda>_. at_ledger E L)"
    by (rule io_valid_map_err, rule lease_for_rule)
  have admit: "granted L m v" if "lease_of L (md_id m) found" "admit_lease q m found = Inr v" for found v
    using that by (auto simp: admit_lease_def success_simps granted_def identity_of_def)
  show "io_valid (at_ledger E L)
      (io_bind (io_map_err MeSubid (lease_for E (md_id m))) (\<lambda>found. io_lift (admit_lease q m found)))
      (\<lambda>v a. at_ledger E L a \<and> granted L m v) (\<lambda>_. at_ledger E L)"
    by (rule io_valid_bind [OF look], rule io_validI) (use admit in \<open>auto simp: io_lift_def\<close>)
qed

text \<open>From any ledger that a family of ledgers allows.\<close>

lemma identity_for_rule:
  "io_valid (parts P (leases (\<lambda>a. \<exists>M. C M \<and> at_ledger E M a))) (identity_for E q m)
     (\<lambda>v. parts P (answered None v (\<lambda>a. \<exists>M. C M \<and> at_ledger E M a \<and> granted M m v)))
     (\<lambda>_. parts P (leases (\<lambda>a. \<exists>M. C M \<and> at_ledger E M a)))"
  (is "io_valid ?A _ ?Q ?Z")
proof (rule io_validI)
  fix w v t assume w: "?A w" and r: "identity_for E q m w = (Inr v, t)"
  show "?Q v t"
  proof (cases "mg_subids w")
    case None
    with w r show ?thesis by (auto simp: identity_for_def on_allocator_def answered_def)
  next
    case (Some a)
    with w obtain M where M: "C M" "at_ledger E M a" by (auto simp: leases_def)
    with w Some have "parts P (leases (at_ledger E M)) w" by (simp add: leases_def)
    from io_valid_ok [OF identity_for_at [where P = P] this r] M(1) show ?thesis by (auto simp: answered_def split: option.splits)
  qed
next
  fix w e t assume w: "?A w" and r: "identity_for E q m w = (Inl e, t)"
  show "?Z e t"
  proof (cases "mg_subids w")
    case None
    with w r show ?thesis by (auto simp: identity_for_def on_allocator_def)
  next
    case (Some a)
    with w obtain M where M: "C M" "at_ledger E M a" by (auto simp: leases_def)
    with w Some have "parts P (leases (at_ledger E M)) w" by (simp add: leases_def)
    from io_valid_err [OF identity_for_at [where P = P] this r] M(1) show ?thesis by (auto intro: leases_mono)
  qed
qed

section \<open>Claiming\<close>

lemma free_bind:
  assumes "disk_free Z m" and "\<And>x. io_valid (parts P S) (f x) Q R" and "\<And>e w. Z e \<Longrightarrow> parts P S w \<Longrightarrow> R e w"
  shows "io_valid (parts P S) (io_bind m f) Q R"
  by (rule io_valid_bind [where M = "\<lambda>_. parts P S"], rule io_valid_conseq [OF disk_free_rule [OF assms(1)]])
    (use assms(2,3) in auto)

lemma free_then:
  assumes "disk_free Z m" and "io_valid (parts P S) n Q R" and "\<And>e w. Z e \<Longrightarrow> parts P S w \<Longrightarrow> R e w"
  shows "io_valid (parts P S) (io_then m n) Q R"
  unfolding io_then_def by (rule free_bind [OF assms])

lemma io_ignore_rule: "io_valid P m (\<lambda>_. Q) (\<lambda>_. Q) \<Longrightarrow> io_valid P (io_ignore m) (\<lambda>_. Q) R"
  by (rule io_validI) (auto simp: io_ignore_def io_valid_def split: sum.splits)

text \<open>What the environment has to offer for a claim.\<close>

definition claim_setting ::
  "env \<Rightarrow> 128 word \<Rightarrow> (delegation_error, delegation) result \<Rightarrow> key_fingerprint \<Rightarrow> sandbox_id \<Rightarrow> ledger \<Rightarrow> bool" where
  "claim_setting E token q owner i L \<longleftrightarrow> valid_id i \<and> valid_fingerprint owner \<and> toml_reads_plain E
     \<and> metadata_readable E (metadata_active i owner)
     \<and> reason_readable E ''reservation cleanup was ambiguous''
     \<and> reason_readable E ''activation failed after sandbox publication''
     \<and> (case q of Inr d \<Rightarrow> valid_delegation d | Inl _ \<Rightarrow> True) \<and> new_lease_id token \<notin> dom L"

definition reserved_for :: "sandbox_id \<Rightarrow> lease_record option \<Rightarrow> bool" where
  "reserved_for i v = (case v of None \<Rightarrow> True | Some r \<Rightarrow> lr_sandbox_id r = i)"

lemma claim_spec_sandbox: "claim_spec E token i owner d L r \<Longrightarrow> lr_sandbox_id r = i"
  by (simp add: claim_spec_def)

lemma reserve_identity_rule:
  assumes "claim_setting E token q owner i L"
  shows "io_valid (parts P (leases (at_ledger E L))) (reserve_identity E token q i owner)
    (\<lambda>v w. parts P (leases (leased_beside E i L)) w \<and> reserved_for i v) (\<lambda>_. parts P (leases (leased_beside E i L)))"
proof -
  note c = assms [unfolded claim_setting_def]
  have new: "beside i L (L(lr_lease_id r \<mapsto> r))" if "claim_spec E token i owner d L r" for d r
    using that c by (intro beside_update) (auto simp: claim_spec_def)
  let ?m = "io_bind (io_lift (map_err MeDelegation q)) (\<lambda>delegation.
        io_bind (io_map_err MeSubid (alloc_claim E token i owner delegation)) (\<lambda>r. io_ok (Some r)))"
  let ?Q = "\<lambda>v a. leased_beside E i L a \<and> (\<exists>r. v = Some r \<and> lr_sandbox_id r = i)"
  have "io_valid (at_ledger E L) ?m ?Q (\<lambda>_. leased_beside E i L)"
  proof (cases q)
    case (Inl e)
    then show ?thesis
      by (intro io_validI) (auto simp: io_simps intro: leased_besideI [OF beside_refl])
  next
    case (Inr d)
    with c have d: "valid_delegation d" by simp
    have "io_valid (at_ledger E L) (io_map_err MeSubid (alloc_claim E token i owner d))
        (\<lambda>r a. leased_beside E i L a \<and> lr_sandbox_id r = i) (\<lambda>_. leased_beside E i L)"
      by (rule io_valid_map_err, rule io_valid_conseq [OF alloc_claim_rule [OF d, of i owner E L token]])
        (use c new in \<open>auto intro: leased_besideI [OF beside_refl] leased_besideI claim_spec_sandbox\<close>)
    then have "io_valid (at_ledger E L)
        (io_bind (io_map_err MeSubid (alloc_claim E token i owner d)) (\<lambda>r. io_ok (Some r))) ?Q (\<lambda>_. leased_beside E i L)"
      by (rule io_valid_bind) (rule io_valid_pre [OF io_valid_io_ok], simp)
    then show ?thesis using Inr by (simp add: io_bind_def io_lift_def map_err_def io_valid_def)
  qed
  from on_allocator_rule [OF this, of P None] show ?thesis
    unfolding reserve_identity_def
    by (rule io_valid_conseq) (auto simp: answered_def leases_def reserved_for_def split: option.splits)
qed

lemma on_lease_rule:
  assumes "io_valid (leased_beside E i L) m (\<lambda>_. leased_beside E i L) (\<lambda>_. leased_beside E i L)"
  shows "io_valid (parts P (leases (leased_beside E i L))) (on_allocator d m)
    (\<lambda>_. parts P (leases (leased_beside E i L))) (\<lambda>_. parts P (leases (leased_beside E i L)))"
  by (rule io_valid_conseq [OF on_allocator_rule [OF assms]]) (auto intro: answered_leases)

lemma release_reserved_rule:
  assumes "claim_setting E token q owner i L" and "lr_sandbox_id r = i"
  shows "io_valid (parts P (leases (leased_beside E i L))) (release_reserved_identity E r)
    (\<lambda>_. parts P (leases (leased_beside E i L))) Z"
proof -
  have t: "toml_reads_plain E" "reason_readable E ''reservation cleanup was ambiguous''"
    using assms(1) by (simp_all add: claim_setting_def)
  note ops = lease_ops_beside [OF t(1) assms(2)]
  have "io_valid (leased_beside E i L)
      (io_match (io_then (begin_release E r) (finish_release E r))
        (\<lambda>e. io_ignore (alloc_quarantine E r ''reservation cleanup was ambiguous'')) io_ok)
      (\<lambda>_. leased_beside E i L) (\<lambda>_ _. False)"
    by (rule io_valid_match [OF io_valid_then [OF ops(1,2)]])
      (rule io_valid_io_ok io_ignore_rule [OF ops(4) [OF t(2)]])+
  from on_allocator_total [OF this, of P] show ?thesis
    unfolding release_reserved_identity_def
    by (rule io_valid_conseq) (auto simp: leases_def answered_def split: option.splits)
qed

lemma activate_reserved_rule:
  assumes c: "claim_setting E token q owner i L" and v: "reserved_for i v"
  shows "io_valid (parts P (leases (leased_beside E i L))) (activate_reserved E v)
    (\<lambda>_. parts P (leases (leased_beside E i L))) (\<lambda>_. parts P (leases (leased_beside E i L)))"
proof (cases v)
  case None
  then show ?thesis by (simp add: activate_reserved_def) (rule io_valid_io_ok)
next
  case (Some r)
  have t: "toml_reads_plain E" "reason_readable E ''activation failed after sandbox publication''"
    using c by (simp_all add: claim_setting_def)
  have "lr_sandbox_id r = i" using v Some by (simp add: reserved_for_def)
  note ops = lease_ops_beside [OF t(1) this]
  let ?S = "parts P (leases (leased_beside E i L))"
  have q: "io_valid ?S (io_ignore (on_allocator () (alloc_quarantine E r ''activation failed after sandbox publication'')))
      (\<lambda>_. ?S) Z" for Z
    by (rule io_ignore_rule [OF on_lease_rule [OF ops(4) [OF t(2)]]])
  show ?thesis
    unfolding activate_reserved_def Some option.case
    by (rule io_valid_match [OF on_lease_rule [OF ops(3)]], rule io_valid_io_ok, rule io_valid_then, rule q, rule io_valid_io_err)
qed

lemma creation_failed_rule:
  assumes c: "claim_setting E token q owner i L" and v: "reserved_for i v"
  shows "io_valid (parts P (leases (leased_beside E i L))) (creation_failed E v owner e)
    (\<lambda>_ _. False) (\<lambda>_. parts P (leases (leased_beside E i L)))"
proof -
  let ?S = "parts P (leases (leased_beside E i L))"
  have rel: "io_valid ?S (case v of None \<Rightarrow> io_ok () | Some r \<Rightarrow> release_reserved_identity E r) (\<lambda>_. ?S) (\<lambda>_. ?S)"
    using v by (cases v) (simp_all add: reserved_for_def io_valid_io_ok [of "\<lambda>_. ?S"] release_reserved_rule [OF c])
  show ?thesis
    unfolding creation_failed_def
    by (rule io_valid_then [OF rel], rule free_then [OF disk_free_memory(1)]) (auto intro: io_valid_io_err)
qed

text \<open>
  What a successful claim means for the disk and the ledger, and what a failed one may leave. Only
  the claim of a vacant identifier changes either of them.
\<close>

definition claim_moves :: "registry \<Rightarrow> sandbox_id \<Rightarrow> ledger \<Rightarrow> ledger \<Rightarrow> bool" where
  "claim_moves R i L L' \<longleftrightarrow> (if R i = Vacant then beside i L L' else L' = L)"

definition claimed ::
  "env \<Rightarrow> registry \<Rightarrow> ledger \<Rightarrow> principal \<Rightarrow> sandbox_id \<Rightarrow> sandbox_handle \<Rightarrow> manager \<Rightarrow> bool" where
  "claimed E R L p i h w \<longleftrightarrow> (\<exists>m. md_id m = i \<and> md_state m = Active \<and> sh_id h = i \<and> sh_owner h = md_owner m
     \<and> authorized p (md_owner m) \<and> registry_at E (R(i := Held m)) (mg_fs w)
     \<and> (if sh_created h then R i = Vacant \<and> md_owner m = pr_fingerprint p else R i = Held m)
     \<and> answered None (sh_identity h)
         (\<lambda>a. \<exists>L'. claim_moves R i L L' \<and> at_ledger E L' a \<and> granted L' m (sh_identity h)) (mg_subids w))"

definition claim_failed :: "env \<Rightarrow> registry \<Rightarrow> ledger \<Rightarrow> sandbox_id \<Rightarrow> manager \<Rightarrow> bool" where
  "claim_failed E R L i w \<longleftrightarrow> (\<exists>x. (R i = Vacant \<or> x = R i) \<and> registry_at E (R(i := x)) (mg_fs w))
     \<and> leases (\<lambda>a. \<exists>L'. claim_moves R i L L' \<and> at_ledger E L' a) (mg_subids w)"

lemma claim_moves_same: "claim_moves R i L L"
  by (simp add: claim_moves_def)

lemma vacant_moves: "R i = Vacant \<Longrightarrow> (\<exists>L'. claim_moves R i L L' \<and> at_ledger E L' a) \<longleftrightarrow> leased_beside E i L a"
  by (simp add: claim_moves_def leased_beside_def)

lemma claim_failed_at:
  assumes "registry_at E (R(i := x)) (mg_fs w)" and "leases (leased_beside E i L) (mg_subids w)" and "R i = Vacant"
  shows "claim_failed E R L i w"
  unfolding claim_failed_def vacant_moves [where R = R and i = i, OF assms(3)] using assms by blast

lemma claim_failed_same:
  assumes "registry_at E R (mg_fs w)" and "leases (at_ledger E L) (mg_subids w)"
  shows "claim_failed E R L i w"
  unfolding claim_failed_def
proof
  show "\<exists>x. (R i = Vacant \<or> x = R i) \<and> registry_at E (R(i := x)) (mg_fs w)" using assms(1) by (metis fun_upd_triv)
  show "leases (\<lambda>a. \<exists>L'. claim_moves R i L L' \<and> at_ledger E L' a) (mg_subids w)"
    using assms(2) by (rule leases_mono) (use claim_moves_same in blast)
qed

text \<open>The end of a claim: the identity and the handle of the record on disk.\<close>

lemma hand_out_rule:
  assumes "md_id m = i" "md_state m = Active" "authorized p (md_owner m)"
    and "if created then R i = Vacant \<and> md_owner m = pr_fingerprint p else R i = Held m"
  shows "io_valid (parts (registry_at E (R(i := Held m))) (leases (\<lambda>a. \<exists>L'. claim_moves R i L L' \<and> at_ledger E L' a)))
    (io_bind (identity_for E q m) (\<lambda>identity. handle m identity created)) (claimed E R L p i)
    (\<lambda>_. claim_failed E R L i)"
proof (rule io_valid_bind)
  let ?P = "registry_at E (R(i := Held m))"
  let ?A = "\<lambda>v. answered None v (\<lambda>a. \<exists>L'. claim_moves R i L L' \<and> at_ledger E L' a \<and> granted L' m v)"
  show "io_valid (parts ?P (leases (\<lambda>a. \<exists>L'. claim_moves R i L L' \<and> at_ledger E L' a))) (identity_for E q m)
      (\<lambda>v. parts ?P (?A v)) (\<lambda>_. claim_failed E R L i)"
    by (rule io_valid_conseq [OF identity_for_rule [where P = ?P and C = "claim_moves R i L"]])
      (use assms(4) in \<open>auto simp: claim_failed_def split: if_splits\<close>)
  fix v
  show "io_valid (parts ?P (?A v)) (handle m v created) (claimed E R L p i) (\<lambda>_. claim_failed E R L i)"
    by (rule io_validI) (use assms in \<open>auto simp: handle_def claimed_def\<close>)
qed

lemma claim_absent_rule:
  assumes c: "claim_setting E token q (pr_fingerprint p) i L" and v: "R i = Vacant"
  shows "io_valid (parts (registry_at E R) (leases (at_ledger E L))) (claim_absent E token q q' (pr_fingerprint p) i)
    (claimed E R L p i) (\<lambda>_. claim_failed E R L i)"
proof -
  let ?owner = "pr_fingerprint p"
  let ?S = "leases (leased_beside E i L)"
  let ?m = "metadata_active i ?owner"
  note cs = c [unfolded claim_setting_def]
  have start: "claim_failed E R L i w" if "parts (registry_at E R) (leases (at_ledger E L)) w" for w
    using that claim_failed_same by blast
  have create: "io_valid (parts (registry_at E R) ?S) (on_storage id (\<lambda>st. create_active E st i ?owner))
      (\<lambda>m w. parts (registry_at E (R(i := Held ?m))) ?S w \<and> m = ?m)
      (\<lambda>_. parts (\<lambda>fs. \<exists>x. registry_at E (R(i := x)) fs) ?S)"
  proof -
    have "io_valid (registry_at E R) (create_active E st i ?owner)
        (\<lambda>m fs. registry_at E (R(i := Held ?m)) fs \<and> m = ?m) (\<lambda>_ fs. \<exists>x. registry_at E (R(i := x)) fs)" for st
      by (rule io_valid_conseq [OF create_active_rule [of i E ?owner R st]])
        (use cs v in \<open>auto intro: exI [of _ Vacant] simp: fun_upd_idem\<close>)
    from on_storage_rule [OF this, of ?S id] show ?thesis by (rule io_valid_conseq) auto
  qed
  have publish: "io_valid (\<lambda>w. parts (registry_at E (R(i := Held ?m))) ?S w \<and> m = ?m)
      (io_then (on_ledger (\<lambda>l. ((), insert_reserved m l))) (io_then (activate_reserved E r)
        (io_bind (identity_for E q' m) (\<lambda>identity. handle m identity True))))
      (claimed E R L p i) (\<lambda>_. claim_failed E R L i)" if "reserved_for i r" for m r
  proof (rule io_valid_pure, hypsubst, rule free_then [OF disk_free_memory(1)], rule io_valid_then)
    show "io_valid (parts (registry_at E (R(i := Held ?m))) ?S) (activate_reserved E r)
        (\<lambda>_. parts (registry_at E (R(i := Held ?m))) ?S) (\<lambda>_. claim_failed E R L i)"
      by (rule io_valid_conseq [OF activate_reserved_rule [OF c that, where P = "registry_at E (R(i := Held ?m))"]])
        (use v in \<open>auto intro: claim_failed_at\<close>)
    show "io_valid (parts (registry_at E (R(i := Held ?m))) ?S)
        (io_bind (identity_for E q' ?m) (\<lambda>identity. handle ?m identity True)) (claimed E R L p i) (\<lambda>_. claim_failed E R L i)"
      unfolding vacant_moves [where R = R and i = i, OF v, symmetric]
      by (rule hand_out_rule) (use v in \<open>auto simp: metadata_active_def authorized_def\<close>)
  qed simp
  have failed: "io_valid (parts (\<lambda>fs. \<exists>x. registry_at E (R(i := x)) fs) ?S) (creation_failed E r ?owner e)
      (claimed E R L p i) (\<lambda>_. claim_failed E R L i)" if "reserved_for i r" for r e
    by (rule io_valid_conseq [OF creation_failed_rule [OF c that, where P = "\<lambda>fs. \<exists>x. registry_at E (R(i := x)) fs"]])
      (use v in \<open>auto intro: claim_failed_at\<close>)
  have rest: "io_valid (\<lambda>w. parts (registry_at E R) ?S w \<and> reserved_for i r)
      (io_match (on_storage id (\<lambda>st. create_active E st i ?owner)) (creation_failed E r ?owner)
        (\<lambda>m. io_then (on_ledger (\<lambda>l. ((), insert_reserved m l))) (io_then (activate_reserved E r)
          (io_bind (identity_for E q' m) (\<lambda>identity. handle m identity True)))))
      (claimed E R L p i) (\<lambda>_. claim_failed E R L i)" for r
    by (rule io_valid_pure) (rule io_valid_match [OF create publish failed])
  have undo: "io_valid (parts (registry_at E R) ?S)
      (io_then (on_ledger (\<lambda>l. ((), release_sandbox ?owner l))) (io_err e)) (claimed E R L p i) (\<lambda>_. claim_failed E R L i)" for e
    by (rule free_then [OF disk_free_memory(1)]) (rule io_valid_pre [OF io_valid_io_err], use v in \<open>auto intro: claim_failed_at [where x = Vacant] simp: fun_upd_idem\<close>)
  show ?thesis
    unfolding claim_absent_def
    by (rule free_bind [OF disk_free_memory(1)], rule io_valid_if, rule io_valid_pre [OF io_valid_io_err], erule start,
        rule free_then [OF disk_free_memory(5)], rule io_valid_match [OF reserve_identity_rule [OF c] rest undo])
      (auto intro: start)
qed

lemma held_id:
  assumes "registry_at E R fs" and "valid_id i" and "R i = Held m"
  shows "md_id m = i" and "valid_metadata m"
proof -
  from assms have "slot_of E (fs_root fs) i = Held m" by (auto simp: registry_at_def registry_on_def)
  then obtain n where "metadata_file E i n = Some m"
    by (auto simp: slot_of_def record_in_Some split: option.splits node.splits)
  then obtain bytes where "metadata_decode E bytes i = Inr m"
    by (cases "(E, i, n)" rule: metadata_file.cases) (auto split: if_splits sum.splits)
  from metadata_decode_sound [OF this] show "md_id m = i" "valid_metadata m" by auto
qed

lemma match_cases:
  "entry_matches (EntryActive m) x \<Longrightarrow> x = Held m \<and> md_state m = Active"
  "entry_matches (EntryDeleting m) x \<Longrightarrow> x = Held m \<and> md_state m = Deleting"
  "entry_matches EntryAbsent x \<Longrightarrow> x = Vacant"
  "entry_matches (EntryCorrupt reason) x \<Longrightarrow> x = Broken"
  by (cases x; auto simp: entry_for_def split: state.splits)+

lemma claim_rule:
  assumes c: "claim_setting E token q (pr_fingerprint p) i L"
  shows "io_valid (parts (registry_at E R) (leases (at_ledger E L))) (claim E token q q' p i)
    (claimed E R L p i) (\<lambda>_. claim_failed E R L i)"
proof -
  let ?P = "parts (registry_at E R) (leases (at_ledger E L))"
  let ?Z = "\<lambda>_. claim_failed E R L i"
  have i: "valid_id i" using c by (simp add: claim_setting_def)
  have start: "claim_failed E R L i w" if "?P w" for w
    using that claim_failed_same by blast
  have look: "io_valid ?P (on_storage MeStorage (\<lambda>st. inspect E st i)) (\<lambda>v w. ?P w \<and> entry_matches v (R i)) ?Z"
    by (rule io_valid_conseq [OF on_storage_rule [OF inspect_registry [OF i, of E R], of "leases (at_ledger E L)" MeStorage]])
      (auto intro: start)
  have stop: "io_valid ?P (io_err e) (claimed E R L p i) ?Z" for e
    by (rule io_valid_pre [OF io_valid_io_err]) (rule start)
  have active: "io_valid ?P (io_bind (noting i m) (\<lambda>ok. if \<not> ok then io_err MeUnavailable
      else if \<not> authorized p (md_owner m) then io_err MeUnavailable
      else io_bind (identity_for E q' m) (\<lambda>identity. handle m identity False))) (claimed E R L p i) ?Z"
    if m: "R i = Held m" "md_state m = Active" for m
  proof (rule free_bind [OF disk_free_memory(4)], intro io_valid_if stop)
    assume a: "\<not> \<not> authorized p (md_owner m)"
    show "io_valid ?P (io_bind (identity_for E q' m) (\<lambda>identity. handle m identity False)) (claimed E R L p i) ?Z"
    proof (cases "md_id m = i")
      case True
      have "R(i := Held m) = R" using m(1) by (simp add: fun_upd_idem)
      with hand_out_rule [of m i p False R E L q'] True m a show ?thesis
        by (intro io_valid_pre [OF hand_out_rule [of m i p False R E L q']])
          (auto elim!: leases_mono intro: claim_moves_same)
    next
      case False
      then have "\<not> ?P w" for w using held_id(1) [where R = R and i = i and m = m] i m(1) by blast
      then show ?thesis unfolding io_valid_def by blast
    qed
  qed simp
  have quiet: "io_valid ?P (io_then (noting i m) (io_err MeUnavailable)) (claimed E R L p i) ?Z"
    "io_valid ?P (io_then (on_logged (note_corrupt i)) (io_err MeUnavailable)) (claimed E R L p i) ?Z" for m
    by (rule free_then [OF disk_free_memory(4) stop], simp) (rule free_then [OF disk_free_memory(2) stop], simp)
  have main: "io_valid ?P (io_bind (on_storage MeStorage (\<lambda>st. inspect E st i)) (claim_entry E token q q' p i))
      (claimed E R L p i) ?Z"
  proof (rule io_valid_bind [OF look], rule io_valid_pure)
    fix entry assume e: "entry_matches entry (R i)"
    show "io_valid ?P (claim_entry E token q q' p i entry) (claimed E R L p i) ?Z"
    proof (cases entry)
      case EntryAbsent
      then show ?thesis using claim_absent_rule [OF c] match_cases(3) e by (simp add: claim_entry_def)
    next
      case (EntryActive m)
      then show ?thesis using active match_cases(1) e by (simp add: claim_entry_def del: not_not)
    qed (simp_all add: claim_entry_def quiet)
  qed
  show ?thesis
    unfolding claim_def
    by (rule free_then [OF disk_free_memory(6) with_lifecycle_rule [OF main]])
      (simp_all add: start, simp_all add: claimed_def claim_failed_def)
qed

end
