(* ===== verification/Manager_Delete.thy ===== *)
theory Manager_Delete
  imports Manager_Rules
begin

text \<open>
  Rules for deletion: which slot and which lease a finished, a refused and a failed deletion leave.
\<close>

section \<open>The lease of the deleted sandbox\<close>

text \<open>The two ledgers a deletion moves through, from the one it found the lease in.\<close>

definition opened :: "ledger \<Rightarrow> lease_record \<Rightarrow> ledger" where
  "opened L r = (if is_open_lease r then L(lr_lease_id r \<mapsto> lease_with_state r LeaseReleasing) else L)"

definition freed :: "ledger \<Rightarrow> lease_record \<Rightarrow> ledger" where
  "freed L r = (if lr_state r = LeaseQuarantined then L else L(lr_lease_id r := None))"

definition holding :: "(lease_record \<Rightarrow> allocator \<Rightarrow> bool) \<Rightarrow> lease_record option \<Rightarrow> allocator option \<Rightarrow> bool" where
  "holding A v x = (case x of None \<Rightarrow> v = None | Some a \<Rightarrow> \<exists>r. v = Some r \<and> A r a)"

lemma holding_mono: "holding A v x \<Longrightarrow> (\<And>r a. A r a \<Longrightarrow> B r a) \<Longrightarrow> holding B v x"
  by (auto simp: holding_def split: option.splits)

lemma holding_leases: "holding A v x \<Longrightarrow> (\<And>r a. A r a \<Longrightarrow> B a) \<Longrightarrow> leases B x"
  by (auto simp: holding_def leases_def split: option.splits)

lemma on_held_rule:
  assumes "\<And>r. c r \<Longrightarrow> io_valid (A r) (m r) (\<lambda>_. B r) (\<lambda>_. C r)" and "\<And>r a. \<not> c r \<Longrightarrow> A r a \<Longrightarrow> B r a"
  shows "io_valid (parts P (holding A v))
    (case v of Some r \<Rightarrow> if c r then on_allocator () (io_map_err g (m r)) else io_ok () | None \<Rightarrow> io_ok ())
    (\<lambda>_. parts P (holding B v)) (\<lambda>_. parts P (holding C v))"
proof (cases v)
  case None
  then show ?thesis by (simp add: io_valid_def holding_def io_ok_def split: option.splits)
next
  case (Some r)
  show ?thesis
  proof (cases "c r")
    case True
    with Some show ?thesis
      using io_valid_ok [OF assms(1) [of r]] io_valid_err [OF assms(1) [of r]]
      by (fastforce simp: io_valid_def holding_def on_allocator_def io_map_err_def map_err_def
          split: prod.splits sum.splits option.splits)
  next
    case False
    with Some assms(2) show ?thesis by (auto simp: io_valid_def holding_def io_ok_def split: option.splits)
  qed
qed

lemma begin_release_opened:
  assumes "toml_reads_plain E" and "lease_of L i (Some r)" and "is_open_lease r"
  shows "io_valid (at_ledger E L) (begin_release E r) (\<lambda>_. at_ledger E (opened L r))
    (\<lambda>_ a. at_ledger E L a \<or> at_ledger E (opened L r) a)"
  by (rule io_valid_conseq [OF begin_release_by [OF assms(1), where T = "\<lambda>_ M. M = opened L r"]])
    (use assms in \<open>auto simp: opened_def lease_of_def moved_by_def\<close>)

lemma finish_release_freed:
  assumes "lr_state r \<noteq> LeaseQuarantined"
  shows "io_valid (at_ledger E (opened L r)) (finish_release E r) (\<lambda>_. at_ledger E (freed L r))
    (\<lambda>_ a. at_ledger E (opened L r) a \<or> at_ledger E (freed L r) a)"
proof -
  have "(opened L r)(lr_lease_id r := None) = freed L r" using assms by (simp add: opened_def freed_def)
  then show ?thesis
    unfolding finish_release_def
    by (intro io_valid_conseq [OF remove_expected_by [where T = "\<lambda>_ M. M = freed L r"]]) (auto simp: moved_by_def)
qed

lemma delete_lease_rule:
  "io_valid (parts P (leases (at_ledger E L))) (delete_lease E i)
    (\<lambda>v. parts P (holding (\<lambda>r a. lease_of L i (Some r) \<and> at_ledger E L a) v))
    (\<lambda>_. parts P (leases (at_ledger E L)))"
proof -
  let ?m = "io_bind (io_map_err MeSubid (lease_for E i)) (\<lambda>found.
      io_bind (io_lift (ok_or MeUnavailable found)) (\<lambda>r. io_ok (Some r)))"
  have "io_valid (at_ledger E L) ?m (\<lambda>v a. \<exists>r. v = Some r \<and> lease_of L i (Some r) \<and> at_ledger E L a) (\<lambda>_. at_ledger E L)"
  proof (rule io_valid_bind [OF io_valid_map_err [OF lease_for_rule]])
    fix found
    show "io_valid (\<lambda>a. at_ledger E L a \<and> lease_of L i found)
        (io_bind (io_lift (ok_or MeUnavailable found)) (\<lambda>r. io_ok (Some r)))
        (\<lambda>v a. \<exists>r. v = Some r \<and> lease_of L i (Some r) \<and> at_ledger E L a) (\<lambda>_. at_ledger E L)"
      by (cases found) (auto simp: io_valid_def io_simps ok_or_def)
  qed
  from on_allocator_rule [OF this, of P None] show ?thesis
    unfolding delete_lease_def
    by (rule io_valid_conseq) (auto simp: answered_def holding_def split: option.splits)
qed

section \<open>Deleting\<close>

lemma disk_free_bind: "disk_free Z m \<Longrightarrow> (\<And>x. disk_free Z (f x)) \<Longrightarrow> disk_free Z (io_bind m f)"
  unfolding disk_free_def by (meson io_valid_bind)

lemma disk_free_then: "disk_free Z m \<Longrightarrow> disk_free Z n \<Longrightarrow> disk_free Z (io_then m n)"
  unfolding io_then_def by (rule disk_free_bind)

lemma disk_free_ok: "disk_free Z (io_ok x)"
  by (simp add: disk_free_def io_valid_def io_ok_def)

lemma disk_free_cancel: "disk_free (\<lambda>_. False) (cancel_runtime i graceful forced)"
  unfolding cancel_runtime_def
  by (intro disk_free_then disk_free_bind) (auto intro!: disk_free_ok disk_free_bind disk_free_then)

lemma disk_free_release: "disk_free (\<lambda>_. True) (release_resources ln i)"
  by (auto simp: disk_free_def io_valid_def release_resources_def io_lift_def)

text \<open>What a deletion that stops early may have done to the slot and to the lease.\<close>

definition slot_left :: "registry \<Rightarrow> principal \<Rightarrow> sandbox_id \<Rightarrow> slot \<Rightarrow> bool" where
  "slot_left R p i x \<longleftrightarrow> x = R i \<or> (\<exists>m. R i = Held m \<and> authorized p (md_owner m)
     \<and> (x = Held (metadata_with_state m Deleting) \<or> x = Broken \<or> x = Vacant))"

definition lease_left :: "env \<Rightarrow> ledger \<Rightarrow> sandbox_id \<Rightarrow> bool \<Rightarrow> allocator \<Rightarrow> bool" where
  "lease_left E L i gone a \<longleftrightarrow> (\<exists>r. lease_of L i (Some r)
     \<and> (at_ledger E L a \<or> at_ledger E (opened L r) a \<or> gone \<and> at_ledger E (freed L r) a))"

definition delete_failed :: "env \<Rightarrow> registry \<Rightarrow> ledger \<Rightarrow> principal \<Rightarrow> sandbox_id \<Rightarrow> manager \<Rightarrow> bool" where
  "delete_failed E R L p i w \<longleftrightarrow>
     registry_at E R (mg_fs w) \<and> leases (at_ledger E L) (mg_subids w)
     \<or> (\<exists>x. slot_left R p i x \<and> registry_at E (R(i := x)) (mg_fs w)
          \<and> leases (lease_left E L i (x = Vacant)) (mg_subids w))"

definition deleted :: "env \<Rightarrow> registry \<Rightarrow> ledger \<Rightarrow> principal \<Rightarrow> sandbox_id \<Rightarrow> delete_result \<Rightarrow> manager \<Rightarrow> bool" where
  "deleted E R L p i v w = (case v of
     Deleted \<Rightarrow> (\<exists>m. R i = Held m \<and> authorized p (md_owner m)) \<and> registry_at E (R(i := Vacant)) (mg_fs w)
       \<and> leases (\<lambda>a. \<exists>r. lease_of L i (Some r) \<and> at_ledger E (freed L r) a) (mg_subids w)
   | Noop \<Rightarrow> registry_at E R (mg_fs w) \<and>
       (case R i of
          Held m \<Rightarrow> \<not> authorized p (md_owner m) \<and> leases (at_ledger E L) (mg_subids w)
        | Vacant \<Rightarrow> leases (\<lambda>a. at_ledger E L a \<or> (\<exists>r. lease_of L i (Some r) \<and> lr_state r = LeaseReleasing
            \<and> authorized p (lr_owner r) \<and> at_ledger E (freed L r) a)) (mg_subids w)
        | Broken \<Rightarrow> False))"

lemma delete_failedI:
  "registry_at E (R(i := x)) (mg_fs w) \<Longrightarrow> slot_left R p i x \<Longrightarrow>
     holding (\<lambda>r a. lease_of L i (Some r) \<and> (at_ledger E L a \<or> at_ledger E (opened L r) a
       \<or> x = Vacant \<and> at_ledger E (freed L r) a)) v (mg_subids w) \<Longrightarrow> delete_failed E R L p i w"
  unfolding delete_failed_def by (blast intro: holding_leases [of _ v] lease_left_def [THEN iffD2])

lemma delete_failed_same:
  "registry_at E R (mg_fs w) \<Longrightarrow> leases (at_ledger E L) (mg_subids w) \<Longrightarrow> delete_failed E R L p i w"
  by (simp add: delete_failed_def)

text \<open>The durable intent: after it, the slot holds the record in the deleting state.\<close>

lemma mark_deleting_rule:
  assumes "valid_id i" and "md_id m = i" and "R i = Held m" and "metadata_readable E (metadata_with_state m Deleting)"
  shows "io_valid (parts (registry_at E R) S)
    (mark_deleting E m)
    (\<lambda>_. parts (registry_at E (R(i := Held (metadata_with_state m Deleting)))) S)
    (\<lambda>_. parts (\<lambda>fs. \<exists>x \<in> {R i, Broken, Held (metadata_with_state m Deleting)}. registry_at E (R(i := x)) fs) S)"
proof (cases "md_state m")
  case Active
  let ?d = "metadata_with_state m Deleting"
  let ?Z = "\<lambda>fs. \<exists>x \<in> {R i, Broken, Held ?d}. registry_at E (R(i := x)) fs"
  have d: "md_id ?d = i" using assms(2) by (simp add: metadata_with_state_def)
  have same: "R(i := Held m) = R" using assms(3) by (simp add: fun_upd_idem)
  have "io_valid (registry_at E R) (write_metadata E st ?d) (\<lambda>_. registry_at E (R(i := Held ?d))) (\<lambda>_. ?Z)" for st
    by (rule io_valid_conseq [OF write_metadata_rule [of ?d E R st]]) (use assms d same in auto)
  from on_storage_rule [OF this, of S MeStorage]
  have written: "io_valid (parts (registry_at E R) S) (on_storage MeStorage (\<lambda>st. write_metadata E st ?d))
      (\<lambda>_. parts (registry_at E (R(i := Held ?d))) S) (\<lambda>_. parts ?Z S)"
    by (rule io_valid_conseq) auto
  show ?thesis
    unfolding mark_deleting_def Active Let_def if_P [OF refl]
    by (rule io_valid_then [OF written], rule io_valid_conseq [OF disk_free_rule [OF disk_free_memory(1), where P = "registry_at E (R(i := Held ?d))" and S = S]]) auto
next
  case Deleting
  then have "R(i := Held (metadata_with_state m Deleting)) = R"
    using assms(3) by (simp add: metadata_with_state_def fun_upd_idem)
  with Deleting show ?thesis by (simp add: mark_deleting_def io_valid_def io_ok_def)
qed

text \<open>The steps on the lease, where there is one; \<open>held_in\<close> says which ledger the allocator is at.\<close>

definition held_in :: "env \<Rightarrow> ledger \<Rightarrow> sandbox_id \<Rightarrow> (lease_record \<Rightarrow> ledger set) \<Rightarrow> lease_record option \<Rightarrow> allocator option \<Rightarrow> bool" where
  "held_in E L i F = holding (\<lambda>r a. lease_of L i (Some r) \<and> (\<exists>M \<in> F r. at_ledger E M a))"

lemma held_in_mono: "held_in E L i F v x \<Longrightarrow> (\<And>r. F r \<subseteq> G r) \<Longrightarrow> held_in E L i G v x"
  unfolding held_in_def by (erule holding_mono) blast

lemma on_held_in_rule:
  assumes "\<And>r. c r \<Longrightarrow> lease_of L i (Some r) \<Longrightarrow>
      io_valid (\<lambda>a. \<exists>M \<in> F r. at_ledger E M a) (m r) (\<lambda>_ a. \<exists>M \<in> G r. at_ledger E M a) (\<lambda>_ a. \<exists>M \<in> H r. at_ledger E M a)"
    and "\<And>r. \<not> c r \<Longrightarrow> F r \<subseteq> G r"
  shows "io_valid (parts P (held_in E L i F v))
    (case v of Some r \<Rightarrow> if c r then on_allocator () (io_map_err g (m r)) else io_ok () | None \<Rightarrow> io_ok ())
    (\<lambda>_. parts P (held_in E L i G v)) (\<lambda>_. parts P (held_in E L i H v))"
  unfolding held_in_def
proof (rule on_held_rule)
  fix r assume "c r"
  then show "io_valid (\<lambda>a. lease_of L i (Some r) \<and> (\<exists>M \<in> F r. at_ledger E M a)) (m r)
      (\<lambda>_ a. lease_of L i (Some r) \<and> (\<exists>M \<in> G r. at_ledger E M a)) (\<lambda>_ a. lease_of L i (Some r) \<and> (\<exists>M \<in> H r. at_ledger E M a))"
    using assms(1) [of r] by (fastforce simp: io_valid_def split: prod.splits sum.splits)
qed (use assms(2) in blast)

lemma held_begin_rule:
  assumes "toml_reads_plain E"
  shows "io_valid (parts P (held_in E L i (\<lambda>r. {L}) v))
    (case v of Some r \<Rightarrow> if is_open_lease r then on_allocator () (io_map_err g (begin_release E r)) else io_ok () | None \<Rightarrow> io_ok ())
    (\<lambda>_. parts P (held_in E L i (\<lambda>r. {opened L r}) v)) (\<lambda>_. parts P (held_in E L i (\<lambda>r. {L, opened L r}) v))"
  by (rule on_held_in_rule) (auto intro: begin_release_opened [OF assms], simp add: opened_def)

lemma held_finish_rule:
  "io_valid (parts P (held_in E L i (\<lambda>r. {opened L r}) v))
    (case v of Some r \<Rightarrow> if lr_state r \<noteq> LeaseQuarantined then on_allocator () (io_map_err g (finish_release E r)) else io_ok ()
     | None \<Rightarrow> io_ok ())
    (\<lambda>_. parts P (held_in E L i (\<lambda>r. {freed L r}) v)) (\<lambda>_. parts P (held_in E L i (\<lambda>r. {opened L r, freed L r}) v))"
  by (rule on_held_in_rule) (auto intro: finish_release_freed, simp add: opened_def freed_def is_open_lease_def)

lemma remove_marked_rule:
  assumes "valid_id i" and "md_state d = Deleting"
  shows "io_valid (parts (registry_at E (R(i := Held d))) S) (on_storage MeCleanup (\<lambda>st. remove_tree st i))
    (\<lambda>_. parts (registry_at E (R(i := Vacant))) S)
    (\<lambda>_. parts (\<lambda>fs. \<exists>x \<in> {Held d, Vacant, Broken}. registry_at E (R(i := x)) fs) S)"
proof -
  have "io_valid (registry_at E (R(i := Held d))) (remove_tree st i) (\<lambda>_. registry_at E (R(i := Vacant)))
      (\<lambda>_ fs. \<exists>x \<in> {Held d, Vacant, Broken}. registry_at E (R(i := x)) fs)" for st
    by (rule io_valid_conseq [OF remove_tree_rule [OF assms(1), of E "R(i := Held d)" st]]) (use assms(2) in \<open>auto simp: removal_failed_def\<close>)
  from on_storage_rule [OF this, of S MeCleanup] show ?thesis by (rule io_valid_conseq) auto
qed

lemma delete_failed_held:
  assumes "registry_at E (R(i := x)) (mg_fs w)" and "slot_left R p i x" and "held_in E L i F v (mg_subids w)"
    and "\<And>r. F r \<subseteq> {L, opened L r} \<union> (if x = Vacant then {freed L r} else {})"
  shows "delete_failed E R L p i w"
  using assms(1,2)
  by (rule delete_failedI [where v = v], use assms(3,4) in \<open>fastforce simp: held_in_def split: if_splits elim: holding_mono\<close>)

lemma delete_rest_rule:
  assumes t: "toml_reads_plain E" and i: "valid_id i" and m: "R i = Held m" "authorized p (md_owner m)"
  shows "io_valid (parts (registry_at E (R(i := Held (metadata_with_state m Deleting)))) (held_in E L i (\<lambda>r. {L}) lease))
    (delete_rest E ln graceful forced i lease) (deleted E R L p i) (\<lambda>_. delete_failed E R L p i)"
proof -
  let ?d = "metadata_with_state m Deleting"
  let ?P = "registry_at E (R(i := Held ?d))"
  let ?V = "registry_at E (R(i := Vacant))"
  let ?O = "held_in E L i (\<lambda>r. {opened L r}) lease"
  let ?F = "held_in E L i (\<lambda>r. {freed L r}) lease"
  let ?Z = "\<lambda>_. delete_failed E R L p i"
  have left: "slot_left R p i x" if "x \<in> {Held ?d, Vacant, Broken}" for x using m that by (auto simp: slot_left_def)
  have stopped: "delete_failed E R L p i w" if "parts ?P ?O w" for w
    by (rule delete_failed_held [where x = "Held ?d"]) (use that in \<open>auto intro: left\<close>)
  have begins: "io_valid (parts ?P (held_in E L i (\<lambda>r. {L}) lease)) (case lease of
        Some r \<Rightarrow> if is_open_lease r then on_allocator () (io_map_err MeSubid (begin_release E r)) else io_ok ()
      | None \<Rightarrow> io_ok ()) (\<lambda>_. parts ?P ?O) ?Z"
    by (rule io_valid_conseq [OF held_begin_rule [OF t, where P = ?P]]) (auto intro!: delete_failed_held left)
  have gone: "io_valid (parts ?P ?O) (on_storage MeCleanup (\<lambda>st. remove_tree st i)) (\<lambda>_. parts ?V ?O) ?Z"
    by (rule io_valid_conseq [OF remove_marked_rule [OF i, of ?d]])
      (auto simp: metadata_with_state_def [of m] intro: delete_failed_held [OF _ left])
  have ends: "io_valid (parts ?V ?F) (io_then (on_logged (remove_record_from_ledger i)) (io_ok Deleted)) (deleted E R L p i) ?Z"
    by (rule free_then [where P = ?V and S = ?F, OF disk_free_memory(2)], rule io_valid_pre [OF io_valid_io_ok])
      (use m in \<open>auto simp: deleted_def held_in_def elim: holding_leases\<close>)
  have finishes: "io_valid (parts ?V ?O) (case lease of
        Some r \<Rightarrow> if lr_state r \<noteq> LeaseQuarantined
          then on_allocator () (io_map_err MeSubid (finish_release E r)) else io_ok ()
      | None \<Rightarrow> io_ok ()) (\<lambda>_. parts ?V ?F) ?Z"
    by (rule io_valid_conseq [OF held_finish_rule [where P = ?V]]) (auto intro!: delete_failed_held left)
  show ?thesis
    unfolding delete_rest_def
    by (rule io_valid_then [OF begins], rule free_bind [OF disk_free_cancel], rule io_valid_if,
        rule io_valid_pre [OF io_valid_io_err], erule stopped, rule free_then [OF disk_free_release],
        rule io_valid_then [OF gone], rule io_valid_then [OF finishes ends])
      (erule stopped FalseE)+
qed

lemma delete_present_rule:
  assumes t: "toml_reads_plain E" and i: "valid_id i" and m: "R i = Held m" "md_id m = i" "authorized p (md_owner m)"
    and d: "metadata_readable E (metadata_with_state m Deleting)"
  shows "io_valid (parts (registry_at E R) (leases (at_ledger E L))) (delete_present E ln graceful forced i m)
    (deleted E R L p i) (\<lambda>_. delete_failed E R L p i)"
  unfolding delete_present_def
proof (rule io_valid_bind)
  show "io_valid (parts (registry_at E R) (leases (at_ledger E L))) (delete_lease E i)
      (\<lambda>lease. parts (registry_at E R) (held_in E L i (\<lambda>r. {L}) lease)) (\<lambda>_. delete_failed E R L p i)"
    by (rule io_valid_conseq [OF delete_lease_rule [where P = "registry_at E R"]])
      (auto simp: held_in_def intro: delete_failed_same)
  fix lease
  show "io_valid (parts (registry_at E R) (held_in E L i (\<lambda>r. {L}) lease))
      (io_then (mark_deleting E m) (delete_rest E ln graceful forced i lease)) (deleted E R L p i) (\<lambda>_. delete_failed E R L p i)"
  proof (rule io_valid_then [OF _ delete_rest_rule [where R = R, OF t i m(1,3)]])
    show "io_valid (parts (registry_at E R) (held_in E L i (\<lambda>r. {L}) lease)) (mark_deleting E m)
        (\<lambda>_. parts (registry_at E (R(i := Held (metadata_with_state m Deleting)))) (held_in E L i (\<lambda>r. {L}) lease))
        (\<lambda>_. delete_failed E R L p i)"
      by (rule io_valid_conseq [OF mark_deleting_rule [where R = R, OF i m(2,1) d, where S = "held_in E L i (\<lambda>r. {L}) lease"]])
        (use m in \<open>auto intro!: delete_failed_held simp: slot_left_def\<close>)
  qed
qed

lemma forget_rule:
  assumes "\<And>w. parts P S w \<Longrightarrow> deleted E R L p i Noop w"
  shows "io_valid (parts P S) (io_then (on_logged (remove_record_from_ledger i)) (io_ok Noop)) (deleted E R L p i) Z"
  by (rule free_then [OF disk_free_memory(2)], rule io_valid_pre [OF io_valid_io_ok]) (use assms in auto)

lemma finish_absent_rule:
  assumes "lr_state r = LeaseReleasing"
  shows "io_valid (parts P (leases (at_ledger E L))) (on_allocator () (io_map_err MeSubid (finish_release E r)))
    (\<lambda>_. parts P (leases (at_ledger E (freed L r)))) (\<lambda>_. parts P (leases (\<lambda>a. at_ledger E L a \<or> at_ledger E (freed L r) a)))"
proof -
  have "opened L r = L" using assms by (simp add: opened_def is_open_lease_def)
  with finish_release_freed [of r E L] assms
  have "io_valid (at_ledger E L) (finish_release E r) (\<lambda>_. at_ledger E (freed L r)) (\<lambda>_ a. at_ledger E L a \<or> at_ledger E (freed L r) a)"
    by simp
  then have "io_valid (at_ledger E L) (io_map_err MeSubid (finish_release E r)) (\<lambda>_. at_ledger E (freed L r))
      (\<lambda>_ a. at_ledger E L a \<or> at_ledger E (freed L r) a)" by (rule io_valid_map_err)
  from on_allocator_rule [OF this, of P "()"] show ?thesis
    by (rule io_valid_conseq) (auto elim: answered_leases leases_mono)
qed

lemma delete_absent_rule:
  assumes v: "R i = Vacant"
  shows "io_valid (parts (registry_at E R) (leases (at_ledger E L))) (delete_absent E ln p i)
    (deleted E R L p i) (\<lambda>_. delete_failed E R L p i)"
proof -
  let ?P = "registry_at E R"
  let ?S = "leases (at_ledger E L)"
  let ?Z = "\<lambda>_. delete_failed E R L p i"
  let ?forget = "io_then (on_logged (remove_record_from_ledger i)) (io_ok Noop)"
  have kept: "deleted E R L p i Noop w" if "parts ?P ?S w" for w
    using that v by (auto simp: deleted_def elim: leases_mono)
  have stop: "delete_failed E R L p i w" if "parts ?P ?S w" for w using that delete_failed_same by blast
  have some: "io_valid (\<lambda>w. parts ?P ?S w \<and> lease_of L i (Some r))
      (if \<not> authorized p (lr_owner r) then io_ok Noop
       else (case lr_state r of
          LeaseReleasing \<Rightarrow> io_then (release_resources ln i)
            (io_then (on_allocator () (io_map_err MeSubid (finish_release E r))) ?forget)
        | LeaseQuarantined \<Rightarrow> io_then (release_resources ln i) ?forget
        | _ \<Rightarrow> io_err MeUnavailable)) (deleted E R L p i) ?Z" for r
  proof (rule io_valid_pure, rule io_valid_if)
    assume r: "lease_of L i (Some r)"
    show "io_valid (parts ?P ?S) (io_ok Noop) (deleted E R L p i) ?Z"
      by (rule io_valid_pre [OF io_valid_io_ok]) (rule kept)
    assume a: "\<not> \<not> authorized p (lr_owner r)"
    have "R(i := Vacant) = R" using v by (simp add: fun_upd_idem)
    then have failed: "delete_failed E R L p i w"
      if "registry_at E R (mg_fs w)" "leases (\<lambda>a. at_ledger E L a \<or> at_ledger E (freed L r) a) (mg_subids w)" for w
      unfolding delete_failed_def slot_left_def using v r that
      by (intro disjI2 exI [of _ Vacant]) (auto simp: lease_left_def elim!: leases_mono)
    have freeing: "io_valid (parts ?P ?S) (io_then (release_resources ln i)
        (io_then (on_allocator () (io_map_err MeSubid (finish_release E r))) ?forget)) (deleted E R L p i) ?Z"
      if "lr_state r = LeaseReleasing"
    proof (rule free_then [OF disk_free_release], rule io_valid_then)
      show "io_valid (parts ?P ?S) (on_allocator () (io_map_err MeSubid (finish_release E r)))
          (\<lambda>_. parts ?P (leases (at_ledger E (freed L r)))) ?Z"
        by (rule io_valid_conseq [OF finish_absent_rule [OF that, where P = ?P]])
          (use failed in auto)
      show "io_valid (parts ?P (leases (at_ledger E (freed L r)))) ?forget (deleted E R L p i) ?Z"
        by (rule forget_rule) (use v r a that in \<open>auto simp: deleted_def elim: leases_mono\<close>)
    qed (erule stop)
    have ignoring: "io_valid (parts ?P ?S) (io_then (release_resources ln i) ?forget) (deleted E R L p i) ?Z"
      by (rule free_then [OF disk_free_release forget_rule]) (erule kept stop)+
    have refusing: "io_valid (parts ?P ?S) (io_err MeUnavailable) (deleted E R L p i) ?Z"
      by (rule io_valid_pre [OF io_valid_io_err]) (erule stop)
    show "io_valid (parts ?P ?S) (case lr_state r of
          LeaseReleasing \<Rightarrow> io_then (release_resources ln i)
            (io_then (on_allocator () (io_map_err MeSubid (finish_release E r))) ?forget)
        | LeaseQuarantined \<Rightarrow> io_then (release_resources ln i) ?forget
        | _ \<Rightarrow> io_err MeUnavailable) (deleted E R L p i) ?Z"
      by (cases "lr_state r") (simp_all add: freeing ignoring refusing)
  qed
  have look: "io_valid (parts ?P ?S) (on_allocator None (io_map_err MeSubid (lease_for E i)))
      (\<lambda>found w. parts ?P ?S w \<and> (case found of None \<Rightarrow> True | Some r \<Rightarrow> lease_of L i (Some r))) ?Z"
  proof -
    have "io_valid (at_ledger E L) (io_map_err MeSubid (lease_for E i)) (\<lambda>v a. at_ledger E L a \<and> lease_of L i v)
        (\<lambda>_. at_ledger E L)" by (rule io_valid_map_err) (rule lease_for_rule)
    from on_allocator_rule [OF this, of ?P None] show ?thesis
      by (rule io_valid_conseq) (auto simp: answered_def leases_def split: option.splits intro: stop)
  qed
  have forget: "io_valid (parts ?P ?S) ?forget (deleted E R L p i) ?Z" by (rule forget_rule) (erule kept)
  show ?thesis
    unfolding delete_absent_def Let_def
  proof (rule io_valid_bind [OF look])
    fix found
    show "io_valid (\<lambda>w. parts ?P ?S w \<and> (case found of None \<Rightarrow> True | Some r \<Rightarrow> lease_of L i (Some r)))
        (case found of None \<Rightarrow> ?forget | Some r \<Rightarrow>
          if \<not> authorized p (lr_owner r) then io_ok Noop
          else (case lr_state r of
             LeaseReleasing \<Rightarrow> io_then (release_resources ln i)
               (io_then (on_allocator () (io_map_err MeSubid (finish_release E r))) ?forget)
           | LeaseQuarantined \<Rightarrow> io_then (release_resources ln i) ?forget
           | _ \<Rightarrow> io_err MeUnavailable)) (deleted E R L p i) ?Z"
      using forget some by (cases found) simp_all
  qed
qed

text \<open>What the environment has to offer for a deletion: the TOML reader reads what the code writes.\<close>

definition delete_setting :: "env \<Rightarrow> sandbox_id \<Rightarrow> bool" where
  "delete_setting E i \<longleftrightarrow> valid_id i \<and> toml_reads_plain E
     \<and> (\<forall>m. valid_metadata m \<longrightarrow> md_id m = i \<longrightarrow> metadata_readable E m)"

lemma delete_rule:
  assumes c: "delete_setting E i"
  shows "io_valid (parts (registry_at E R) (leases (at_ledger E L))) (delete E ln graceful forced p i)
    (deleted E R L p i) (\<lambda>_. delete_failed E R L p i)"
proof -
  let ?P = "parts (registry_at E R) (leases (at_ledger E L))"
  let ?Q = "deleted E R L p i"
  let ?Z = "\<lambda>_. delete_failed E R L p i"
  have i: "valid_id i" and t: "toml_reads_plain E" using c by (simp_all add: delete_setting_def)
  have stop: "delete_failed E R L p i w" if "?P w" for w using that delete_failed_same by blast
  have look: "io_valid ?P (on_storage MeStorage (\<lambda>st. inspect E st i)) (\<lambda>v w. ?P w \<and> entry_matches v (R i)) ?Z"
    by (rule io_valid_conseq [OF on_storage_rule [OF inspect_registry [OF i, of E R], of "leases (at_ledger E L)" MeStorage]])
      (auto intro: stop)
  have err: "io_valid ?P (io_err e) ?Q ?Z" for e by (rule io_valid_pre [OF io_valid_io_err]) (erule stop)
  have present: "io_valid ?P (io_bind (noting i m) (\<lambda>ok.
      if \<not> ok then io_err MeUnavailable else if \<not> authorized p (md_owner m) then io_ok Noop
      else delete_present E ln graceful forced i m)) ?Q ?Z" if m: "R i = Held m" for m
  proof (rule free_bind [OF disk_free_memory(4)], intro io_valid_if err)
    assume "\<not> authorized p (md_owner m)"
    then show "io_valid ?P (io_ok Noop) ?Q ?Z"
      by (intro io_valid_pre [OF io_valid_io_ok]) (use m in \<open>auto simp: deleted_def\<close>)
  next
    assume a: "\<not> \<not> authorized p (md_owner m)"
    show "io_valid ?P (delete_present E ln graceful forced i m) ?Q ?Z"
    proof (cases "md_id m = i \<and> valid_metadata m")
      case True
      then have "valid_metadata (metadata_with_state m Deleting)" "md_id (metadata_with_state m Deleting) = i"
        by (auto simp: metadata_with_state_def valid_metadata_def)
      with c have "metadata_readable E (metadata_with_state m Deleting)" by (simp add: delete_setting_def)
      with True a show ?thesis by (intro delete_present_rule [where R = R] t i m) simp_all
    next
      case False
      then have "\<not> ?P w" for w using held_id [where R = R and i = i and m = m] i m by blast
      then show ?thesis unfolding io_valid_def by blast
    qed
  qed simp
  have corrupt: "io_valid ?P (io_then (on_logged (note_corrupt i)) (io_err MeUnavailable)) ?Q ?Z"
    by (rule free_then [OF disk_free_memory(2) err]) simp
  have main: "io_valid ?P (io_bind (on_storage MeStorage (\<lambda>st. inspect E st i)) (delete_entry E ln graceful forced p i)) ?Q ?Z"
  proof (rule io_valid_bind [OF look], rule io_valid_pure)
    fix entry assume e: "entry_matches entry (R i)"
    show "io_valid ?P (delete_entry E ln graceful forced p i entry) ?Q ?Z"
      using delete_absent_rule [of R i] present match_cases e
      by (cases entry) (simp_all add: delete_entry_def corrupt del: not_not)
  qed
  show ?thesis
    unfolding delete_def
    by (rule free_then [OF disk_free_memory(6) with_lifecycle_rule [OF main]])
      (simp_all add: stop, simp_all add: deleted_def delete_failed_def split: delete_result.splits slot.splits)
qed

end
