(* ===== verification/Manager_Frames.thy ===== *)
theory Manager_Frames
  imports Manager_Delete
begin

text \<open>
  What operations of the manager leave alone: an observation of its state that no step of an
  operation changes is kept by the whole operation. The mode (whether the manager has an allocator)
  is kept by all of them, the files of the registry by all that do not call the storage.
\<close>

definition keeps :: "(manager \<Rightarrow> 'o) \<Rightarrow> (manager, 'e, 'a) io \<Rightarrow> bool" where
  "keeps g m \<longleftrightarrow> (\<forall>w. g (snd (m w)) = g w)"

lemma keepsD: "keeps g m \<Longrightarrow> m w = (v, w') \<Longrightarrow> g w' = g w"
  unfolding keeps_def by (metis snd_conv)

lemma keeps_valid: "keeps g m \<Longrightarrow> io_valid (\<lambda>w. P (g w)) m (\<lambda>_ w. P (g w)) (\<lambda>_ w. P (g w))"
  unfolding keeps_def by (rule io_validI) (metis snd_conv)+

named_theorems frame_rules \<open>operations that keep an observation of the manager\<close>

lemma keeps_pure [frame_rules]: "keeps g (io_ok x)" "keeps g (io_err e)" "keeps g (io_lift r)"
  by (simp_all add: keeps_def io_ok_def io_err_def io_lift_def)

lemma keeps_bind [frame_rules]:
  assumes "keeps g m" and "\<And>x. keeps g (f x)"
  shows "keeps g (io_bind m f)"
  using assms unfolding keeps_def io_bind_def case_prod_unfold by (simp add: sum.case_eq_if)

lemma keeps_then [frame_rules]: "keeps g m \<Longrightarrow> keeps g n \<Longrightarrow> keeps g (io_then m n)"
  unfolding io_then_def by (rule keeps_bind)

lemma keeps_match [frame_rules]:
  assumes "keeps g m" and "\<And>e. keeps g (h e)" and "\<And>x. keeps g (f x)"
  shows "keeps g (io_match m h f)"
  using assms unfolding keeps_def io_match_def case_prod_unfold by (simp add: sum.case_eq_if)

lemma keeps_cases [frame_rules]:
  "(b \<Longrightarrow> keeps g m) \<Longrightarrow> (\<not> b \<Longrightarrow> keeps g n) \<Longrightarrow> keeps g (if b then m else n)"
  "keeps g u \<Longrightarrow> (\<And>r. keeps g (f r)) \<Longrightarrow> keeps g (case v of None \<Rightarrow> u | Some r \<Rightarrow> f r)"
  by (auto split: option.splits)

lemma keeps_ignore [frame_rules]: "keeps g m \<Longrightarrow> keeps g (io_ignore m)"
  by (simp add: keeps_def io_ignore_def)

section \<open>The mode\<close>

definition mode :: "manager \<Rightarrow> bool" where
  "mode w \<longleftrightarrow> mg_subids w \<noteq> None"

lemma frame_mode [frame_rules]:
  "keeps mode (on_storage g f)" "keeps mode (on_allocator d k)" "keeps mode (on_ledger h)" "keeps mode (on_logged n)"
  "keeps mode (send xs)" "keeps mode (noting i m)" "keeps mode (reserving owner)" "keeps mode ensure_ready"
  "keeps mode (handle m idt created)" "keeps mode (release_resources ln i)"
  by (auto simp: keeps_def mode_def on_storage_def on_allocator_def on_ledger_def on_logged_def send_def noting_def
      reserving_def ensure_ready_def handle_def release_resources_def io_lift_def split: prod.splits option.splits)

lemma keeps_lifecycle [frame_rules]: "keeps mode m \<Longrightarrow> keeps mode (with_lifecycle i m)"
  by (simp add: keeps_def mode_def with_lifecycle_def case_prod_unfold)

lemma mode_identity [frame_rules]:
  "keeps mode (reserve_identity E token q i owner)" "keeps mode (release_reserved_identity E r)" "keeps mode (identity_for E q m)"
  unfolding reserve_identity_def release_reserved_identity_def identity_for_def by (rule frame_mode)+

lemma mode_activate [frame_rules]: "keeps mode (activate_reserved E v)"
  unfolding activate_reserved_def
  by (cases v; simp only: option.case; intro frame_rules)

lemma mode_failed [frame_rules]: "keeps mode (creation_failed E v owner e)"
  unfolding creation_failed_def by (rule frame_rules)+

lemma mode_delete_lease [frame_rules]: "keeps mode (delete_lease E i)"
  unfolding delete_lease_def by (intro frame_rules)

lemma claim_keeps_mode: "keeps mode (claim E token q q' p i)"
  unfolding claim_def
proof (intro frame_rules)
  show "keeps mode (claim_entry E token q q' p i entry)" for entry
    unfolding claim_entry_def claim_absent_def by (cases entry; simp only: entry.case; intro frame_rules)
qed

lemma delete_keeps_mode: "keeps mode (delete E ln graceful forced p i)"
  unfolding delete_def
proof (intro frame_rules)
  have state: "keeps mode a \<Longrightarrow> keeps mode b \<Longrightarrow> keeps mode c \<Longrightarrow> keeps mode d \<Longrightarrow>
      keeps mode (case st of LeaseReserved \<Rightarrow> a | LeaseActive \<Rightarrow> b | LeaseReleasing \<Rightarrow> c | LeaseQuarantined \<Rightarrow> d)"
    for a b c d :: "delete_result mgr_io" and st by (cases st) simp_all
  have "keeps mode (delete_absent E ln p i)"
    unfolding delete_absent_def Let_def by (intro frame_rules state)
  moreover have "keeps mode (delete_present E ln graceful forced i m)" for m
    unfolding delete_present_def mark_deleting_def delete_rest_def cancel_runtime_def Let_def by (intro frame_rules)
  ultimately show "keeps mode (delete_entry E ln graceful forced p i entry)" for entry
    unfolding delete_entry_def Let_def by (cases entry; simp only: entry.case; intro frame_rules)
qed

section \<open>The files of the registry\<close>

lemma frame_files [frame_rules]:
  "keeps mg_fs (on_allocator d k)" "keeps mg_fs (on_ledger h)" "keeps mg_fs (on_logged n)" "keeps mg_fs (send xs)"
  by (auto simp: keeps_def on_allocator_def on_ledger_def on_logged_def send_def split: prod.splits option.splits)

lemma resume_lease_files: "keeps mg_fs (resume_lease E i)"
  unfolding resume_lease_def by (intro frame_rules)

lemma reconcile_leases_files: "keeps mg_fs (reconcile_subid_leases E outcomes)"
  by (auto simp: keeps_def reconcile_subid_leases_def on_allocator_def split: prod.splits option.splits)

end
