(* ===== verification/Calm.thy ===== *)
theory Calm
  imports Storage_Ops
begin

text \<open>
  Runs without failures: when no outcome is scheduled and no fault is armed, every call does what
  the tree decides. In such a run the removal of a sandbox succeeds exactly when no directory of
  its workspace has an entry with the metadata file's name.
\<close>

section \<open>Calls of a calm system\<close>

definition calm :: "fsys \<Rightarrow> bool" where
  "calm s \<longleftrightarrow> fs_outcomes s = [] \<and> (fs_faults s = None \<or> fs_faults s = Some None)"

lemma calm_update [simp]: "calm (s\<lparr>fs_root := r\<rparr>) = calm s" "calm (modify_dir d f s) = calm s"
    "calm (s\<lparr>fs_counter := c\<rparr>) = calm s"
  by (simp_all add: calm_def modify_dir_def)

lemma syscall_calm: "calm s \<Longrightarrow> syscall m s = m s"
  by (simp add: calm_def syscall_def)

lemma uninterrupted_calm: "calm s \<Longrightarrow> uninterrupted s = s"
  by (simp add: calm_def uninterrupted_def)

lemma trip_calm: "calm s \<Longrightarrow> trip p s = (Inr (), s)"
  by (auto simp: calm_def trip_def)

lemma sync_calm: "calm s \<Longrightarrow> sync_file s = (Inr (), s)" "calm s \<Longrightarrow> sync_directory d s = (Inr (), s)"
  by (simp_all add: sync_file_def sync_directory_def syscall_retry_def uninterrupted_calm syscall_calm io_ok_def)

text \<open>A name the calls accept.\<close>

definition nul_free :: "string \<Rightarrow> bool" where
  "nul_free n \<longleftrightarrow> CHR 0x00 \<notin> set n"

lemma c_name_nul_free: "nul_free n \<Longrightarrow> io_bind (c_name n) f s = f n s"
  by (simp add: nul_free_def c_name_def io_simps)

lemma stat_at_calm:
  "calm s \<Longrightarrow> nul_free n \<Longrightarrow> lookup (fs_root s) (d @ [n]) = Some m \<Longrightarrow> stat_at d n s = (Inr (stat_of m), s)"
  by (simp add: stat_at_def c_name_nul_free fstat_def syscall_calm node_in_def)

lemma fstat_calm: "calm s \<Longrightarrow> lookup (fs_root s) p = Some m \<Longrightarrow> fstat p s = (Inr (stat_of m), s)"
  by (simp add: fstat_def syscall_calm node_in_def)

lemma open_directory_calm:
  assumes "calm s" and "lookup (fs_root s) p = Some (Directory a cs)"
  shows "io_bind (open_nofollow p) directory_or_enotdir s = (Inr p, s)"
  using assms by (simp add: open_nofollow_def directory_or_enotdir_def io_bind_def [of _ directory_or_enotdir]
      syscall_calm node_in_def io_simps fstat_calm [OF assms])

lemma open_directory_at_calm:
  assumes "calm s" and "nul_free n" and "lookup (fs_root s) (d @ [n]) = Some (Directory a cs)"
  shows "open_directory_at d n s = (Inr (d @ [n]), s)"
  using open_directory_calm [OF assms(1,3)] by (simp add: open_directory_at_def c_name_nul_free [OF assms(2)])

lemma open_directory_path_calm:
  assumes "calm s" and "nul_free path" and "fs_root s = Some (Directory a cs)"
  shows "open_directory_path path s = (Inr [], s)"
  using open_directory_calm [OF assms(1), of "[]"] assms
  by (simp add: open_directory_path_def path_cstring_def nul_free_def io_bind_def [of "io_ok _"] io_ok_def)

lemma unlink_at_calm:
  assumes "calm s" and "nul_free n" and "lookup (fs_root s) d = Some (Directory a cs)"
    and "map_of cs n = Some m" and "unlinkable rd m"
  shows "unlink_at d n rd s = (Inr (), modify_dir d (dir_del n) s)"
proof -
  have "children s d = Some cs" using assms(3) by (simp add: children_Some)
  with assms show ?thesis
    by (cases m) (auto simp: unlink_at_def c_name_nul_free syscall_calm split: list.splits)
qed

lemma read_names_calm:
  assumes "calm s" and "lookup (fs_root s) d = Some (Directory a cs)" and "wf_dirents cs"
  shows "read_names d s = (Inr (map fst cs), s)"
proof -
  have "children s d = Some cs" using assms(2) by (simp add: children_Some)
  moreover have "filter (\<lambda>n. n \<noteq> ''.'' \<and> n \<noteq> ''..'') (map fst cs) = map fst cs"
    using assms(3) by (auto simp: filter_id_conv wf_dirents_def list_all_iff)
  ultimately show ?thesis using assms(1) by (simp add: read_names_def syscall_calm)
qed

section \<open>A removal that succeeds\<close>

text \<open>Every name below a node is free of NUL bytes.\<close>

fun nul_free_node :: "node \<Rightarrow> bool" where
  "nul_free_node (Directory a cs) \<longleftrightarrow> list_all (\<lambda>(k, n). nul_free k \<and> nul_free_node n) cs"
| "nul_free_node _ = True"

lemma remove_child_calm:
  assumes s: "calm s" and d: "lookup (fs_root s) d = Some (Directory a cs)" and n: "map_of cs n = Some m"
    and nf: "nul_free n" and nM: "n \<noteq> METADATA_NAME"
    and descend: "\<And>b ds. m = Directory b ds \<Longrightarrow>
      descend (d @ [n]) s = (Inr (), modify_dir (d @ [n]) (f ds) s) \<and> f ds ds = []"
  shows "remove_child descend d n s = (Inr (), modify_dir d (dir_del n) s)"
proof -
  have c: "lookup (fs_root s) (d @ [n]) = Some m" using lookup_child [OF d] n by simp
  note st = stat_at_calm [OF s nf c] and tr = trip_calm [of _ DeleteEntry]
  show ?thesis
  proof (cases "\<exists>b ds. m = Directory b ds")
    case False
    then have "unlinkable False m" by (cases m) auto
    with False show ?thesis
      using unlink_at_calm [OF s nf d n] by (simp add: remove_child_def nM io_simps st tr [OF s])
  next
    case True
    then obtain b ds where m: "m = Directory b ds" by blast
    let ?t = "modify_dir (d @ [n]) (f ds) s"
    have t: "fs_root ?t = updated d (in_child n (f ds)) (fs_root s)" by (simp add: updated_child)
    have dt: "lookup (fs_root ?t) d = Some (Directory a (in_child n (f ds) cs))"
      unfolding t by (rule lookup_updated [OF d])
    have un: "unlink_at d n True ?t = (Inr (), modify_dir d (dir_del n) ?t)"
      by (rule unlink_at_calm [OF _ nf dt, where m = "Directory b []"]) (use descend [OF m] in \<open>simp_all add: s map_of_in_child n m\<close>)
    have "modify_dir d (dir_del n) ?t = modify_dir d (dir_del n) s"
      by (simp add: modify_dir_def updated_child option.map_comp comp_def update_dir_compose dir_del_in_child)
    with un show ?thesis
      using c by (simp add: remove_child_def nM io_simps st tr s m open_directory_at_calm [OF s nf] descend)
  qed
qed

lemma keep_dir_del: "n \<noteq> METADATA_NAME \<Longrightarrow> keep D (dir_del n cs) = keep (insert n D) cs"
  by (auto simp: keep_def dir_del_def intro!: filter_cong)

lemma modify_dir_compose: "modify_dir d g (modify_dir d f s) = modify_dir d (\<lambda>cs. g (f cs)) s"
  by (simp add: modify_dir_def option.map_comp comp_def update_dir_compose)

lemma modify_dir_id: "modify_dir d (\<lambda>cs. cs) s = s"
  using updated_id [of d "fs_root s"] by (simp add: modify_dir_def)

lemma remove_names_calm:
  assumes descend: "\<And>s n b ds. calm s \<Longrightarrow> lookup (fs_root s) (d @ [n]) = Some (Directory b ds) \<Longrightarrow>
      (n, Directory b ds) \<in> X \<Longrightarrow> n \<noteq> METADATA_NAME \<Longrightarrow>
      descend (d @ [n]) s = (Inr (), modify_dir (d @ [n]) (f ds) s) \<and> f ds ds = []"
  shows "calm s \<Longrightarrow> lookup (fs_root s) d = Some (Directory a cs) \<Longrightarrow> distinct ns \<Longrightarrow>
    list_all (\<lambda>n. nul_free n \<and> (\<exists>m. map_of cs n = Some m \<and> (n, m) \<in> X)) ns \<Longrightarrow>
    io_for ns (remove_child descend d) s = (Inr (), modify_dir d (keep (set ns)) s)"
proof (induction ns arbitrary: s cs)
  case Nil
  show ?case by (simp add: io_ok_def keep_nothing [abs_def] modify_dir_id)
next
  case (Cons n ns)
  then obtain m where n: "nul_free n" "map_of cs n = Some m" "(n, m) \<in> X" by auto
  show ?case
  proof (cases "n = METADATA_NAME")
    case True
    have "io_for ns (remove_child descend d) s = (Inr (), modify_dir d (keep (set ns)) s)"
      by (rule Cons.IH) (use Cons.prems in auto)
    moreover have "remove_child descend d n s = (Inr (), s)" by (simp add: True remove_child_def io_ok_def)
    ultimately show ?thesis by (simp add: io_then_def io_bind_def True keep_metadata)
  next
    case False
    have c: "lookup (fs_root s) (d @ [n]) = Some m" using lookup_child [OF Cons.prems(2)] n by simp
    have step: "remove_child descend d n s = (Inr (), modify_dir d (dir_del n) s)"
      by (rule remove_child_calm [OF Cons.prems(1,2) n(2,1) False]) (use descend Cons.prems(1) c n False in auto)
    let ?s = "modify_dir d (dir_del n) s"
    have rest: "io_for ns (remove_child descend d) ?s = (Inr (), modify_dir d (keep (set ns)) ?s)"
      by (rule Cons.IH [where cs = "dir_del n cs"])
        (use Cons.prems lookup_updated [OF Cons.prems(2)] in \<open>auto simp: list_all_iff\<close>)
    show ?thesis
      by (simp add: io_then_def io_bind_def step rest modify_dir_compose keep_dir_del [OF False])
  qed
qed

lemma remove_children_calm:
  "calm s \<Longrightarrow> lookup (fs_root s) d = Some (Directory a cs) \<Longrightarrow> wf_dirents cs \<Longrightarrow>
    nul_free_node (Directory a cs) \<Longrightarrow> tidy_below cs \<Longrightarrow> height (Directory a cs) \<le> fuel \<Longrightarrow>
    remove_children fuel d s = (Inr (), modify_dir d (keep (fst ` set cs)) s)"
proof (induction fuel arbitrary: s d a cs)
  case 0
  then show ?case by simp
next
  case (Suc fuel)
  note s = Suc.prems(1) and d = Suc.prems(2) and wf = Suc.prems(3)
  have loop: "io_for (map fst cs) (remove_child (remove_children fuel) d) s =
      (Inr (), modify_dir d (keep (set (map fst cs))) s)"
  proof (rule remove_names_calm [where X = "set cs" and f = "\<lambda>ds. keep (fst ` set ds)" and cs = cs and a = a])
    fix t n b ds assume t: "calm t" "lookup (fs_root t) (d @ [n]) = Some (Directory b ds)"
      "(n, Directory b ds) \<in> set cs" "n \<noteq> METADATA_NAME"
    have m: "map_of cs n = Some (Directory b ds)" using t(3) wf by (simp add: wf_dirents_def)
    have w: "wf_node (Directory b ds)" using wf_dirents_member [OF wf m] by blast
    have td: "tidy (Directory b ds)" using Suc.prems(5) t(3,4) unfolding tidy_below_def list_all_iff by blast
    have "remove_children fuel (d @ [n]) t = (Inr (), modify_dir (d @ [n]) (keep (fst ` set ds)) t)"
    proof (rule Suc.IH [OF t(1,2)])
      show "wf_dirents ds" using w by (simp only: wf_node_Directory)
      show "nul_free_node (Directory b ds)"
        using Suc.prems(4) t(3) unfolding nul_free_node.simps(1) [of a cs] list_all_iff by blast
      show "tidy_below ds" using td by (auto simp: tidy_below_def list_all_iff)
      show "height (Directory b ds) \<le> fuel" using height_child [OF m, of a] Suc.prems(6) by linarith
    qed
    moreover have "keep (fst ` set ds) ds = []" using td by (force simp: keep_def filter_empty_conv list_all_iff)
    ultimately show "remove_children fuel (d @ [n]) t = (Inr (), modify_dir (d @ [n]) (keep (fst ` set ds)) t)
        \<and> keep (fst ` set ds) ds = []" by blast
  qed (use s d wf Suc.prems(4) in \<open>auto simp: wf_dirents_def list_all_iff\<close>)
  show ?case
    unfolding remove_children.simps io_bind_def io_map_err_def read_names_calm [OF s d wf]
    using loop by (simp add: map_err_def)
qed

lemma id_nul_free: "valid_id i \<Longrightarrow> nul_free (id_as_str i)"
  unfolding valid_id_def nul_free_def
proof
  assume "id_grammar (id_as_str i)" "CHR 0x00 \<in> set (id_as_str i)"
  from grammar_bytes [OF this] show False
    by (simp add: is_ascii_alphanumeric_def is_ascii_digit_def is_ascii_alphabetic_def)
qed

text \<open>
  In a calm system a removal succeeds when no directory below the sandbox directory has an entry
  named like the metadata file, and that file itself is there to be unlinked.
\<close>

lemma remove_tree_calm:
  assumes s: "calm s" and root: "fs_root s = Some (Directory b rs)" and st: "nul_free (sg_root st)" and i: "valid_id i"
    and d: "map_of rs (id_as_str i) = Some (Directory a cs)" and wf: "wf_tree (fs_root s)"
    and nf: "nul_free_node (Directory a cs)" and t: "tidy_below cs"
    and m: "map_of cs METADATA_NAME = Some m" "unlinkable False m"
  shows "fst (remove_tree st i s) = Inr ()"
proof -
  let ?n = "id_as_str i" and ?f = "keep (fst ` set cs)"
  have n: "nul_free ?n" by (rule id_nul_free [OF i])
  have l: "lookup (fs_root s) [?n] = Some (Directory a cs)" using d by (simp add: root lookup_Cons)
  have wd: "wf_dirents cs" using wf_tree_lookup [OF wf l] by (simp only: wf_node_Directory)
  have r: "storage_open_root st s = (Inr [], s)"
    by (simp add: storage_open_root_def io_map_err_def map_err_def open_directory_path_calm [OF s st root])
  have o: "open_directory_at [] ?n s = (Inr [?n], s)"
    using open_directory_at_calm [OF s n, of "[]"] l by simp
  let ?s1 = "modify_dir [?n] ?f s"
  have ch: "remove_all_children [?n] s = (Inr (), ?s1)"
    unfolding remove_all_children_def io_map_err_def
    using remove_children_calm [OF s l wd nf t height_in_enough [OF l]] by (simp add: map_err_def)
  have l1: "lookup (fs_root ?s1) [?n] = Some (Directory a (?f cs))" using lookup_updated [OF l] by simp
  let ?s2 = "modify_dir [?n] (dir_del METADATA_NAME) ?s1"
  have u1: "unlink_at [?n] METADATA_NAME False ?s1 = (Inr (), ?s2)"
    by (rule unlink_at_calm [OF _ _ l1]) (use s m in \<open>simp_all add: nul_free_def METADATA_NAME_def map_of_keep\<close>)
  have e: "dir_del METADATA_NAME (?f cs) = []" by (force simp: dir_del_def keep_def filter_empty_conv)
  obtain b' rs' where r2: "fs_root ?s2 = Some (Directory b' rs')"
    using updated_root [OF updated_root [OF root, THEN exE]] root by (auto simp: map_option_case)
  have l2: "lookup (fs_root ?s2) [?n] = Some (Directory a [])"
    using lookup_updated [OF l1, of "dir_del METADATA_NAME"] e by simp
  have u2: "unlink_at [] ?n True ?s2 = (Inr (), modify_dir [] (dir_del ?n) ?s2)"
    by (rule unlink_at_calm [OF _ n, where m = "Directory a []"]) (use s r2 l2 in \<open>auto simp: lookup_Cons\<close>)
  show ?thesis
    by (simp add: remove_tree_def io_simps r o ch u1 u2 trip_calm sync_calm s storage_sync_directory_def)
qed

end
