(* ===== verification/Example_Env.thy ===== *)
theory Example_Env
  imports Subid_Rules
begin

text \<open>
  A concrete environment in which the hypotheses on the TOML crate hold: a reader of documents
  with one \<open>key = value\<close> line each, where a value is a quoted string without escapes or an
  unsigned integer. It shows that what the development assumes of the crate can be met.
\<close>

fun split_nl :: "string \<Rightarrow> string \<Rightarrow> string list" where
  "split_nl cur [] = (if cur = [] then [] else [cur])"
| "split_nl cur (c # cs) =
     (if c = CHR 0x0A then cur # split_nl [] cs else split_nl (cur @ [c]) cs)"

definition example_value :: "string \<Rightarrow> toml_value" where
  "example_value v =
     (if v \<noteq> [] \<and> hd v = CHR 0x22 \<and> last v = CHR 0x22 then TomlString (butlast (tl v))
      else case parse_unsigned max_u64 v of Some n \<Rightarrow> TomlInteger (int n) | None \<Rightarrow> TomlOther)"

definition example_line :: "string \<Rightarrow> (string \<times> toml_value) option" where
  "example_line l =
     (case split_once (CHR '' '') l of
        None \<Rightarrow> None
      | Some (k, rest) \<Rightarrow> map_option (\<lambda>v. (k, example_value v)) (strip_prefix rest ''= ''))"

definition example_toml :: "string \<Rightarrow> (string, toml_table) result" where
  "example_toml text =
     (let ls = map example_line (split_nl [] text) in
      if None \<in> set ls then Inl ''not a key and a value'' else Inr (map the ls))"

definition example_env :: env where
  "example_env =
     \<lparr>env_euid = 1000, env_egid = 1000, env_pid = 42, toml_table_of = example_toml,
      serde_error_of = (\<lambda>_. ''wrong type''), unicode_printable = (\<lambda>_. False),
      os_error_text = (\<lambda>_. ''I/O error'')\<rparr>"

lemma example_env_simps [simp]:
  "env_euid example_env = 1000" "env_egid example_env = 1000" "env_pid example_env = 42"
  "toml_table_of example_env = example_toml"
  by (simp_all add: example_env_def)

lemma split_nl_line:
  "CHR 0x0A \<notin> set l \<Longrightarrow> split_nl cur (l @ CHR 0x0A # rest) = (cur @ l) # split_nl [] rest"
  by (induction l arbitrary: cur) auto

lemma split_once_key: "CHR '' '' \<notin> set k \<Longrightarrow> split_once (CHR '' '') (k @ CHR '' '' # v) = Some (k, v)"
  by (induction k) auto

lemma example_line_key:
  "CHR '' '' \<notin> set k \<Longrightarrow> example_line (k @ '' = '' @ v) = Some (k, example_value v)"
  by (simp add: example_line_def split_once_key strip_prefix_def)

lemma example_value_string: "example_value (CHR 0x22 # s @ [CHR 0x22]) = TomlString s"
  by (simp add: example_value_def)

lemma hd_display: "hd (display_nat n) \<noteq> CHR 0x22"
proof -
  obtain d t where d: "d < 10" "display_radix 10 n = digit_char d # t" using hd_display_radix by blast
  have "digit_char d \<noteq> CHR 0x22"
  proof
    assume "digit_char d = CHR 0x22"
    with digit_value_digit_char [OF d(1)] show False by (simp add: digit_value_def is_ascii_digit_def)
  qed
  with d show ?thesis by (simp add: display_nat_def)
qed

lemma example_value_nat: "n \<le> max_u64 \<Longrightarrow> example_value (display_nat n) = TomlInteger (int n)"
  using hd_display [of n] by (simp add: example_value_def parse_display_nat)

lemma digits_no_newline: "CHR 0x0A \<notin> set (display_nat n)"
proof -
  have "c \<in> set (display_radix 10 n) \<Longrightarrow> byte c \<noteq> 10" for c
  proof (induction "10::nat" n rule: display_radix.induct)
    case (1 n)
    have "d < 10 \<Longrightarrow> byte (digit_char d) \<noteq> 10" for d by (simp add: digit_char_def)
    with 1 show ?case by (cases "n < 10") (auto simp: display_radix.simps [of 10 n])
  qed
  then show ?thesis by (force simp: display_nat_def)
qed

lemma plain_no_newline: "plain_ascii s \<Longrightarrow> CHR 0x0A \<notin> set s"
  by (auto simp: plain_ascii_def list_all_iff)

text \<open>A document made of lines \<open>key = value\<close> is read as the list of its keys and values.\<close>

fun document :: "(string \<times> string) list \<Rightarrow> string" where
  "document [] = []"
| "document ((k, v) # kvs) = k @ '' = '' @ v @ [CHR 0x0A] @ document kvs"

lemma example_toml_document:
  assumes "\<forall>(k, v) \<in> set kvs. CHR '' '' \<notin> set k \<and> CHR 0x0A \<notin> set k \<and> CHR 0x0A \<notin> set v"
  shows "example_toml (document kvs) = Inr (map (\<lambda>(k, v). (k, example_value v)) kvs)"
proof -
  have "map example_line (split_nl [] (document kvs)) = map (\<lambda>(k, v). Some (k, example_value v)) kvs"
    using assms
  proof (induction kvs)
    case Nil
    then show ?case by simp
  next
    case (Cons p kvs)
    obtain k v where p: "p = (k, v)" by (cases p)
    have "split_nl [] (document (p # kvs)) = (k @ '' = '' @ v) # split_nl [] (document kvs)"
      using split_nl_line [of "k @ '' = '' @ v" "[]" "document kvs"] Cons.prems by (simp add: p)
    with Cons show ?case using example_line_key [of k v] by (simp add: p)
  qed
  then show ?thesis by (auto simp: example_toml_def Let_def comp_def case_prod_beta)
qed

lemma example_value_one [simp]: "example_value ''1'' = TomlInteger 1"
proof -
  have "display_nat 1 = ''1''" by code_simp
  with example_value_nat [of 1] show ?thesis by (simp add: max_u64_def)
qed

lemma unat_u32_le_u64: "unat (w::u32) \<le> max_u64"
  using unat_u32 [of w] by (simp add: max_u64_def)

lemma example_reads_lease:
  assumes v: "valid_lease r" and q: "short_reason r"
  shows "toml_reads_lease example_env r"
proof -
  let ?q = "\<lambda>s. CHR 0x22 # s @ [CHR 0x22]"
  let ?kvs = "[(''version'', ''1''), (''lease_id'', ?q (lr_lease_id r)),
    (''sandbox_id'', ?q (id_as_str (lr_sandbox_id r))), (''owner'', ?q (fp_as_str (lr_owner r))),
    (''uid'', display_nat (unat (lr_uid r))), (''gid'', display_nat (unat (lr_gid r))),
    (''state'', ?q (lease_state_as_str (lr_state r)))]
    @ (case lr_quarantine_reason r of None \<Rightarrow> [] | Some q \<Rightarrow> [(''quarantine_reason'', ?q q)])"
  have p: "plain_ascii (lr_lease_id r)" "plain_ascii (id_as_str (lr_sandbox_id r))" "plain_ascii (fp_as_str (lr_owner r))"
    using v by (auto simp: valid_lease_def valid_id_def grammar_plain fingerprint_plain lease_id_plain)
  have one: "display_nat LEASE_VERSION = ''1''" by code_simp
  have doc: "lease_encode example_env r = document ?kvs"
    using p q by (auto simp: lease_encode_def short_reason_def debug_str_plain lease_state_plain newline_def one
        split: option.splits)
  have "example_toml (document ?kvs) = Inr (map (\<lambda>(k, v). (k, example_value v)) ?kvs)"
    using p q by (intro example_toml_document)
      (auto simp: digits_no_newline plain_no_newline lease_state_plain short_reason_def split: option.splits)
  then show ?thesis
    unfolding toml_reads_lease_def example_env_simps doc
    by (simp add: lease_table_def example_value_string example_value_nat unat_u32_le_u64 split: option.splits)
qed

lemma example_reads_plain: "toml_reads_plain example_env"
  by (simp add: toml_reads_plain_def example_reads_lease short_reason_def)

lemma example_reason_readable:
  assumes "plain_ascii reason" and "length reason \<le> 1000"
  shows "reason_readable example_env reason"
  unfolding reason_readable_def
proof (intro allI impI)
  fix r assume "valid_lease r"
  then have "valid_lease (with_quarantine_reason r reason)" "short_reason (with_quarantine_reason r reason)"
    using assms by (simp_all add: valid_lease_def short_reason_def with_quarantine_reason_def lease_with_state_def)
  then show "record_readable example_env (with_quarantine_reason r reason)"
    by (intro short_lease_readable example_reads_lease)
qed

lemma example_reads_metadata:
  assumes v: "valid_metadata m"
  shows "toml_reads_metadata example_env m"
proof -
  let ?q = "\<lambda>s. CHR 0x22 # s @ [CHR 0x22]"
  let ?kvs = "[(''version'', ''1''), (''id'', ?q (id_as_str (md_id m))),
    (''owner'', ?q (fp_as_str (md_owner m))), (''state'', ?q (state_as_str (md_state m)))]"
  have p: "plain_ascii (id_as_str (md_id m))" "plain_ascii (fp_as_str (md_owner m))"
    using v by (auto simp: valid_metadata_def valid_id_def grammar_plain fingerprint_plain)
  have doc: "metadata_encode example_env m = document ?kvs"
    using v by (simp add: metadata_encode_plain newline_def)
  have "example_toml (document ?kvs) = Inr (map (\<lambda>(k, v). (k, example_value v)) ?kvs)"
    using p by (intro example_toml_document) (auto simp: plain_no_newline state_plain)
  then show ?thesis
    by (simp add: toml_reads_metadata_def doc metadata_table_def example_value_string)
qed

end
