(* ===== verification/Subid_Properties.thy ===== *)
theory Subid_Properties
  imports Example_Env
begin

text \<open>
  The properties of the subordinate-ID allocator and its ledger, each with an instance on a
  concrete environment: an empty ledger directory owned by the daemon, any schedule of failures.
\<close>

definition example_fs :: fsys where
  "example_fs = \<lparr>fs_root = Some (Directory \<lparr>fa_uid = 1000, fa_perm = 0x1C0\<rparr> []), fs_outcomes = [],
     fs_faults = None, fs_counter = 0\<rparr>"

definition example_allocator :: allocator where
  "example_allocator = allocator_new \<lparr>ls_root = ''/ledger''\<rparr> example_fs"

definition example_delegation :: delegation where
  "example_delegation = \<lparr>uid_ranges = [\<lparr>sr_start = 100000, sr_count = 65536\<rparr>],
     gid_ranges = [\<lparr>sr_start = 100000, sr_count = 65536\<rparr>]\<rparr>"

definition example_owner :: key_fingerprint where
  "example_owner = KeyFingerprint (''SHA256:'' @ base64_encode (replicate 32 0))"

definition example_lease :: lease_record where
  "example_lease = \<lparr>lr_lease_id = new_lease_id 7, lr_sandbox_id = SandboxId ''demo'', lr_owner = example_owner,
     lr_uid = 100000, lr_gid = 100000, lr_state = LeaseActive, lr_quarantine_reason = None\<rparr>"

lemma example_ledger: "ledger_at example_env Map.empty example_fs"
  unfolding ledger_at_def
  by (rule exI [of _ "\<lparr>fa_uid = 1000, fa_perm = 0x1C0\<rparr>"], rule exI [of _ Map.empty])
    (auto simp: example_fs_def shows_dir_def represents_def visible_def group_world_writable_def mode_bits_def)

lemma example_at: "at_ledger example_env Map.empty example_allocator"
  by (simp add: example_allocator_def allocator_new_def example_ledger)

lemma example_delegation_valid: "valid_delegation example_delegation"
  by (simp add: valid_delegation_def example_delegation_def valid_range_def)

lemma example_id_valid: "valid_id (SandboxId ''demo'')"
  by (simp add: valid_id_def id_grammar_def is_ascii_alphanumeric_def is_ascii_alphabetic_def)

lemma example_owner_valid: "valid_fingerprint example_owner"
  by (auto simp: valid_fingerprint_iff example_owner_def intro!: exI [of _ "replicate 32 0"])

lemma example_lease_valid: "valid_lease example_lease"
  by (simp add: valid_lease_def example_lease_def new_lease_id_valid example_id_valid example_owner_valid)

section \<open>Claims\<close>



text \<open>
  Selection is exact: it yields a pair exactly when it is the least free UID and the least
  free GID, and it reports exhaustion exactly when one of the two sets is empty.
\<close>

theorem selection_exact:
  assumes "valid_delegation d" and "listing L rs"
  shows "(select_ids E d rs = Inr (u, g) \<longleftrightarrow> least_of u (free_uids E d L) \<and> least_of g (free_gids E d L))
    \<and> ((\<exists>e. select_ids E d rs = Inl e) \<longleftrightarrow> free_uids E d L = {} \<or> free_gids E d L = {})"
  using select_ids_spec [OF assms] by auto

theorem selection_exact_witness:
  "(select_ids example_env example_delegation [] = Inr (100000, 100000) \<longleftrightarrow>
      least_of 100000 (free_uids example_env example_delegation Map.empty)
      \<and> least_of 100000 (free_gids example_env example_delegation Map.empty))
    \<and> ((\<exists>e. select_ids example_env example_delegation [] = Inl e) \<longleftrightarrow>
      free_uids example_env example_delegation Map.empty = {} \<or> free_gids example_env example_delegation Map.empty = {})"
  by (rule selection_exact [OF example_delegation_valid]) (simp add: listing_def)

section \<open>Runs\<close>


lemma example_load_step: "alloc_step example_env example_allocator (snd (alloc_load example_env example_allocator))"
  by (rule alloc_step.load [of _ _ "fst (alloc_load example_env example_allocator)"]) simp


lemma run_ledger:
  assumes t: "toml_reads_plain E" and "(alloc_step E)\<^sup>*\<^sup>* a b" and "at_ledger E L a"
  shows "\<exists>L'. (ledger_step E)\<^sup>*\<^sup>* L L' \<and> at_ledger E L' b"
  using assms(2)
proof (induction rule: rtranclp_induct)
  case base
  with assms(3) show ?case by blast
next
  case (step y z)
  then obtain M where M: "(ledger_step E)\<^sup>*\<^sup>* L M" "at_ledger E M y" by blast
  from alloc_step_moved [OF t step(2) M(2)] obtain N where "N = M \<or> ledger_step E M N" "at_ledger E N z"
    by (auto simp: moved_by_def)
  with M show ?case by (auto intro: rtranclp.rtrancl_into_rtrancl)
qed

text \<open>
  C3. No run of the allocator, however its calls fail, ever leases a UID, a GID or a sandbox
  twice: from an unambiguous ledger only unambiguous ledgers are reached.
\<close>

theorem allocator_never_shares_ids:
  assumes "toml_reads_plain E" and "(alloc_step E)\<^sup>*\<^sup>* a b" and "at_ledger E L a" and "unique_ids L"
  shows "\<exists>L'. at_ledger E L' b \<and> unique_ids L'"
proof -
  from run_ledger [OF assms(1-3)] obtain L' where L': "(ledger_step E)\<^sup>*\<^sup>* L L'" "at_ledger E L' b" by blast
  from L'(1) assms(4) have "unique_ids L'" by (induction rule: rtranclp_induct) (auto intro: ledger_step_unique)
  with L' show ?thesis by blast
qed

theorem allocator_never_shares_ids_witness:
  "\<exists>L'. at_ledger example_env L' (snd (alloc_load example_env example_allocator)) \<and> unique_ids L'"
  by (rule allocator_never_shares_ids [OF example_reads_plain r_into_rtranclp [of "alloc_step example_env"],
        OF example_load_step example_at]) (simp add: unique_ids_def)


definition example_quarantined :: ledger where
  "example_quarantined = [new_lease_id 7 \<mapsto> with_quarantine_reason example_lease ''a'']"

lemma example_requarantine:
  "ledger_step example_env example_quarantined
     (example_quarantined(new_lease_id 7 \<mapsto> with_quarantine_reason (with_quarantine_reason example_lease ''a'') ''b''))"
  by (rule ledger_step.quarantine) (simp add: example_quarantined_def)


section \<open>Release\<close>

text \<open>
  C9. A finished release freed exactly the expected incarnation: its record was in the ledger
  under that lease ID, with the expected sandbox, owner, UID and GID, in the releasing state, and
  it alone is gone. A failed one leaves the ledger as it was or with that record removed after
  the same checks.
\<close>

theorem finish_release_frees_expected:
  assumes "at_ledger E L a" and "finish_release E x a = (res, b)"
  shows "case res of
      Inr _ \<Rightarrow> (\<exists>r. L (lr_lease_id x) = Some r \<and> same_incarnation r x \<and> lr_state r = LeaseReleasing)
        \<and> at_ledger E (L(lr_lease_id x := None)) b
    | Inl _ \<Rightarrow> \<exists>L'. (L' = L \<or> ledger_step E L L') \<and> at_ledger E L' b"
proof -
  note rule = remove_expected_rule [of "''releasing''" E L x, simplified]
  have f: "remove_expected E x ''releasing'' a = (res, b)" using assms(2) by (simp add: finish_release_def)
  show ?thesis
  proof (cases res)
    case (Inl e)
    with io_valid_err [OF rule assms(1)] f show ?thesis by (simp add: moved_by_def)
  next
    case (Inr v)
    with io_valid_ok [OF rule assms(1)] f show ?thesis by auto
  qed
qed

theorem finish_release_frees_expected_witness:
  "case fst (finish_release example_env example_lease example_allocator) of
      Inr _ \<Rightarrow> (\<exists>r. Map.empty (lr_lease_id example_lease) = Some r \<and> same_incarnation r example_lease
          \<and> lr_state r = LeaseReleasing)
        \<and> at_ledger example_env (Map.empty(lr_lease_id example_lease := None))
            (snd (finish_release example_env example_lease example_allocator))
    | Inl _ \<Rightarrow> \<exists>L'. (L' = Map.empty \<or> ledger_step example_env Map.empty L')
        \<and> at_ledger example_env L' (snd (finish_release example_env example_lease example_allocator))"
  by (rule finish_release_frees_expected [OF example_at]) simp

text \<open>
  C10. A stale release cannot touch a newer lease: when no record has the expected lease ID, or
  the record there is not the expected incarnation, finishing the release fails and the ledger is
  as it was.
\<close>

theorem stale_release_changes_nothing:
  assumes "at_ledger E L a" and "finish_release E x a = (res, b)"
    and "\<forall>r. L (lr_lease_id x) = Some r \<longrightarrow> \<not> same_incarnation r x"
  shows "(\<exists>e. res = Inl e) \<and> at_ledger E L b"
proof -
  have rule: "io_valid (at_ledger E L) (remove_expected E x ''releasing'') (\<lambda>_ _. False) (\<lambda>_. at_ledger E L)"
    by (rule remove_expected_stale) (rule assms(3))
  have f: "remove_expected E x ''releasing'' a = (res, b)" using assms(2) by (simp add: finish_release_def)
  show ?thesis
  proof (cases res)
    case (Inl e)
    with io_valid_err [OF rule assms(1)] f show ?thesis by simp
  next
    case (Inr v)
    with io_valid_ok [OF rule assms(1)] f show ?thesis by simp
  qed
qed

theorem stale_release_changes_nothing_witness:
  "(\<exists>e. fst (finish_release example_env example_lease example_allocator) = Inl e)
     \<and> at_ledger example_env Map.empty (snd (finish_release example_env example_lease example_allocator))"
  by (rule stale_release_changes_nothing [OF example_at]) simp_all

section \<open>The store\<close>

text \<open>
  C8. Writing a record is atomic in the face of any failure: on success the ledger maps the
  lease ID to the record and is otherwise the same; after an error it is the old ledger or that
  new one, never a torn record, whichever of the ten steps failed.
\<close>

theorem store_write_atomic:
  assumes "record_readable E r" and "ledger_at E L s" and "store_write E st r s = (res, t)"
  shows "case res of
      Inr _ \<Rightarrow> ledger_at E (L(lr_lease_id r \<mapsto> r)) t
    | Inl _ \<Rightarrow> ledger_at E L t \<or> ledger_at E (L(lr_lease_id r \<mapsto> r)) t"
proof (cases res)
  case (Inl e)
  with io_valid_err [OF store_write_rule [OF assms(1)] assms(2)] assms(3) show ?thesis by simp
next
  case (Inr u)
  with io_valid_ok [OF store_write_rule [OF assms(1)] assms(2)] assms(3) show ?thesis by simp
qed

theorem store_write_atomic_witness:
  "case fst (store_write example_env \<lparr>ls_root = ''/ledger''\<rparr> example_lease example_fs) of
      Inr _ \<Rightarrow> ledger_at example_env [lr_lease_id example_lease \<mapsto> example_lease]
        (snd (store_write example_env \<lparr>ls_root = ''/ledger''\<rparr> example_lease example_fs))
    | Inl _ \<Rightarrow> ledger_at example_env Map.empty
        (snd (store_write example_env \<lparr>ls_root = ''/ledger''\<rparr> example_lease example_fs))
      \<or> ledger_at example_env [lr_lease_id example_lease \<mapsto> example_lease]
        (snd (store_write example_env \<lparr>ls_root = ''/ledger''\<rparr> example_lease example_fs))"
proof (rule store_write_atomic [OF _ example_ledger])
  show "record_readable example_env example_lease"
    by (rule valid_readable [OF example_reads_plain example_lease_valid]) (simp add: example_lease_def)
qed simp

text \<open>
  C28. A scan of the ledger that succeeds returns every lease exactly once, ordered by lease ID;
  it changes nothing, and it can only fail because a system call failed or the directory is unsafe.
\<close>

theorem store_load_complete:
  assumes "ledger_at E L s" and "store_load E st s = (res, t)"
  shows "ledger_at E L t \<and> (case res of Inr rs \<Rightarrow> listing L rs | Inl e \<Rightarrow> environmental e)"
proof (cases res)
  case (Inl e)
  with io_valid_err [OF store_load_rule assms(1)] assms(2) show ?thesis by simp
next
  case (Inr rs)
  with io_valid_ok [OF store_load_rule assms(1)] assms(2) show ?thesis by simp
qed

theorem store_load_complete_witness:
  "ledger_at example_env Map.empty (snd (store_load example_env \<lparr>ls_root = ''/ledger''\<rparr> example_fs))
     \<and> (case fst (store_load example_env \<lparr>ls_root = ''/ledger''\<rparr> example_fs) of
          Inr rs \<Rightarrow> listing Map.empty rs | Inl e \<Rightarrow> environmental e)"
  by (rule store_load_complete [OF example_ledger]) simp



text \<open>
  C39. The store does not bound what it writes by what it reads: a record quarantined with a
  plain reason of 4096 bytes or more encodes to a document the decoder refuses as too large.
\<close>

theorem long_reason_unreadable:
  assumes "plain_ascii reason" and "4096 \<le> length reason"
  shows "\<exists>n. lease_decode E (lease_encode E (with_quarantine_reason r reason)) l = Inl (LeTooLarge n)"
proof -
  have "4096 < length (lease_encode E (with_quarantine_reason r reason))"
    using assms by (simp add: lease_encode_def with_quarantine_reason_def debug_str_plain newline_def)
  then show ?thesis by (auto simp: lease_decode_def MAX_RECORD_BYTES_def)
qed

theorem long_reason_unreadable_witness:
  "\<exists>n. lease_decode example_env
     (lease_encode example_env (with_quarantine_reason example_lease (replicate 4096 (CHR ''x''))))
     (new_lease_id 7) = Inl (LeTooLarge n)"
  by (rule long_reason_unreadable) (simp_all add: plain_ascii_def list_all_iff)

end
