(* ===== verification/Storage_Properties.thy ===== *)
theory Storage_Properties
  imports Calm Subid_Properties
begin

text \<open>
  The contract of the sandbox registry as a locale, its discharge by \<open>Storage\<close>, runs of registry
  operations, and the properties of the registry, each with an instance on a concrete directory.
\<close>

section \<open>The contract\<close>

text \<open>
  What a client of the registry relies on: looking reports the slot, and each change touches the
  slot of one identifier, completely on success and in a bounded way on failure.
\<close>

locale sandbox_registry =
  fixes at_reg :: "registry \<Rightarrow> 's \<Rightarrow> bool"
    and usable :: "sandbox_id \<Rightarrow> bool"
    and storable :: "metadata \<Rightarrow> bool"
    and look :: "sandbox_id \<Rightarrow> ('s, 'e, entry) io"
    and make :: "sandbox_id \<Rightarrow> key_fingerprint \<Rightarrow> ('s, 'e, metadata) io"
    and replace :: "metadata \<Rightarrow> ('s, 'e, unit) io"
    and discard :: "sandbox_id \<Rightarrow> ('s, 'e, unit) io"
  assumes look_law: "usable i \<Longrightarrow> io_valid (at_reg R) (look i)
      (\<lambda>v s. at_reg R s \<and> entry_matches v (R i)) (\<lambda>_. at_reg R)"
    and make_law: "usable i \<Longrightarrow> storable (metadata_active i ow) \<Longrightarrow> io_valid (at_reg R) (make i ow)
      (\<lambda>m s. m = metadata_active i ow \<and> R i = Vacant \<and> at_reg (R(i := Held m)) s)
      (\<lambda>_ s. \<exists>x. at_reg (R(i := x)) s \<and> (x = R i \<or> R i = Vacant \<and> (x = Broken \<or> x = Held (metadata_active i ow))))"
    and replace_law: "usable (md_id m) \<Longrightarrow> storable m \<Longrightarrow> io_valid (at_reg R) (replace m)
      (\<lambda>_ s. may_replace (R (md_id m)) m \<and> at_reg (R(md_id m := Held m)) s)
      (\<lambda>_ s. \<exists>x. at_reg (R(md_id m := x)) s
         \<and> (x = R (md_id m) \<or> may_replace (R (md_id m)) m \<and> (x = Broken \<or> x = Held m)))"
    and discard_law: "usable i \<Longrightarrow> io_valid (at_reg R) (discard i)
      (\<lambda>_. at_reg (R(i := Vacant)))
      (\<lambda>_ s. \<exists>x. at_reg (R(i := x)) s
         \<and> ((\<exists>m. R i = Held m \<and> md_state m = Deleting) \<longrightarrow> x = R i \<or> x = Broken \<or> x = Vacant))"
begin

text \<open>A created sandbox is seen as active.\<close>

lemma make_then_look:
  assumes u: "usable i" and st: "storable (metadata_active i ow)"
  shows "io_valid (at_reg R) (io_bind (make i ow) (\<lambda>m. look i))
    (\<lambda>v s. R i = Vacant \<and> v = EntryActive (metadata_active i ow) \<and> at_reg (R(i := Held (metadata_active i ow))) s)
    (\<lambda>_ s. \<exists>x. at_reg (R(i := x)) s)"
proof (rule io_valid_bind)
  show "io_valid (at_reg R) (make i ow)
      (\<lambda>m s. at_reg (R(i := Held (metadata_active i ow))) s \<and> R i = Vacant) (\<lambda>_ s. \<exists>x. at_reg (R(i := x)) s)"
    by (rule io_valid_conseq [OF make_law [OF u st]]) auto
  show "io_valid (\<lambda>s. at_reg (R(i := Held (metadata_active i ow))) s \<and> R i = Vacant) (look i)
      (\<lambda>v s. R i = Vacant \<and> v = EntryActive (metadata_active i ow) \<and> at_reg (R(i := Held (metadata_active i ow))) s)
      (\<lambda>_ s. \<exists>x. at_reg (R(i := x)) s)" for m
    by (rule io_valid_pure, rule io_valid_conseq [OF look_law [OF u]])
      (auto simp: entry_for_def metadata_active_def)
qed

text \<open>Marking a sandbox as deleting, removing it and looking again finds nothing.\<close>

lemma delete_then_look:
  assumes u: "usable i" and i: "md_id m = i" and st: "storable (metadata_with_state m Deleting)"
  shows "io_valid (at_reg R) (io_then (replace (metadata_with_state m Deleting)) (io_then (discard i) (look i)))
    (\<lambda>v s. v = EntryAbsent \<and> at_reg (R(i := Vacant)) s) (\<lambda>_ s. \<exists>x. at_reg (R(i := x)) s)"
proof -
  let ?m = "metadata_with_state m Deleting" and ?Z = "\<lambda>_ s. \<exists>x. at_reg (R(i := x)) s"
  have id: "md_id ?m = i" using i by (simp add: metadata_with_state_def)
  have w: "io_valid (at_reg R) (replace ?m) (\<lambda>_. at_reg (R(i := Held ?m))) ?Z"
    by (rule io_valid_conseq [OF replace_law]) (use u st id in auto)
  have d: "io_valid (at_reg (R(i := Held ?m))) (discard i) (\<lambda>_. at_reg (R(i := Vacant))) ?Z"
    by (rule io_valid_conseq [OF discard_law [OF u, of "R(i := Held ?m)"]]) auto
  have l: "io_valid (at_reg (R(i := Vacant))) (look i) (\<lambda>v s. v = EntryAbsent \<and> at_reg (R(i := Vacant)) s) ?Z"
    by (rule io_valid_conseq [OF look_law [OF u, of "R(i := Vacant)"]]) auto
  show ?thesis by (rule io_valid_then [OF w io_valid_then [OF d l]])
qed

end

text \<open>The registry on disk keeps that contract.\<close>

interpretation disk: sandbox_registry
  "registry_at E" valid_id "metadata_readable E" "inspect E st" "create_active E st" "write_metadata E st"
  "remove_tree st" for E st
proof (unfold_locales)
  fix i R
  show "valid_id i \<Longrightarrow> io_valid (registry_at E R) (inspect E st i)
      (\<lambda>v s. registry_at E R s \<and> entry_matches v (R i)) (\<lambda>_. registry_at E R)" by (rule inspect_registry)
  have triv: "registry_at E R s \<Longrightarrow> registry_at E (R(i := R i)) s" for s by simp
  show "valid_id i \<Longrightarrow> metadata_readable E (metadata_active i ow) \<Longrightarrow> io_valid (registry_at E R) (create_active E st i ow)
      (\<lambda>m s. m = metadata_active i ow \<and> R i = Vacant \<and> registry_at E (R(i := Held m)) s)
      (\<lambda>_ s. \<exists>x. registry_at E (R(i := x)) s
         \<and> (x = R i \<or> R i = Vacant \<and> (x = Broken \<or> x = Held (metadata_active i ow))))" for ow
    by (rule io_valid_conseq [OF create_active_rule]) (auto intro: exI [of _ "R i"])
  show "valid_id i \<Longrightarrow> io_valid (registry_at E R) (remove_tree st i) (\<lambda>_. registry_at E (R(i := Vacant)))
      (\<lambda>_ s. \<exists>x. registry_at E (R(i := x)) s
         \<and> ((\<exists>m. R i = Held m \<and> md_state m = Deleting) \<longrightarrow> x = R i \<or> x = Broken \<or> x = Vacant))"
    by (rule io_valid_conseq [OF remove_tree_rule]) (auto simp: removal_failed_def)
next
  fix m R
  show "valid_id (md_id m) \<Longrightarrow> metadata_readable E m \<Longrightarrow> io_valid (registry_at E R) (write_metadata E st m)
      (\<lambda>_ s. may_replace (R (md_id m)) m \<and> registry_at E (R(md_id m := Held m)) s)
      (\<lambda>_ s. \<exists>x. registry_at E (R(md_id m := x)) s
         \<and> (x = R (md_id m) \<or> may_replace (R (md_id m)) m \<and> (x = Broken \<or> x = Held m)))"
    by (rule io_valid_conseq [OF write_metadata_rule]) (auto intro: exI [of _ "R (md_id m)"])
qed

section \<open>Runs of registry operations\<close>

text \<open>One call of the registry, with any outcome of its system calls.\<close>

inductive storage_step :: "env \<Rightarrow> storage \<Rightarrow> fsys \<Rightarrow> fsys \<Rightarrow> bool" for E st where
  inspects: "valid_id i \<Longrightarrow> inspect E st i s = (res, t) \<Longrightarrow> storage_step E st s t"
| scans: "scan E st s = (res, t) \<Longrightarrow> storage_step E st s t"
| creates: "valid_id i \<Longrightarrow> metadata_readable E (metadata_active i ow) \<Longrightarrow> create_active E st i ow s = (res, t)
    \<Longrightarrow> storage_step E st s t"
| writes: "valid_id (md_id m) \<Longrightarrow> metadata_readable E m \<Longrightarrow> write_metadata E st m s = (res, t)
    \<Longrightarrow> storage_step E st s t"
| removes: "valid_id i \<Longrightarrow> slot_of E (fs_root s) i = Held m \<Longrightarrow> md_state m = Deleting \<Longrightarrow>
    remove_tree st i s = (res, t) \<Longrightarrow> storage_step E st s t"

text \<open>
  What a call may do to the map: create in a vacant slot, replace a record by one of the same
  owner without undoing a deletion, empty the slot of a deleting record, or, when it fails
  halfway, break the slot it was working on.
\<close>

inductive registry_step :: "registry \<Rightarrow> registry \<Rightarrow> bool" where
  created: "R i = Vacant \<Longrightarrow> registry_step R (R(i := Held (metadata_active i ow)))"
| replaced: "may_replace (R (md_id m)) m \<Longrightarrow> registry_step R (R(md_id m := Held m))"
| removed: "R i = Held m \<Longrightarrow> md_state m = Deleting \<Longrightarrow> registry_step R (R(i := Vacant))"
| damaged: "R i \<noteq> Broken \<Longrightarrow> registry_step R (R(i := Broken))"

lemma ok_or_err:
  assumes "io_valid P m Q Z" and "P s" and "m s = (res, t)"
  shows "case res of Inl e \<Rightarrow> Z e t | Inr x \<Rightarrow> Q x t"
  using assms by (auto simp: io_valid_def split: sum.splits)

lemma damaged_slot: "R i = Vacant \<Longrightarrow> registry_step R (R(i := Broken))" "R i = Held m \<Longrightarrow> registry_step R (R(i := Broken))"
  by (simp_all add: damaged)

lemma registry_upd_same: "x = R i \<Longrightarrow> R(i := x) = R"
  by auto

lemma storage_step_refines:
  assumes "storage_step E st s t" and "registry_at E R s"
  shows "\<exists>R'. registry_at E R' t \<and> (R' = R \<or> registry_step R R')"
  using assms(1)
proof cases
  case (inspects i res)
  from ok_or_err [OF inspect_registry [OF inspects(1)] assms(2) inspects(2)] show ?thesis by (auto split: sum.splits)
next
  case (scans res)
  from ok_or_err [OF scan_rule assms(2) scans] show ?thesis by (auto split: sum.splits)
next
  case (creates i ow res)
  from ok_or_err [OF disk.make_law [OF creates(1,2)] assms(2) creates(3)] show ?thesis
    by (cases res) (auto dest: registry_upd_same intro: created damaged_slot)
next
  case (writes m res)
  have "R (md_id m) \<noteq> Broken" if "may_replace (R (md_id m)) m" using that by (auto simp: may_replace_def)
  with ok_or_err [OF disk.replace_law [OF writes(1,2)] assms(2) writes(3)] show ?thesis
    by (cases res) (auto dest: registry_upd_same intro: replaced damaged)
next
  case (removes i m res)
  have R: "R i = Held m" using assms(2) removes(1,2) by (auto simp: registry_at_def registry_on_def)
  then have same: "R(i := Held m) = R" by auto
  from R removes(3) ok_or_err [OF disk.discard_law [OF removes(1)] assms(2) removes(4)] show ?thesis
    by (cases res) (auto simp: same intro: removed damaged_slot)
qed

text \<open>What a run can turn a held record into, before its slot is next vacant or broken.\<close>

lemma registry_step_held:
  assumes "registry_step R R'" and "R i = Held m"
  shows "R' i = Broken \<or> R' i = Vacant \<and> md_state m = Deleting
    \<or> (\<exists>m'. R' i = Held m' \<and> may_replace (Held m) m')"
  using assms by (induction rule: registry_step.induct) (auto simp: may_replace_def)

section \<open>Claims\<close>


definition example_storage :: storage where
  "example_storage = \<lparr>sg_root = ''/data/sandboxes''\<rparr>"

lemma example_registry: "registry_at example_env (\<lambda>_. Vacant) example_fs"
  by (simp add: registry_at_def registry_on_def example_fs_def wf_tree_def slot_of_def lookup_Cons)

lemma example_scan_step: "storage_step example_env example_storage example_fs (snd (scan example_env example_storage example_fs))"
  by (rule storage_step.scans [of _ _ _ "fst (scan example_env example_storage example_fs)"]) simp



text \<open>A registry that holds one sandbox, with a file in its workspace.\<close>

definition example_sandbox :: "metadata \<Rightarrow> dirents \<Rightarrow> node" where
  "example_sandbox m ws = Directory \<lparr>fa_uid = 1000, fa_perm = 0x1C0\<rparr>
     [(METADATA_NAME, metadata_node example_env m),
      (WORKSPACE_NAME, Directory \<lparr>fa_uid = 1000, fa_perm = 0x1C0\<rparr> ws)]"

definition example_tree :: "metadata \<Rightarrow> dirents \<Rightarrow> fsys" where
  "example_tree m ws = example_fs\<lparr>fs_root :=
     Some (Directory \<lparr>fa_uid = 1000, fa_perm = 0x1C0\<rparr> [(''demo'', example_sandbox m ws)])\<rparr>"

definition example_deleting :: metadata where
  "example_deleting = metadata_with_state (metadata_active (SandboxId ''demo'') example_owner) Deleting"

definition example_file :: node where
  "example_file = RegFile \<lparr>fa_uid = 1000, fa_perm = 0x180\<rparr> ''data''"

abbreviation one_sandbox :: "metadata \<Rightarrow> registry" where
  "one_sandbox m \<equiv> (\<lambda>_. Vacant)(SandboxId ''demo'' := Held m)"

lemma example_readable: "metadata_readable example_env example_deleting"
proof -
  have "valid_metadata example_deleting"
    by (simp add: example_deleting_def metadata_with_state_def metadata_active_def valid_metadata_def
        example_id_valid example_owner_valid)
  from metadata_decode_encode [OF this example_reads_metadata [OF this]] show ?thesis
    by (simp add: metadata_readable_def)
qed

lemma example_deleting_simps [simp]:
  "md_id example_deleting = SandboxId ''demo''" "md_state example_deleting = Deleting"
  "md_owner example_deleting = example_owner"
  by (simp_all add: example_deleting_def metadata_with_state_def metadata_active_def)

lemma example_wf: "list_all (\<lambda>(k, n). wf_node n \<and> k \<noteq> ''.'' \<and> k \<noteq> ''..'') ws \<Longrightarrow> distinct (map fst ws) \<Longrightarrow>
    wf_tree (fs_root (example_tree m ws))"
  by (auto simp: example_tree_def example_sandbox_def wf_tree_def METADATA_NAME_def WORKSPACE_NAME_def
      metadata_node_def list_all_iff)

lemma example_tree_slots:
  assumes m: "metadata_readable example_env m" "md_id m = SandboxId ''demo''"
    and ws: "list_all (\<lambda>(k, n). wf_node n \<and> k \<noteq> ''.'' \<and> k \<noteq> ''..'') ws" "distinct (map fst ws)"
  shows "registry_at example_env (one_sandbox m) (example_tree m ws)"
proof -
  have r: "fs_root (example_tree m ws) =
      Some (Directory \<lparr>fa_uid = 1000, fa_perm = 0x1C0\<rparr> [(''demo'', example_sandbox m ws)])"
    by (simp add: example_tree_def)
  have "record_in example_env (SandboxId ''demo'') \<lparr>fa_uid = 1000, fa_perm = 0x1C0\<rparr>
      (map_of [(METADATA_NAME, metadata_node example_env m),
        (WORKSPACE_NAME, Directory \<lparr>fa_uid = 1000, fa_perm = 0x1C0\<rparr> ws)]) = Some m"
    using metadata_file_node [OF m(1)] m(2)
    by (auto simp: record_in_Some trusted_def group_world_writable_def mode_bits_def split: if_splits)
  then have slot: "slot_of example_env (fs_root (example_tree m ws)) i = one_sandbox m i" for i
    by (cases i) (simp add: slot_of_def r lookup_Cons example_sandbox_def)
  show ?thesis
    unfolding registry_at_def registry_on_def using example_wf [OF ws] slot r by blast
qed

lemmas example_tree_registry = example_tree_slots [OF example_readable example_deleting_simps(1)]

lemma example_remove_step:
  assumes "list_all (\<lambda>(k, n). wf_node n \<and> k \<noteq> ''.'' \<and> k \<noteq> ''..'') ws" and "distinct (map fst ws)"
  shows "storage_step example_env example_storage (example_tree example_deleting ws)
    (snd (remove_tree example_storage (SandboxId ''demo'') (example_tree example_deleting ws)))"
proof (rule storage_step.removes)
  show "slot_of example_env (fs_root (example_tree example_deleting ws)) (SandboxId ''demo'') = Held example_deleting"
    using example_tree_registry [OF assms] example_id_valid by (simp add: registry_at_def registry_on_def)
qed (simp_all add: example_id_valid prod_eq_iff)


text \<open>
  Inspection is exact: the answer is absent, active, deleting or corrupt exactly as the
  directory is missing, a complete record in that state, or anything else, and neither the answer
  nor an error changes the tree.
\<close>

theorem inspect_reports_slot:
  assumes "wf_tree (fs_root s)" and "inspect E st i s = (res, t)"
  shows "fs_root t = fs_root s \<and>
    (case res of Inl e \<Rightarrow> True | Inr v \<Rightarrow> entry_matches v (slot_of E (fs_root s) i))"
  using ok_or_err [OF inspect_rule [OF assms(1)] refl assms(2)] by (auto split: sum.splits)

theorem inspect_reports_slot_witness:
  "fs_root (snd (inspect example_env example_storage (SandboxId ''demo'') (example_tree example_deleting [])))
      = fs_root (example_tree example_deleting []) \<and>
    (case fst (inspect example_env example_storage (SandboxId ''demo'') (example_tree example_deleting [])) of
       Inl e \<Rightarrow> True
     | Inr v \<Rightarrow> entry_matches v (slot_of example_env (fs_root (example_tree example_deleting [])) (SandboxId ''demo'')))"
  by (rule inspect_reports_slot) (simp_all add: example_wf)

text \<open>
  A scan lists every identifier whose slot is not vacant exactly once, with an entry that
  matches its slot, and leaves the registry as it is.
\<close>

theorem scan_lists_registry:
  assumes "registry_at E R s" and "scan E st s = (Inr v, t)"
  shows "registry_at E R t \<and> distinct (map fst (sr_entries v))
    \<and> set (map fst (sr_entries v)) = {i. valid_id i \<and> R i \<noteq> Vacant}
    \<and> list_all (\<lambda>(i, e). entry_matches e (R i)) (sr_entries v)"
  using ok_or_err [OF scan_rule assms] by (simp add: list_all_iff)

definition example_stray :: fsys where
  "example_stray = example_fs\<lparr>fs_root :=
     Some (Directory \<lparr>fa_uid = 1000, fa_perm = 0x1C0\<rparr> [(''demo'', example_file), (''lost+found'', example_file)])\<rparr>"

lemma example_stray_registry:
  "registry_at example_env ((\<lambda>_. Vacant)(SandboxId ''demo'' := Broken, SandboxId ''lost+found'' := Broken)) example_stray"
proof -
  have "slot_of example_env (fs_root example_stray) i =
      ((\<lambda>_. Vacant)(SandboxId ''demo'' := Broken, SandboxId ''lost+found'' := Broken)) i" for i
    by (cases i) (simp add: slot_of_def example_stray_def lookup_Cons example_file_def)
  then show ?thesis
    by (simp add: registry_at_def registry_on_def) (simp add: example_stray_def wf_tree_def example_file_def)
qed

lemma example_stray_scan:
  "scan example_env example_storage example_stray =
     (Inr \<lparr>sr_entries = [(SandboxId ''demo'', EntryCorrupt ''sandbox entry is not a directory'')],
           sr_unknown_entries = 1\<rparr>, example_stray)"
  by code_simp

theorem scan_lists_registry_witness:
  "registry_at example_env ((\<lambda>_. Vacant)(SandboxId ''demo'' := Broken, SandboxId ''lost+found'' := Broken)) example_stray
    \<and> {i. valid_id i \<and> ((\<lambda>_. Vacant)(SandboxId ''demo'' := Broken, SandboxId ''lost+found'' := Broken)) i \<noteq> Vacant}
        = {SandboxId ''demo''}"
  using scan_lists_registry [OF example_stray_registry example_stray_scan] by simp

text \<open>
  A sandbox that was created and then inspected is active, with the owner it was created for,
  in a slot that was vacant; if a call fails, only the slot of that identifier can have changed.
\<close>

theorem create_then_inspect:
  assumes "valid_id i" and "metadata_readable E (metadata_active i owner)" and "registry_at E R s"
    and "io_bind (create_active E st i owner) (\<lambda>m. inspect E st i) s = (res, t)"
  shows "case res of
      Inr v \<Rightarrow> R i = Vacant \<and> v = EntryActive (metadata_active i owner)
        \<and> registry_at E (R(i := Held (metadata_active i owner))) t
    | Inl e \<Rightarrow> \<exists>x. registry_at E (R(i := x)) t"
  using ok_or_err [OF disk.make_then_look [OF assms(1,2)] assms(3,4)] by simp

lemma example_active_readable: "metadata_readable example_env (metadata_active (SandboxId ''demo'') example_owner)"
proof -
  have v: "valid_metadata (metadata_active (SandboxId ''demo'') example_owner)"
    by (simp add: metadata_active_def valid_metadata_def example_id_valid example_owner_valid)
  from metadata_decode_encode [OF v example_reads_metadata [OF v]] show ?thesis
    by (simp add: metadata_readable_def)
qed

theorem create_then_inspect_witness:
  "case fst (io_bind (create_active example_env example_storage (SandboxId ''demo'') example_owner)
        (\<lambda>m. inspect example_env example_storage (SandboxId ''demo'')) example_fs) of
      Inr v \<Rightarrow> (\<lambda>_. Vacant) (SandboxId ''demo'') = Vacant
        \<and> v = EntryActive (metadata_active (SandboxId ''demo'') example_owner)
        \<and> registry_at example_env (one_sandbox (metadata_active (SandboxId ''demo'') example_owner))
            (snd (io_bind (create_active example_env example_storage (SandboxId ''demo'') example_owner)
              (\<lambda>m. inspect example_env example_storage (SandboxId ''demo'')) example_fs))
    | Inl e \<Rightarrow> \<exists>x. registry_at example_env ((\<lambda>_. Vacant)(SandboxId ''demo'' := x))
            (snd (io_bind (create_active example_env example_storage (SandboxId ''demo'') example_owner)
              (\<lambda>m. inspect example_env example_storage (SandboxId ''demo'')) example_fs))"
  by (rule create_then_inspect [OF example_id_valid example_active_readable example_registry]) simp

text \<open>
  C11. The removal of a deleting sandbox either empties its slot or keeps the durable intent: after
  a failure the slot still holds the deleting record, unless everything below the sandbox directory
  is already gone.
\<close>

theorem failed_removal_keeps_intent:
  assumes "registry_at E R s" and "valid_id i" and "R i = Held m" and "md_state m = Deleting"
    and "remove_tree st i s = (res, t)"
  shows "case res of
      Inr _ \<Rightarrow> registry_at E (R(i := Vacant)) t
    | Inl e \<Rightarrow> registry_at E R t \<or> registry_at E (R(i := Vacant)) t
        \<or> (\<exists>a. lookup (fs_root t) [id_as_str i] = Some (Directory a [])) \<and> registry_at E (R(i := Broken)) t"
proof -
  have "R(i := Held m) = R" using assms(3) by auto
  with ok_or_err [OF remove_tree_rule [OF assms(2)] assms(1,5)] assms(3,4) show ?thesis
    by (auto simp: removal_failed_def split: sum.splits)
qed

theorem failed_removal_keeps_intent_witness:
  "case fst (remove_tree example_storage (SandboxId ''demo'') (example_tree example_deleting [])) of
      Inr _ \<Rightarrow> registry_at example_env ((one_sandbox example_deleting)(SandboxId ''demo'' := Vacant))
        (snd (remove_tree example_storage (SandboxId ''demo'') (example_tree example_deleting [])))
    | Inl e \<Rightarrow> registry_at example_env (one_sandbox example_deleting)
          (snd (remove_tree example_storage (SandboxId ''demo'') (example_tree example_deleting [])))
        \<or> registry_at example_env ((one_sandbox example_deleting)(SandboxId ''demo'' := Vacant))
          (snd (remove_tree example_storage (SandboxId ''demo'') (example_tree example_deleting [])))
        \<or> (\<exists>a. lookup (fs_root (snd (remove_tree example_storage (SandboxId ''demo'') (example_tree example_deleting []))))
              [id_as_str (SandboxId ''demo'')] = Some (Directory a []))
          \<and> registry_at example_env ((one_sandbox example_deleting)(SandboxId ''demo'' := Broken))
              (snd (remove_tree example_storage (SandboxId ''demo'') (example_tree example_deleting [])))"
  by (rule failed_removal_keeps_intent [OF example_tree_registry example_id_valid, where m = example_deleting]) simp_all

text \<open>
  C14. The recursive removal ends: on a finite tree, fuel for as many levels as the tree has is
  never used up, and any larger amount gives the same outcome and the same tree.
\<close>

theorem remove_children_terminates:
  assumes "wf_tree (fs_root s)" and "lookup (fs_root s) d = Some (Directory a cs)" and "height_in s \<le> fuel"
  shows "fst (remove_children fuel d s) \<noteq> Inl None
    \<and> remove_children fuel d s = remove_children (height_in s) d s"
proof -
  have "fst (remove_children (height_in s) d s) \<noteq> Inl None" by (rule remove_children_ends [OF assms(1,2)]) simp
  from remove_children_fuel [OF this, of "fuel - height_in s"] assms(3)
  show ?thesis using remove_children_ends [OF assms] by simp
qed

theorem remove_children_terminates_witness:
  "fst (remove_children 5 [''demo''] (example_tree example_deleting [(''a'', example_file)])) \<noteq> Inl None
    \<and> remove_children 5 [''demo''] (example_tree example_deleting [(''a'', example_file)])
      = remove_children (height_in (example_tree example_deleting [(''a'', example_file)])) [''demo'']
          (example_tree example_deleting [(''a'', example_file)])"
  by (rule remove_children_terminates [OF example_wf])
    (simp_all add: example_file_def, simp_all add: example_tree_def example_sandbox_def lookup_Cons
      height_in_def metadata_node_def)

text \<open>
  C12. When no call fails, removing a sandbox succeeds exactly when no directory inside it has an
  entry called \<open>metadata.toml\<close> of its own: the walk skips that name at every depth, not only in
  the sandbox directory.
\<close>

theorem removal_succeeds_iff_tidy:
  assumes "calm s" and "fs_root s = Some (Directory b rs)" and "wf_tree (fs_root s)"
    and "nul_free (sg_root st)" and "valid_id i" and "map_of rs (id_as_str i) = Some (Directory a cs)"
    and "nul_free_node (Directory a cs)" and "map_of cs METADATA_NAME = Some (RegFile c bytes)"
  shows "fst (remove_tree st i s) = Inr () \<longleftrightarrow> tidy_below cs"
proof
  assume ok: "fst (remove_tree st i s) = Inr ()"
  have l: "lookup (fs_root s) [id_as_str i] = Some (Directory a cs)" using assms(2,6) by (simp add: lookup_Cons)
  show "tidy_below cs"
  proof (rule ccontr)
    assume "\<not> tidy_below cs"
    from ok_or_err [OF remove_tree_needs_tidy [OF assms(3) l this] refl surjective_pairing [of "remove_tree st i s"]]
    show False by (simp add: ok)
  qed
next
  assume "tidy_below cs"
  then show "fst (remove_tree st i s) = Inr ()"
    using remove_tree_calm [OF assms(1,2,4,5,6,3,7) _ assms(8)] by simp
qed

lemma example_calm: "calm (example_tree m ws)"
  by (simp add: calm_def example_tree_def example_fs_def)

theorem removal_succeeds_iff_tidy_witness:
  "fst (remove_tree example_storage (SandboxId ''demo'') (example_tree example_deleting [(''a'', example_file)])) = Inr ()
     \<longleftrightarrow> tidy_below [(METADATA_NAME, metadata_node example_env example_deleting),
       (WORKSPACE_NAME, Directory \<lparr>fa_uid = 1000, fa_perm = 0x1C0\<rparr> [(''a'', example_file)])]"
  by (rule removal_succeeds_iff_tidy [OF example_calm _ example_wf,
        where a = "\<lparr>fa_uid = 1000, fa_perm = 0x1C0\<rparr>"])
    (simp_all add: example_file_def example_id_valid, simp_all add: example_tree_def example_sandbox_def example_file_def
      example_storage_def nul_free_def METADATA_NAME_def WORKSPACE_NAME_def metadata_node_def, simp)

text \<open>
  C13. A file called \<open>metadata.toml\<close> in the workspace blocks deletion for good: whatever the system
  calls do, the removal reports an error.
\<close>

theorem nested_metadata_blocks_removal:
  assumes "wf_tree (fs_root s)" and "lookup (fs_root s) [id_as_str i] = Some (Directory a cs)"
    and "map_of cs WORKSPACE_NAME = Some (Directory b ws)" and "METADATA_NAME \<in> fst ` set ws"
  shows "\<exists>e. fst (remove_tree st i s) = Inl e"
proof -
  have "(WORKSPACE_NAME, Directory b ws) \<in> set cs" using assms(3) by (rule map_of_SomeD)
  moreover have "\<not> tidy (Directory b ws)" using assms(4) by (auto simp: list_all_iff)
  ultimately have "\<not> tidy_below cs" unfolding tidy_below_def list_all_iff using names_differ by blast
  from ok_or_err [OF remove_tree_needs_tidy [OF assms(1,2) this] refl surjective_pairing [of "remove_tree st i s"]]
  show ?thesis by (auto split: sum.splits)
qed

theorem nested_metadata_blocks_removal_witness:
  "\<exists>e. fst (remove_tree example_storage (SandboxId ''demo'')
     (example_tree example_deleting [(''metadata.toml'', example_file)])) = Inl e"
  by (rule nested_metadata_blocks_removal [OF example_wf,
        where b = "\<lparr>fa_uid = 1000, fa_perm = 0x1C0\<rparr>" and ws = "[(''metadata.toml'', example_file)]"])
    (simp_all add: example_file_def, simp_all add: example_tree_def example_sandbox_def lookup_Cons METADATA_NAME_def
      WORKSPACE_NAME_def, simp)

end
