(* ===== verification/Reconcile_Properties.thy ===== *)
theory Reconcile_Properties
  imports Reconcile Subid_Properties
begin

text \<open>The properties of startup reconciliation, with instances on a ledger that holds one lease.\<close>

definition example_lease_fs :: "lease_record \<Rightarrow> fsys" where
  "example_lease_fs r = example_fs\<lparr>fs_root := Some (Directory \<lparr>fa_uid = 1000, fa_perm = 0x1C0\<rparr>
     [(lease_file_name r, RegFile \<lparr>fa_uid = 1000, fa_perm = 0x180\<rparr> (lease_encode example_env r))])\<rparr>"

lemma example_lease_ledger:
  assumes "valid_lease r" and "lr_quarantine_reason r = None"
  shows "ledger_at example_env [lr_lease_id r \<mapsto> r] (example_lease_fs r)"
proof -
  have d: "lease_decode example_env (lease_encode example_env r) (lr_lease_id r) = Inr r"
    using valid_readable [OF example_reads_plain assms] by (simp add: record_readable_def)
  have v: "\<not> hidden (lease_file_name r)"
    using record_name_visible [OF lease_decode_sound(2) [OF d]] by (simp add: lease_file_name_def)
  show ?thesis
    unfolding ledger_at_def
  proof (rule exI [of _ "\<lparr>fa_uid = 1000, fa_perm = 0x1C0\<rparr>"], rule exI, intro conjI)
    show "shows_dir \<lparr>fa_uid = 1000, fa_perm = 0x1C0\<rparr>
        [lease_file_name r \<mapsto> RegFile \<lparr>fa_uid = 1000, fa_perm = 0x180\<rparr> (lease_encode example_env r)] (example_lease_fs r)"
      using v by (auto simp: shows_dir_def example_lease_fs_def visible_def fun_eq_iff)
    show "represents example_env
        [lease_file_name r \<mapsto> RegFile \<lparr>fa_uid = 1000, fa_perm = 0x180\<rparr> (lease_encode example_env r)] [lr_lease_id r \<mapsto> r]"
      using d by (auto simp: represents_def lease_file_name_def group_world_writable_def mode_bits_def split: if_splits)
  qed (simp_all add: group_world_writable_def mode_bits_def)
qed

definition example_releasing :: lease_record where
  "example_releasing = example_lease\<lparr>lr_state := LeaseReleasing\<rparr>"

definition example_releasing_allocator :: allocator where
  "example_releasing_allocator = allocator_new \<lparr>ls_root = ''/ledger''\<rparr> (example_lease_fs example_releasing)"

lemma example_releasing_at:
  "at_ledger example_env [lr_lease_id example_releasing \<mapsto> example_releasing] example_releasing_allocator"
proof -
  have "valid_lease example_releasing"
    using example_lease_valid by (simp add: valid_lease_def example_releasing_def example_lease_def)
  moreover have "lr_quarantine_reason example_releasing = None"
    by (simp add: example_releasing_def example_lease_def)
  ultimately show ?thesis
    using example_lease_ledger by (simp add: example_releasing_allocator_def allocator_new_def)
qed

text \<open>
  What justifies the fate of a lease: it disappears only if the sandbox is absent and it was only
  reserved, or was being released after a finished runtime sweep; a quarantined lease stays as it
  is; a lease that stays keeps its identity, and none becomes active but a reserved one.
\<close>

definition fate_justified :: "view_lookup \<Rightarrow> bool \<Rightarrow> lease_record \<Rightarrow> lease_record option \<Rightarrow> bool" where
  "fate_justified view pf r after =
     (case after of
        None \<Rightarrow> view (lr_sandbox_id r) = Inr None
          \<and> (lr_state r = LeaseReserved \<or> lr_state r = LeaseReleasing \<and> pf)
      | Some q \<Rightarrow> same_lease q r
          \<and> (if lr_state r = LeaseQuarantined then q = r
              else if lr_state q = LeaseActive then lr_state r = LeaseActive \<or> lr_state r = LeaseReserved
              else True))"

definition fates_justified :: "view_lookup \<Rightarrow> bool \<Rightarrow> ledger \<Rightarrow> ledger \<Rightarrow> bool" where
  "fates_justified view pf L L' \<longleftrightarrow>
     (\<forall>l. case L l of None \<Rightarrow> L' l = None | Some r \<Rightarrow> fate_justified view pf r (L' l))"

lemma reconciled_justified:
  "view (lr_sandbox_id r) = Inr sandbox \<Longrightarrow> fate_justified view pf r (reconciled (decide pf sandbox r) r)"
  by (auto simp: fate_justified_def reconciled_def decide_def lease_with_state_def with_quarantine_reason_def same_lease_def
      split: option.splits sandbox_view.splits lease_state.splits if_splits)

lemma reconcile_ledger_justified:
  assumes "\<forall>r \<in> ran L. is_ok (view (lr_sandbox_id r))"
  shows "fates_justified view pf L (reconcile_ledger view pf L)"
  unfolding fates_justified_def
proof
  fix l
  show "case L l of None \<Rightarrow> reconcile_ledger view pf L l = None
    | Some r \<Rightarrow> fate_justified view pf r (reconcile_ledger view pf L l)"
  proof (cases "L l")
    case None
    then show ?thesis by (simp add: reconcile_ledger_def)
  next
    case (Some r)
    with assms obtain sandbox where v: "view (lr_sandbox_id r) = Inr sandbox"
      by (cases "view (lr_sandbox_id r)") (auto simp: ran_def)
    with reconciled_justified [where view = view, OF v] Some show ?thesis by (simp add: reconcile_ledger_def)
  qed
qed


lemma example_reasons: "reasons_readable example_env (\<lambda>_. Inr None) True [lr_lease_id example_releasing \<mapsto> example_releasing]"
  by (simp add: reasons_readable_def decide_def example_releasing_def example_lease_def)


end
