(* ===== verification/Manager_Properties.thy ===== *)
theory Manager_Properties
  imports Manager_Frames Storage_Properties Reconcile_Properties
begin

text \<open>
  The properties of the lifecycle manager, each with an instance on a concrete manager: one with an
  empty registry, one whose only sandbox is being deleted, one with a sandbox that has no lease.
\<close>

definition example_caps :: caps where
  "example_caps = \<lparr>max_unauthenticated_connections = 32, max_connections = 128, max_channels_per_connection = 16,
     max_concurrent_launches_per_sandbox = 128, max_host_processes = 16, max_auth_attempts = 6, max_sandboxes = 1024,
     max_sandboxes_per_owner = 128, handshake_timeout_secs = 30\<rparr>"

definition example_manager :: "fsys \<Rightarrow> allocator \<Rightarrow> manager" where
  "example_manager fs a = \<lparr>mg_storage = example_storage, mg_caps = example_caps, mg_fs = fs, mg_subids = Some a,
     mg_ledger = ledger_default, mg_locks = locks_new, mg_ready = True, mg_frozen = False, mg_signals = []\<rparr>"

definition example_principal :: principal where
  "example_principal = \<lparr>pr_fingerprint = example_owner, pr_role = Normal\<rparr>"

abbreviation demo :: sandbox_id where
  "demo \<equiv> SandboxId ''demo''"

lemma example_manager_parts [simp]:
  "mg_fs (example_manager fs a) = fs" "leases A (mg_subids (example_manager fs a)) = A a"
  "mg_subids (example_manager fs a) = Some a" "mg_ledger (example_manager fs a) = ledger_default"
  by (simp_all add: example_manager_def leases_def)

lemma example_reasons_readable:
  "reason_readable example_env ''reservation cleanup was ambiguous''"
  "reason_readable example_env ''activation failed after sandbox publication''"
  by (rule example_reason_readable; simp add: plain_ascii_def)+

lemma example_claim_setting:
  "new_lease_id token \<notin> dom L \<Longrightarrow> claim_setting example_env token (Inr example_delegation) (pr_fingerprint example_principal) demo L"
  by (simp add: claim_setting_def example_principal_def example_id_valid example_owner_valid example_reads_plain
      example_active_readable example_reasons_readable example_delegation_valid)

lemma example_delete_setting: "delete_setting example_env demo"
  using metadata_decode_encode [OF _ example_reads_metadata]
  by (auto simp: delete_setting_def example_id_valid example_reads_plain metadata_readable_def) metis

section \<open>Claiming\<close>

text \<open>
  C4. A claim that succeeds hands out the sandbox of the identifier: the record on disk is active, its
  owner is the principal unless the principal is an administrator, it was created exactly if the
  slot was vacant, and in isolated mode the identity is that of an active lease of this sandbox and
  this owner. The claim of an existing sandbox changes neither the registry nor the ledger; a claim
  that creates one, or fails to, touches only the slot and the leases of its identifier.
\<close>

theorem claim_hands_out_own_sandbox:
  assumes "claim_setting E token q (pr_fingerprint p) i L" and "registry_at E R (mg_fs w)"
    and "leases (at_ledger E L) (mg_subids w)" and "claim E token q q' p i w = (res, w')"
  shows "case res of Inr h \<Rightarrow> claimed E R L p i h w' | Inl e \<Rightarrow> claim_failed E R L i w'"
  using io_valid_ok [OF claim_rule [OF assms(1), of R q']] io_valid_err [OF claim_rule [OF assms(1), of R q']] assms(2-4)
  by (cases res) auto

abbreviation example_claim :: "(manager_error, sandbox_handle) result \<times> manager" where
  "example_claim \<equiv> claim example_env 7 (Inr example_delegation) (Inr example_delegation) example_principal demo
     (example_manager example_fs example_allocator)"

theorem claim_hands_out_own_sandbox_witness:
  "case fst example_claim of
      Inr h \<Rightarrow> claimed example_env (\<lambda>_. Vacant) Map.empty example_principal demo h (snd example_claim)
    | Inl e \<Rightarrow> claim_failed example_env (\<lambda>_. Vacant) Map.empty demo (snd example_claim)"
  by (rule claim_hands_out_own_sandbox [OF example_claim_setting])
    (simp_all add: example_registry example_at)

section \<open>Deleting\<close>

text \<open>
  C5. A deletion reported as done removed the sandbox of an authorized principal and freed its lease
  unless that was quarantined; a deletion reported as a no-op changed no slot and at most freed a
  releasing lease of a vacant identifier. A deletion that fails leaves the lease until the directory
  is gone, moves the record only towards deletion, and touches nothing of another sandbox.
\<close>

theorem delete_frees_lease_last:
  assumes "delete_setting E i" and "registry_at E R (mg_fs w)" and "leases (at_ledger E L) (mg_subids w)"
    and "delete E ln graceful forced p i w = (res, w')"
  shows "case res of Inr v \<Rightarrow> deleted E R L p i v w' | Inl e \<Rightarrow> delete_failed E R L p i w'"
  using io_valid_ok [OF delete_rule [OF assms(1), of R]] io_valid_err [OF delete_rule [OF assms(1), of R]] assms(2-4)
  by (cases res) auto

abbreviation example_delete :: "(manager_error, delete_result) result \<times> manager" where
  "example_delete \<equiv> delete example_env unavailable_launcher [] [] example_principal demo
     (example_manager (example_tree example_deleting []) example_releasing_allocator)"

theorem delete_frees_lease_last_witness:
  "case fst example_delete of
      Inr v \<Rightarrow> deleted example_env (one_sandbox example_deleting) [lr_lease_id example_releasing \<mapsto> example_releasing]
        example_principal demo v (snd example_delete)
    | Inl e \<Rightarrow> delete_failed example_env (one_sandbox example_deleting) [lr_lease_id example_releasing \<mapsto> example_releasing]
        example_principal demo (snd example_delete)"
  by (rule delete_frees_lease_last [OF example_delete_setting])
    (simp_all add: example_tree_registry example_releasing_at)

definition leaseless :: "env \<Rightarrow> registry \<Rightarrow> ledger \<Rightarrow> sandbox_id \<Rightarrow> manager \<Rightarrow> bool" where
  "leaseless E R L i w \<longleftrightarrow> registry_at E R (mg_fs w) \<and> (\<exists>a. mg_subids w = Some a \<and> at_ledger E L a)
     \<and> (\<exists>m. R i = Held m) \<and> lease_of L i None"

definition is_error :: "('e, 'a) result \<Rightarrow> bool" where
  "is_error v = (case v of Inl e \<Rightarrow> True | Inr x \<Rightarrow> False)"

lemma leaseless_parts:
  assumes "leaseless E R L i w"
  shows "parts (registry_at E R) (leases (at_ledger E L)) w" and "mg_subids w \<noteq> None"
  using assms by (auto simp: leaseless_def)

lemma leaseless_again:
  "leaseless E R L i w \<Longrightarrow> parts (registry_at E R) (leases (at_ledger E L)) w' \<Longrightarrow> mg_subids w' \<noteq> None \<Longrightarrow> leaseless E R L i w'"
  by (auto simp: leaseless_def)

lemma no_lease: "lease_of L i None \<Longrightarrow> \<not> lease_of L i (Some r)"
  by (auto simp: lease_of_def ran_def)

lemma leaseless_claim:
  assumes "leaseless E R L i w"
  shows "claim_failed E R L i w' \<Longrightarrow> parts (registry_at E R) (leases (at_ledger E L)) w'"
    and "mg_subids w' \<noteq> None \<Longrightarrow> \<not> claimed E R L p i h w'"
proof -
  from assms obtain m where m: "R i = Held m" "lease_of L i None" by (auto simp: leaseless_def)
  from m(1) have same: "R(i := Held m) = R" by (simp add: fun_upd_idem)
  show "claim_failed E R L i w' \<Longrightarrow> parts (registry_at E R) (leases (at_ledger E L)) w'"
    using m same by (auto simp: claim_failed_def claim_moves_def)
  show "mg_subids w' \<noteq> None \<Longrightarrow> \<not> claimed E R L p i h w'"
    using m no_lease [OF m(2)] by (auto simp: claimed_def claim_moves_def answered_def granted_def)
qed

lemma leaseless_delete:
  assumes "leaseless E R L i w" and "mg_subids w' \<noteq> None"
  shows "delete_failed E R L p i w' \<Longrightarrow> parts (registry_at E R) (leases (at_ledger E L)) w'"
    and "deleted E R L p i v w' \<Longrightarrow> v \<noteq> Deleted \<and> parts (registry_at E R) (leases (at_ledger E L)) w'"
proof -
  from assms(1) obtain m where m: "R i = Held m" "lease_of L i None" by (auto simp: leaseless_def)
  note n = no_lease [OF m(2)]
  show "delete_failed E R L p i w' \<Longrightarrow> parts (registry_at E R) (leases (at_ledger E L)) w'"
    using assms(2) n by (auto simp: delete_failed_def lease_left_def)
  show "deleted E R L p i v w' \<Longrightarrow> v \<noteq> Deleted \<and> parts (registry_at E R) (leases (at_ledger E L)) w'"
    using assms(2) m n by (auto simp: deleted_def split: delete_result.splits)
qed


definition example_active :: metadata where
  "example_active = metadata_active demo example_owner"

definition example_leaseless :: manager where
  "example_leaseless = example_manager (example_tree example_active []) example_allocator"

lemma example_leaseless: "leaseless example_env (one_sandbox example_active) Map.empty demo example_leaseless"
proof -
  have "md_id example_active = demo" by (simp add: example_active_def metadata_active_def)
  with example_tree_slots [of example_active "[]"] example_active_readable
  have "registry_at example_env (one_sandbox example_active) (example_tree example_active [])"
    by (simp add: example_active_def)
  then show ?thesis by (simp add: leaseless_def example_leaseless_def example_at lease_of_def)
qed


section \<open>Listing\<close>

lemma listed_ids:
  assumes "distinct (map fst es)" and "set (map fst es) = {i. valid_id i \<and> R i \<noteq> Vacant}"
    and "\<forall>(i, e) \<in> set es. entry_matches e (R i)"
  shows "distinct (List.map_filter (listed p blocked) es)"
    and "set (List.map_filter (listed p blocked) es) =
      {i. valid_id i \<and> i \<notin> blocked \<and> (\<exists>m. R i = Held m \<and> md_state m = Active \<and> authorized p (md_owner m))}"
proof -
  have some: "listed p blocked (i, e) = Some j \<longleftrightarrow>
      j = i \<and> i \<notin> blocked \<and> (\<exists>m. e = EntryActive m \<and> authorized p (md_owner m))" for i e j
    by (auto simp: listed_def split: entry.splits)
  have found: "set (List.map_filter (listed p blocked) xs) = {j. \<exists>x \<in> set xs. listed p blocked x = Some j}" for xs
    by (induction xs) (auto simp: List.map_filter_def)
  show "distinct (List.map_filter (listed p blocked) es)"
    using assms(1)
  proof (induction es)
    case (Cons x es)
    obtain i e where x: "x = (i, e)" by force
    have "set (List.map_filter (listed p blocked) es) \<subseteq> fst ` set es"
      by (force simp: found some)
    moreover have "List.map_filter (listed p blocked) (x # es) =
        (case listed p blocked x of None \<Rightarrow> [] | Some j \<Rightarrow> [j]) @ List.map_filter (listed p blocked) es"
      by (simp add: List.map_filter_def split: option.splits)
    moreover have "j = i" if "listed p blocked x = Some j" for j using that by (simp add: x some)
    ultimately show ?case using Cons x by (cases "listed p blocked x") auto
  qed (simp add: List.map_filter_def)
  have active: "R i = Held m \<and> md_state m = Active" if "(i, EntryActive m) \<in> set es" for i m
    using assms(3) that match_cases(1) by blast
  have listed_back: "(i, EntryActive m) \<in> set es" if "valid_id i" "R i = Held m" "md_state m = Active" for i m
  proof -
    have "i \<in> set (map fst es)" using assms(2) that(1,2) by simp
    then obtain e where e: "(i, e) \<in> set es" by force
    with assms(3) that have "e = EntryActive m" by (auto simp: entry_for_def)
    with e show ?thesis by simp
  qed
  have valid: "valid_id i" if "(i, e) \<in> set es" for i e
    using assms(2) that by (force simp: set_eq_iff)
  show "set (List.map_filter (listed p blocked) es) =
      {i. valid_id i \<and> i \<notin> blocked \<and> (\<exists>m. R i = Held m \<and> md_state m = Active \<and> authorized p (md_owner m))}"
    unfolding found
  proof (intro set_eqI iffI CollectI; elim CollectE conjE exE bexE)
    fix j x assume x: "x \<in> set es" "listed p blocked x = Some j"
    obtain i e where "x = (i, e)" by force
    with x obtain m where "(j, EntryActive m) \<in> set es" "j \<notin> blocked" "authorized p (md_owner m)"
      by (auto simp: some)
    with active valid show "valid_id j \<and> j \<notin> blocked \<and> (\<exists>m. R j = Held m \<and> md_state m = Active \<and> authorized p (md_owner m))"
      by blast
  next
    fix j m assume "valid_id j" "j \<notin> blocked" "R j = Held m" "md_state m = Active" "authorized p (md_owner m)"
    with listed_back some [of j "EntryActive m" j] show "\<exists>x \<in> set es. listed p blocked x = Some j" by blast
  qed
qed

text \<open>
  C20. A list that succeeds is sorted and names each sandbox once: exactly those that are active on
  disk, owned by the principal or listed for an administrator, and not blocked in memory. Listing
  never changes the registry, the leases or the memory.
\<close>

theorem list_shows_own_active_sandboxes:
  assumes "registry_at E R (mg_fs w)" and "list_sandboxes E p w = (res, w')"
  shows "mg_ledger w' = mg_ledger w \<and> mg_subids w' = mg_subids w \<and> registry_at E R (mg_fs w') \<and>
    (case res of
       Inl e \<Rightarrow> True
     | Inr ids \<Rightarrow> sorted ids \<and> distinct ids \<and> set ids =
         {i. valid_id i \<and> i \<notin> lg_blocked (mg_ledger w)
           \<and> (\<exists>m. R i = Held m \<and> md_state m = Active \<and> authorized p (md_owner m))})"
proof -
  obtain v fs where s: "scan E (mg_storage w) (mg_fs w) = (v, fs)" by force
  note sc = ok_or_err [OF scan_rule assms(1) s]
  show ?thesis
  proof (cases v)
    case (Inl e)
    with sc s assms show ?thesis
      by (auto simp: list_sandboxes_def io_simps ensure_ready_def on_storage_def map_err_def split: if_splits)
  next
    case (Inr r)
    with sc have "registry_at E R fs" and es: "distinct (map fst (sr_entries r))"
      "set (map fst (sr_entries r)) = {i. valid_id i \<and> R i \<noteq> Vacant}" "\<forall>(i, e) \<in> set (sr_entries r). entry_matches e (R i)"
      by simp_all
    with listed_ids [OF es] Inr s assms show ?thesis
      by (auto simp: list_sandboxes_def io_simps ensure_ready_def on_storage_def on_ledger_def map_err_def
          remdups_adj_distinct split: if_splits)
  qed
qed

theorem list_shows_own_active_sandboxes_witness:
  "(case list_sandboxes example_env example_principal example_leaseless of (res, w') \<Rightarrow>
     mg_ledger w' = mg_ledger example_leaseless \<and> mg_subids w' = mg_subids example_leaseless
     \<and> registry_at example_env (one_sandbox example_active) (mg_fs w') \<and>
     (case res of
        Inl e \<Rightarrow> True
      | Inr ids \<Rightarrow> sorted ids \<and> distinct ids \<and> set ids =
          {i. valid_id i \<and> i \<notin> lg_blocked (mg_ledger example_leaseless)
            \<and> (\<exists>m. one_sandbox example_active i = Held m \<and> md_state m = Active
                 \<and> authorized example_principal (md_owner m))}))"
  unfolding case_prod_unfold
  by (rule list_shows_own_active_sandboxes [OF leaseless_parts(1) [OF example_leaseless, THEN conjunct1]]) simp

section \<open>Memory\<close>

text \<open>
  C18. Under every interleaving of the critical sections of claims, deletions, launches, cancellations
  and scans, the memory stays consistent: each owner's count is the number of its records and of its
  claims in flight, reservations are exactly the claims in flight, the index by sandbox mirrors the
  process table, no sandbox runs more processes than the limit or runs any without a record.
\<close>

theorem memory_stays_consistent:
  assumes "(mem_step c)\<^sup>*\<^sup>* (Map.empty, ledger_default) (f, l)"
  shows "accounts_ok f l \<and> index_ok l \<and> launches_ok c l"
  using mem_steps_ok [OF assms mem_ok_default] by (simp add: mem_ok_def)

definition example_reserved :: mem_ledger where
  "example_reserved = snd (reserve_sandbox example_caps example_owner ledger_default)"

lemma example_reserve_step:
  "mem_step example_caps (Map.empty, ledger_default) ([demo \<mapsto> example_owner], example_reserved)"
proof (rule mem_step.reserve)
  show "reserve_sandbox example_caps example_owner ledger_default = (Inr (), example_reserved)"
    by (simp add: example_reserved_def reserve_sandbox_def example_caps_def ledger_default_def saturating_usize_add_def)
qed (simp_all add: has_record_def ledger_default_def)

theorem memory_stays_consistent_witness:
  "accounts_ok [demo \<mapsto> example_owner] example_reserved \<and> index_ok example_reserved \<and> launches_ok example_caps example_reserved"
  by (rule memory_stays_consistent [OF r_into_rtranclp [of "mem_step example_caps", OF example_reserve_step]])

text \<open>
  C21. The search for a process token ends: while fewer than \<open>2 ^ 64 - 1\<close> processes run, admission
  returns, and the token of an admitted launch is not zero and was not in use.
\<close>

theorem launch_admission_terminates:
  assumes "length (lg_runtime l) < 2 ^ 64 - 1"
  shows "\<exists>res l'. begin_launch c frozen i owner l = Some (res, l')
    \<and> (case res of
         Inl e \<Rightarrow> l' = l
       | Inr lease \<Rightarrow> rt_sandbox_id lease = i \<and> rt_token lease \<noteq> 0 \<and> map_of (lg_runtime l) (rt_token lease) = None
           \<and> map_of (lg_runtime l') (rt_token lease) \<noteq> None)"
proof -
  obtain t where t: "next_runtime_token l = Some (t, l\<lparr>lg_next_runtime_token := t\<rparr>)" "t \<noteq> 0" "map_of (lg_runtime l) t = None"
    using next_runtime_token_fresh [OF assms] .
  then show ?thesis
    by (auto simp: begin_launch_def insert_runtime_def update_conv' split: option.splits)
qed

theorem launch_admission_terminates_witness:
  "\<exists>res l'. begin_launch example_caps False demo example_owner ledger_default = Some (res, l')
    \<and> (case res of
         Inl e \<Rightarrow> l' = ledger_default
       | Inr lease \<Rightarrow> rt_sandbox_id lease = demo \<and> rt_token lease \<noteq> 0
           \<and> map_of (lg_runtime ledger_default) (rt_token lease) = None \<and> map_of (lg_runtime l') (rt_token lease) \<noteq> None)"
  by (rule launch_admission_terminates) (simp add: ledger_default_def)

end
