(* ===== verification/Manager_Lifecycle.thy ===== *)
theory Manager_Lifecycle
  imports Manager_Properties
begin

text \<open>
  The properties of launching and of startup: a launch is committed for a live sandbox or undone, and
  the manager becomes ready only behind the sweep of processes and the reconciliation of leases.
\<close>

section \<open>Launching\<close>

definition request_for ::
  "sandbox_handle \<Rightarrow> launch_operation \<Rightarrow> pty_spec option \<Rightarrow> (string \<times> string) list \<Rightarrow> launch_request" where
  "request_for h operation pty environment =
     \<lparr>lq_sandbox_id = sh_id h, lq_workspace = sh_workspace h, lq_identity = sh_identity h,
      lq_operation = operation, lq_pty = pty, lq_environment = environment\<rparr>"

text \<open>A committed launch: the table has the process, running and not cancelled, of a sandbox active in memory and on disk.\<close>

definition launch_committed :: "registry \<Rightarrow> sandbox_id \<Rightarrow> managed_process \<Rightarrow> mem_ledger \<Rightarrow> bool" where
  "launch_committed R i mp l \<longleftrightarrow> (\<exists>m r e. R i = Held m \<and> md_state m = Active
     \<and> bt_get (lg_records l) i = Some r \<and> md_state r = Active \<and> md_owner r = md_owner m
     \<and> map_of (lg_runtime l) (rt_token (mp_lease mp)) = Some e
     \<and> re_sandbox_id e = i \<and> re_marker e = Running \<and> re_process e = Some (mp_process mp) \<and> \<not> re_cancelled e)"

definition stop_signals :: "(process \<Rightarrow> bool) \<Rightarrow> (launch_error, process) result \<Rightarrow> signal list" where
  "stop_signals in_time r =
     (case r of Inl e \<Rightarrow> [] | Inr p \<Rightarrow> Terminate p # (if in_time p then [] else [ForceTerminate p]))"

lemma commit_launch_True:
  assumes "commit_launch durable lease p l = (True, l')"
  shows "\<exists>m r e. durable = Some m \<and> bt_get (lg_records l') (rt_sandbox_id lease) = Some r \<and> md_state r = Active
    \<and> md_owner r = md_owner m \<and> map_of (lg_runtime l') (rt_token lease) = Some e \<and> re_sandbox_id e = rt_sandbox_id lease
    \<and> re_marker e = Running \<and> re_process e = Some p \<and> \<not> re_cancelled e"
  using assms
  by (auto simp: commit_launch_def durable_active_def set_entry_def update_conv' Let_def split: option.splits if_splits)

lemma commit_launch_False: "commit_launch durable lease p l = (False, l') \<Longrightarrow> l' = l"
  by (auto simp: commit_launch_def Let_def split: option.splits if_splits)

lemma finish_launch_spec:
  assumes i: "valid_id (rt_sandbox_id lease)" and R: "registry_at E R (mg_fs w)"
    and f: "finish_launch E lease p w = (res, w')"
  shows "\<exists>fs l accepted. res = Inr accepted \<and> w' = w\<lparr>mg_fs := fs, mg_ledger := l\<rparr> \<and> registry_at E R fs
    \<and> (if accepted then launch_committed R (rt_sandbox_id lease) \<lparr>mp_process = p, mp_lease = lease\<rparr> l
       else l = mg_ledger w)"
proof -
  obtain v fs where s: "inspect E (mg_storage w) (rt_sandbox_id lease) (mg_fs w) = (v, fs)" by force
  let ?durable = "case v of Inr (EntryActive m) \<Rightarrow> Some m | _ \<Rightarrow> None"
  obtain accepted l where c: "commit_launch ?durable lease p (mg_ledger w) = (accepted, l)" by force
  from ok_or_err [OF inspect_registry [OF i] R s] have fs: "registry_at E R fs" by (cases v) auto
  have "launch_committed R (rt_sandbox_id lease) \<lparr>mp_process = p, mp_lease = lease\<rparr> l" if accepted
  proof -
    from commit_launch_True [of ?durable lease p "mg_ledger w" l] c that obtain m where "?durable = Some m"
      and rest: "\<exists>r e. bt_get (lg_records l) (rt_sandbox_id lease) = Some r \<and> md_state r = Active
        \<and> md_owner r = md_owner m \<and> map_of (lg_runtime l) (rt_token lease) = Some e \<and> re_sandbox_id e = rt_sandbox_id lease
        \<and> re_marker e = Running \<and> re_process e = Some p \<and> \<not> re_cancelled e" by auto
    then have "v = Inr (EntryActive m)" by (auto split: sum.splits entry.splits)
    with ok_or_err [OF inspect_registry [OF i] R s] have "R (rt_sandbox_id lease) = Held m \<and> md_state m = Active"
      using match_cases(1) [of m "R (rt_sandbox_id lease)"] by simp
    with rest show ?thesis by (auto simp: launch_committed_def)
  qed
  with f s c fs commit_launch_False show ?thesis
    by (intro exI [of _ fs] exI [of _ l] exI [of _ accepted]) (auto simp: finish_launch_def Let_def)
qed


definition example_handle :: sandbox_handle where
  "example_handle = \<lparr>sh_id = demo, sh_owner = example_owner, sh_workspace = ''/data/sandboxes/demo/workspace'',
     sh_identity = None, sh_created = False\<rparr>"

abbreviation example_launch :: "(manager_error, managed_process) result \<times> manager" where
  "example_launch \<equiv> launch_handle example_env unavailable_launcher (\<lambda>l. l) (\<lambda>_. True) (\<lambda>_. True) example_handle OpShell None []
     example_leaseless"


section \<open>Startup\<close>

text \<open>The resumption of deletions touches only slots whose durable record is deleting.\<close>

definition only_deletions :: "registry \<Rightarrow> registry \<Rightarrow> bool" where
  "only_deletions R R' \<longleftrightarrow> (\<forall>i. R' i = R i
     \<or> (\<exists>m. R i = Held m \<and> md_state m = Deleting \<and> (R' i = Vacant \<or> R' i = Broken)))"

text \<open>Slots of the registry after some deletions, with those of the identifiers in \<open>todo\<close> still as they were.\<close>

definition resumed :: "env \<Rightarrow> registry \<Rightarrow> sandbox_id list \<Rightarrow> fsys \<Rightarrow> bool" where
  "resumed E R todo fs \<longleftrightarrow> (\<exists>R'. registry_at E R' fs \<and> only_deletions R R' \<and> (\<forall>i \<in> set todo. R' i = R i))"

lemma remove_resumed:
  assumes i: "valid_id i" "i \<notin> set todo" and m: "R i = Held m" "md_state m = Deleting"
  shows "io_valid (\<lambda>w. resumed E R (i # todo) (mg_fs w)) (on_storage id (\<lambda>st. remove_tree st i))
    (\<lambda>_ w. resumed E R todo (mg_fs w)) (\<lambda>_ w. resumed E R todo (mg_fs w))"
proof -
  have step: "io_valid (\<lambda>fs. resumed E R (i # todo) fs) (remove_tree st i)
      (\<lambda>_ fs. resumed E R todo fs) (\<lambda>_ fs. resumed E R todo fs)" for st
  proof (rule io_valid_pre, rule io_valid_ex [where T = "registry_at E"
        and P = "\<lambda>R'. only_deletions R R' \<and> R' i = R i \<and> (\<forall>j \<in> set todo. R' j = R j)"])
    fix R' assume "only_deletions R R' \<and> R' i = R i \<and> (\<forall>j \<in> set todo. R' j = R j)"
    then have R': "R' i = Held m" and rest: "\<forall>j \<in> set todo. R' j = R j" and only: "only_deletions R R'" using m by auto
    have moved: "resumed E R todo fs" if "registry_at E (R'(i := x)) fs" "x = R' i \<or> x = Vacant \<or> x = Broken" for x fs
      unfolding resumed_def
      by (rule exI [of _ "R'(i := x)"]) (use that i(2) m R' rest only in \<open>auto simp: only_deletions_def\<close>)
    show "io_valid (registry_at E R') (remove_tree st i) (\<lambda>_ fs. resumed E R todo fs) (\<lambda>_ fs. resumed E R todo fs)"
      by (rule io_valid_conseq [OF remove_tree_rule [OF i(1), of E R' st]])
        (use R' m(2) moved in \<open>auto simp: removal_failed_def\<close>)
  qed (auto simp: resumed_def)
  show ?thesis
    by (rule io_valid_conseq [OF on_storage_rule [OF step, of "\<lambda>_. True" id]]) auto
qed

lemma resume_deletion_rule:
  assumes i: "valid_id i" "i \<notin> set todo" and m: "R i = Held m" "md_state m = Deleting"
  shows "io_valid (\<lambda>w. resumed E R (i # todo) (mg_fs w)) (resume_deletion E ln i)
    (\<lambda>_ w. resumed E R todo (mg_fs w)) (\<lambda>_ w. resumed E R todo (mg_fs w))"
proof -
  have less: "resumed E R (i # todo) fs \<Longrightarrow> resumed E R todo fs" for fs by (auto simp: resumed_def)
  have skip: "io_valid (\<lambda>w. resumed E R (i # todo) (mg_fs w)) (io_ok () :: unit mgr_io) (\<lambda>_ w. resumed E R todo (mg_fs w))
      (\<lambda>_ w. resumed E R todo (mg_fs w))"
    by (rule io_valid_pre [OF io_valid_io_ok]) (rule less)
  have finish: "keeps mg_fs (let forget = on_logged (remove_record_from_ledger i) in
      case lease of
        Some r \<Rightarrow> if lr_state r \<noteq> LeaseQuarantined
          then io_match (on_allocator () (finish_release E r)) (\<lambda>e. io_ok ()) (\<lambda>_. forget) else forget
      | None \<Rightarrow> (forget :: unit mgr_io))" for lease
    unfolding Let_def by (intro frame_rules)
  note frees = keeps_valid [where P = "resumed E R todo", OF finish]
  note looks = keeps_valid [where P = "resumed E R (i # todo)", OF resume_lease_files]
  show ?thesis
    unfolding resume_deletion_def
  proof (rule io_valid_bind [OF io_valid_conseq [OF looks]], assumption, assumption, erule less)
    fix found :: "lease_record option option"
    let ?finish = "\<lambda>lease. let forget = on_logged (remove_record_from_ledger i) in
      case lease of
        Some r \<Rightarrow> if lr_state r \<noteq> LeaseQuarantined
          then io_match (on_allocator () (finish_release E r)) (\<lambda>e. io_ok ()) (\<lambda>_. forget) else forget
      | None \<Rightarrow> (forget :: unit mgr_io)"
    have removes: "io_valid (\<lambda>w. resumed E R (i # todo) (mg_fs w))
        (io_match (on_storage id (\<lambda>st. remove_tree st i)) (\<lambda>e. io_ok ()) (\<lambda>_. ?finish lease) :: unit mgr_io)
        (\<lambda>_ w. resumed E R todo (mg_fs w)) (\<lambda>_ w. resumed E R todo (mg_fs w))" for lease
      by (rule io_valid_match [OF remove_resumed [where R = R, OF i m] frees io_valid_io_ok])
    show "io_valid (\<lambda>w. resumed E R (i # todo) (mg_fs w))
        (case found of None \<Rightarrow> io_ok () | Some lease \<Rightarrow>
          (case ln_release_resources ln i of
             Inl e \<Rightarrow> io_ok ()
           | Inr _ \<Rightarrow> io_match (on_storage id (\<lambda>st. remove_tree st i)) (\<lambda>e. io_ok ()) (\<lambda>_. ?finish lease)))
        (\<lambda>_ w. resumed E R todo (mg_fs w)) (\<lambda>_ w. resumed E R todo (mg_fs w))"
      using skip removes by (simp split: option.split sum.split)
  qed
qed

lemma resume_all_rule:
  assumes "distinct ids" and "\<forall>i \<in> set ids. valid_id i \<and> (\<exists>m. R i = Held m \<and> md_state m = Deleting)"
  shows "io_valid (\<lambda>w. resumed E R ids (mg_fs w)) (io_for ids (resume_deletion E ln))
    (\<lambda>_ w. resumed E R [] (mg_fs w)) (\<lambda>_ w. resumed E R [] (mg_fs w))"
  using assms
proof (induction ids)
  case Nil
  show ?case by (simp add: io_valid_def io_ok_def)
next
  case (Cons i ids)
  then obtain m where m: "R i = Held m" "md_state m = Deleting" and i: "valid_id i" "i \<notin> set ids" by auto
  have less: "resumed E R ids fs \<Longrightarrow> resumed E R [] fs" for fs by (auto simp: resumed_def)
  from Cons have IH: "io_valid (\<lambda>w. resumed E R ids (mg_fs w)) (io_for ids (resume_deletion E ln))
    (\<lambda>_ w. resumed E R [] (mg_fs w)) (\<lambda>_ w. resumed E R [] (mg_fs w))" by simp
  show ?case
    by simp (rule io_valid_then [OF io_valid_conseq [OF resume_deletion_rule [where R = R, OF i m, of E ln]] IH], auto intro: less)
qed

text \<open>The records the startup scan left in memory are those of the registry.\<close>

definition records_match :: "registry \<Rightarrow> mem_ledger \<Rightarrow> bool" where
  "records_match R l \<longleftrightarrow> bt_sorted (lg_records l)
     \<and> (\<forall>i m. bt_get (lg_records l) i = Some m \<longrightarrow> valid_id i \<and> R i = Held m)"

lemma deleting_ids_match:
  assumes "records_match R l"
  shows "distinct (deleting_ids l)"
    and "\<forall>i \<in> set (deleting_ids l). valid_id i \<and> (\<exists>m. R i = Held m \<and> md_state m = Deleting)"
proof -
  have s: "bt_sorted (lg_records l)" using assms by (simp add: records_match_def)
  from bt_sorted_distinct [OF s] show "distinct (deleting_ids l)"
    unfolding deleting_ids_def by (rule distinct_map_filter)
  show "\<forall>i \<in> set (deleting_ids l). valid_id i \<and> (\<exists>m. R i = Held m \<and> md_state m = Deleting)"
    using assms bt_get_Some [OF s] by (auto simp: deleting_ids_def records_match_def)
qed

lemma reconcile_deleting_rule:
  assumes "records_match R l"
  shows "io_valid (\<lambda>w. registry_at E R (mg_fs w) \<and> mg_ledger w = l) (reconcile_deleting E ln)
    (\<lambda>_ w. resumed E R [] (mg_fs w)) (\<lambda>_ w. resumed E R [] (mg_fs w))"
proof -
  have start: "registry_at E R fs \<Longrightarrow> resumed E R todo fs" for fs todo
    unfolding resumed_def by (rule exI [of _ R]) (simp add: only_deletions_def)
  have "reconcile_deleting E ln w = io_for (deleting_ids l) (resume_deletion E ln) w" if "mg_ledger w = l" for w
    using that by (auto simp: reconcile_deleting_def io_bind_def on_ledger_def)
  with io_valid_ok [OF resume_all_rule [OF deleting_ids_match [OF assms]]]
    io_valid_err [OF resume_all_rule [OF deleting_ids_match [OF assms]]] start
  show ?thesis by (intro io_validI) (simp, blast)+
qed

lemma resume_deletion_total: "\<exists>w'. resume_deletion E ln i w = (Inr (), w')"
proof -
  have lease: "\<exists>x w'. resume_lease E i w = (Inr x, w')"
    by (auto simp: resume_lease_def on_allocator_def io_match_def io_ok_def split: option.splits prod.splits sum.splits)
  have logged: "\<exists>w'. on_logged h w = (Inr (), w')" for h w by (simp add: on_logged_def split: prod.splits)
  have finish: "\<exists>w'. io_match m (\<lambda>e. io_ok ()) (\<lambda>_. on_logged h) w = (Inr (), w')" for m h w
    using logged by (auto simp: io_match_def io_ok_def split: prod.splits sum.splits)
  from lease obtain x w1 where x: "resume_lease E i w = (Inr x, w1)" by blast
  show ?thesis
    using logged finish unfolding resume_deletion_def io_bind_def x
    by (auto simp: io_ok_def io_match_def Let_def split: option.splits sum.splits prod.splits)
qed

lemma deleting_total:
  assumes "reconcile_deleting E ln w = (d, w')"
  shows "d = Inr ()"
proof -
  have "fst (io_for ids (resume_deletion E ln) w) = Inr ()" for ids w
  proof (induction ids arbitrary: w)
    case (Cons i ids)
    obtain w1 where "resume_deletion E ln i w = (Inr (), w1)" using resume_deletion_total by blast
    with Cons show ?case by (simp add: io_then_def io_bind_def)
  qed (simp add: io_ok_def)
  then show ?thesis using assms by (auto simp: reconcile_deleting_def io_bind_def on_ledger_def) (metis fst_conv)
qed

text \<open>Loading establishes what startup relies on.\<close>

definition from_scan :: "(sandbox_id \<times> entry) list \<Rightarrow> mem_ledger \<Rightarrow> bool" where
  "from_scan es l \<longleftrightarrow> bt_sorted (lg_records l)
     \<and> (\<forall>i m. bt_get (lg_records l) i = Some m \<longrightarrow> (i, EntryActive m) \<in> set es \<or> (i, EntryDeleting m) \<in> set es)"

lemma remove_record_sorted: "bt_sorted (lg_records l) \<Longrightarrow> bt_sorted (lg_records (fst (remove_record_from_ledger i l)))"
  by (auto simp: remove_record_from_ledger_def Let_def drop_tokens_fields bt_sorted_remove split: option.splits)

lemma remove_from_scan: "from_scan es l \<Longrightarrow> from_scan es (fst (remove_record_from_ledger i l))"
  unfolding from_scan_def using remove_record_records [of l i] remove_record_sorted [of l i]
  by (auto split: if_splits)

lemma from_scan_update [simp]:
  "from_scan es (block i l) = from_scan es l" "from_scan es (l\<lparr>lg_unknown_entries := n\<rparr>) = from_scan es l"
  by (simp_all add: from_scan_def block_def)

lemma adopt_from_scan:
  assumes "from_scan es l" and "(i, EntryActive m) \<in> set es \<or> (i, EntryDeleting m) \<in> set es"
  shows "from_scan es (fst (adopt_record i m l))"
proof (cases "case bt_get (lg_records l) i of None \<Rightarrow> True | Some existing \<Rightarrow> same_identity existing m")
  case True
  with assms show ?thesis
    by (auto simp: adopt_record_def Let_def from_scan_def bt_get_insert_at bt_sorted_insert)
next
  case False
  with remove_from_scan [OF assms(1), of i] show ?thesis
    by (simp add: adopt_record_def case_prod_unfold)
qed

lemma entry_from_scan: "x \<in> set es \<Longrightarrow> from_scan es l \<Longrightarrow> from_scan es (fst (reconcile_entry x l))"
  using adopt_from_scan remove_from_scan
  by (cases "(x, l)" rule: prod.exhaust) (auto simp: reconcile_entry_def case_prod_unfold split: entry.splits)

lemma scan_records:
  assumes "from_scan (sr_entries r) l"
  shows "from_scan (sr_entries r) (fst (reconcile_scan r l))"
proof -
  let ?I = "from_scan (sr_entries r)"
  have "?I (fst (for_log (sr_entries r) reconcile_entry (l\<lparr>lg_unknown_entries := sr_unknown_entries r\<rparr>)))"
    by (rule for_log_inv [where I = ?I]) (use assms entry_from_scan in auto)
  then have "?I (fst (for_log ids remove_record_from_ledger
      (fst (for_log (sr_entries r) reconcile_entry (l\<lparr>lg_unknown_entries := sr_unknown_entries r\<rparr>)))))" for ids
    by (rule for_log_inv [where I = ?I, rotated]) (rule remove_from_scan)
  then show ?thesis by (simp add: reconcile_scan_def Let_def case_prod_unfold)
qed

lemma load_registry_rule:
  "io_valid (\<lambda>w. registry_at E R (mg_fs w) \<and> mg_ledger w = ledger_default) (load_registry E)
    (\<lambda>_ w. registry_at E R (mg_fs w) \<and> records_match R (mg_ledger w)) (\<lambda>_ _. True)"
proof (rule io_validI)
  fix w x w' assume w: "registry_at E R (mg_fs w) \<and> mg_ledger w = ledger_default" and l: "load_registry E w = (Inr x, w')"
  then obtain r fs where s: "scan E (mg_storage w) (mg_fs w) = (Inr r, fs)"
    and w': "mg_fs w' = fs" "mg_ledger w' = fst (reconcile_scan r ledger_default)"
    by (auto simp: load_registry_def io_bind_def on_storage_def on_logged_def map_err_def split: prod.splits sum.splits)
  from ok_or_err [OF scan_rule w [THEN conjunct1] s] have fs: "registry_at E R fs"
    and ids: "set (map fst (sr_entries r)) = {i. valid_id i \<and> R i \<noteq> Vacant}"
    and es: "\<forall>(i, e) \<in> set (sr_entries r). entry_matches e (R i)" by simp_all
  have "from_scan (sr_entries r) ledger_default" by (simp add: from_scan_def ledger_default_def)
  from scan_records [OF this] w'(2) have "from_scan (sr_entries r) (mg_ledger w')" by simp
  moreover have "valid_id i \<and> R i = Held m" if "(i, EntryActive m) \<in> set (sr_entries r) \<or> (i, EntryDeleting m) \<in> set (sr_entries r)" for i m
  proof -
    have "i \<in> set (map fst (sr_entries r))" using that by force
    moreover have "R i = Held m" using that es match_cases(1,2) by blast
    ultimately show ?thesis using ids by simp
  qed
  ultimately show "registry_at E R (mg_fs w') \<and> records_match R (mg_ledger w')"
    using fs w'(1) by (auto simp: records_match_def from_scan_def)
qed simp

lemma storage_new_tree:
  assumes "storage_new E root fs = (v, fs')"
  shows "fs_root fs' = fs_root fs"
proof -
  let ?r = "fs_root fs"
  have "io_valid (tree ?r) (validate_dir E root []) (\<lambda>_. tree ?r) (\<lambda>_. tree ?r)"
    by (rule io_valid_conseq [OF validate_dir_rule]) auto
  then have "io_valid (tree ?r) (storage_new E root) (\<lambda>_. tree ?r) (\<lambda>_. tree ?r)"
    unfolding storage_new_def by (intro io_valid_then [where M = "tree ?r"] io_valid_map_err io_valid_io_ok)
  from ok_or_err [OF this refl assms] show ?thesis by (cases v) auto
qed

lemma load_keeps_ready: "load_registry E w = (v, w') \<Longrightarrow> mg_ready w' = mg_ready w"
  by (auto simp: load_registry_def io_bind_def on_storage_def on_logged_def split: prod.splits sum.splits)

lemma open_loaded_matches:
  assumes R: "registry_at E R fs" and w: "open_loaded E ps c identity fs lease_fs = Inr w"
  shows "registry_at E R (mg_fs w)" and "records_match R (mg_ledger w)" and "\<not> mg_ready w"
proof -
  from w obtain st fs' subids x where s: "storage_new E (sandboxes_root ps) fs = (Inr st, fs')"
    and l: "load_registry E \<lparr>mg_storage = st, mg_caps = c, mg_fs = fs', mg_subids = subids, mg_ledger = ledger_default,
      mg_locks = locks_new, mg_ready = False, mg_frozen = False, mg_signals = []\<rparr> = (Inr x, w)"
    by (auto simp: open_loaded_def and_then_def Let_def split: prod.splits sum.splits)
  have "registry_at E R fs'" using storage_new_tree [OF s] R by (simp add: registry_at_def)
  with io_valid_ok [OF load_registry_rule _ l, of R] load_keeps_ready [OF l]
  show "registry_at E R (mg_fs w)" "records_match R (mg_ledger w)" "\<not> mg_ready w" by simp_all
qed


definition example_paths :: paths where
  "example_paths = from_roots ''/config'' ''/data'' ''/state''"

definition example_started :: manager where
  "example_started = \<lparr>mg_storage = \<lparr>sg_root = ''/data/sandboxes''\<rparr>, mg_caps = example_caps, mg_fs = example_fs,
     mg_subids = None, mg_ledger = ledger_default, mg_locks = locks_new, mg_ready = False, mg_frozen = False, mg_signals = []\<rparr>"

lemma example_new: "storage_new example_env ''/data/sandboxes'' example_fs = (Inr \<lparr>sg_root = ''/data/sandboxes''\<rparr>, example_fs)"
  by code_simp

lemma example_empty_scan:
  "scan example_env \<lparr>sg_root = ''/data/sandboxes''\<rparr> example_fs = (Inr \<lparr>sr_entries = [], sr_unknown_entries = 0\<rparr>, example_fs)"
  by code_simp

lemma example_opened:
  "open_loaded example_env example_paths example_caps IdentityHost example_fs example_fs = Inr example_started"
proof -
  have "sandboxes_root example_paths = ''/data/sandboxes''" by code_simp
  then show ?thesis
    by (simp add: open_loaded_def example_new and_then_def load_registry_def io_bind_def on_storage_def example_empty_scan
        map_err_def on_logged_def reconcile_scan_def example_started_def ledger_default_def)
qed


end
