(* ===== verification/Key_Sources.thy ===== *)
theory Key_Sources
  imports Paths Fingerprint
begin

text \<open>
  The key sources of \<open>auth.rs\<close>: the safety checks on an authorized-keys file and its directories,
  the bounded read, and the strict parser. The files belong to the host, so other processes may
  change them between any two calls: a run sees a sequence of worlds, one per call. Parsing and
  hashing a public key is the \<open>russh\<close> crate's: the record \<open>key_lib\<close> stands for it.
\<close>

unbundle bit_operations_syntax

section \<open>Model\<close>

subsection \<open>The world a call sees\<close>

record file_stat =
  fst_dev :: u64
  fst_ino :: u64
  fst_ctime :: int
  fst_ctime_nsec :: int
  fst_mode :: u32
  fst_uid :: u32
  fst_len :: u64

text \<open>
  What \<open>lstat\<close> and \<open>stat\<close> answer for a path, which file an \<open>open\<close> with \<open>O_NOFOLLOW\<close> reaches, and
  what reading that file gives.
\<close>

record world =
  w_lstat :: "string \<Rightarrow> (io_error, file_stat) result"
  w_stat :: "string \<Rightarrow> (io_error, file_stat) result"
  w_open :: "string \<Rightarrow> (io_error, u64) result"
  w_read :: "u64 \<Rightarrow> (io_error, string) result"

record host_files =
  hf_now :: world
  hf_next :: "world list"

type_synonym ('e, 'a) host_io = "(host_files, 'e, 'a) io"

text \<open>A call is answered by the present world; then the next one, if any, takes its place.\<close>

definition ask :: "(world \<Rightarrow> ('e, 'a) result) \<Rightarrow> ('e, 'a) host_io" where
  "ask f s =
     (f (hf_now s), case hf_next s of [] \<Rightarrow> s | w # ws \<Rightarrow> s\<lparr>hf_now := w, hf_next := ws\<rparr>)"

definition is_symlink :: "u32 \<Rightarrow> bool" where
  "is_symlink mode \<longleftrightarrow> mode AND S_IFMT = S_IFLNK"

subsection \<open>Paths\<close>

text \<open>
  \<open>Path::parent\<close>: the last component is dropped together with the separators, and the single dots,
  around it. A root has no parent; a lone leading dot has the empty path.
\<close>

definition path_start :: "string \<Rightarrow> nat" where
  "path_start p = (if starts_with p ''/'' \<or> p = ''.'' \<or> starts_with p ''./'' then 1 else 0)"

definition trim_back :: "string list \<Rightarrow> string list" where
  "trim_back segs = rev (dropWhile (\<lambda>c. c = [] \<or> c = ''.'') (rev segs))"

fun join_slash :: "string list \<Rightarrow> string" where
  "join_slash [] = []"
| "join_slash [c] = c"
| "join_slash (c # cs) = c @ CHR ''/'' # join_slash cs"

definition path_parent :: "string \<Rightarrow> string option" where
  "path_parent p =
     (let start = take (path_start p) p;
          segs = trim_back (split_slash (drop (path_start p) p))
      in if segs = [] then (if start = ''.'' then Some [] else None)
         else Some (start @ join_slash (trim_back (butlast segs))))"

subsection \<open>Errors\<close>

datatype auth_error =
    AuthHome string
  | AuthInvalid string string
  | AuthIo string string io_error
  | EmptyAuthSnapshot string string

fun display_auth_error :: "env \<Rightarrow> auth_error \<Rightarrow> string" where
  "display_auth_error E (AuthHome message) = ''cannot resolve the daemon home directory: '' @ message"
| "display_auth_error E (AuthInvalid path reason) =
     ''invalid key source at '' @ from_utf8_lossy path @ '': '' @ reason"
| "display_auth_error E (AuthIo path message source) =
     message @ '': '' @ from_utf8_lossy path @ '': '' @ display_io_error E source"
| "display_auth_error E (EmptyAuthSnapshot host_path allowed_path) =
     ''no accepted keys found in '' @ from_utf8_lossy host_path @ '' or '' @ from_utf8_lossy allowed_path"

definition MAX_AUTHORIZED_KEYS_BYTES :: nat where
  "MAX_AUTHORIZED_KEYS_BYTES = 1024 * 1024"

definition MAX_AUTHORIZED_KEYS_LINE_BYTES :: nat where
  "MAX_AUTHORIZED_KEYS_LINE_BYTES = 8 * 1024"

definition resolve_authorized_keys_path :: "env \<Rightarrow> string option \<Rightarrow> (auth_error, string) result" where
  "resolve_authorized_keys_path E home =
     (case home_dir home of
        Inr h \<Rightarrow> Inr (path_join (path_join h ''.ssh'') ''authorized_keys'')
      | Inl e \<Rightarrow> Inl (AuthHome (display_paths_error E e)))"

subsection \<open>File checks\<close>

definition check_parent ::
  "env \<Rightarrow> string \<Rightarrow> bool \<Rightarrow> string \<Rightarrow> (auth_error, unit) host_io" where
  "check_parent E source_name immediate directory =
     (let cannot = AuthIo directory (''cannot stat '' @ source_name @ '' parent'');
          invalid = (\<lambda>reason. io_err (AuthInvalid directory (source_name @ reason)))
      in io_bind (io_map_err cannot (ask (\<lambda>w. w_lstat w directory))) (\<lambda>link.
         if immediate \<and> is_symlink (fst_mode link) then invalid '' parent must not be a symlink''
         else io_bind (io_map_err cannot (ask (\<lambda>w. w_stat w directory))) (\<lambda>m.
           if \<not> is_directory (fst_mode m) then invalid '' parent is not a directory''
           else if fst_mode m AND 0x12 \<noteq> 0 then invalid '' parent is group or world writable''
           else if immediate \<and> fst_uid m \<noteq> env_euid E
             then invalid '' parent is not owned by the daemon user''
           else io_ok ())))"

fun check_parents :: "env \<Rightarrow> string \<Rightarrow> bool \<Rightarrow> string list \<Rightarrow> (auth_error, unit) host_io" where
  "check_parents E source_name immediate [] = io_ok ()"
| "check_parents E source_name immediate (d # ds) =
     io_then (check_parent E source_name immediate d) (check_parents E source_name False ds)"

lemma join_split_slash: "join_slash (split_slash s) = s"
proof (induction s)
  case (Cons c s)
  show ?case
  proof (cases "split_slash s")
    case Nil
    then show ?thesis using Cons by (cases s) (auto split: if_splits list.splits)
  next
    case (Cons x xs)
    then show ?thesis using Cons.IH by (cases xs) auto
  qed
qed simp

lemma length_join_snoc:
  "length (join_slash (xs @ [x])) = (if xs = [] then length x else length (join_slash xs) + 1 + length x)"
  by (induction xs rule: join_slash.induct) auto

lemma trim_back_snoc: "trim_back (xs @ [x]) = (if x = [] \<or> x = ''.'' then trim_back xs else xs @ [x])"
  by (simp add: trim_back_def)

lemma last_trim_back: "trim_back xs \<noteq> [] \<Longrightarrow> last (trim_back xs) \<noteq> []"
  by (induction xs rule: rev_induct) (auto simp: trim_back_snoc trim_back_def [of "[]"] split: if_splits)

lemma length_join_trim: "length (join_slash (trim_back xs)) \<le> length (join_slash xs)"
  by (induction xs rule: rev_induct) (auto simp: trim_back_snoc trim_back_def [of "[]"] length_join_snoc split: if_splits)

lemma length_join_butlast: "xs \<noteq> [] \<Longrightarrow> last xs \<noteq> [] \<Longrightarrow> length (join_slash (butlast xs)) < length (join_slash xs)"
  by (cases xs rule: rev_cases) (auto simp: length_join_snoc)

lemma path_parent_shorter: "path_parent p = Some d \<Longrightarrow> length d < length p"
proof -
  assume d: "path_parent p = Some d"
  define k where "k = path_start p"
  define segs where "segs = trim_back (split_slash (drop k p))"
  show ?thesis
  proof (cases "segs = []")
    case True
    with d show ?thesis by (cases p) (auto simp: path_parent_def k_def segs_def path_start_def Let_def split: if_splits)
  next
    case False
    have "length (join_slash (trim_back (butlast segs))) \<le> length (join_slash (butlast segs))" by (rule length_join_trim)
    also have "\<dots> < length (join_slash segs)"
      using False last_trim_back [of "split_slash (drop k p)"] by (simp add: length_join_butlast segs_def)
    also have "\<dots> \<le> length (drop k p)"
      using length_join_trim [of "split_slash (drop k p)"] by (simp add: segs_def join_split_slash)
    finally show ?thesis using d False by (auto simp: path_parent_def Let_def k_def [symmetric] segs_def [symmetric])
  qed
qed

text \<open>
  The directories the loop visits: it stops at one without a parent, and would stop at one that is
  its own parent.
\<close>

function parents :: "string \<Rightarrow> string list" where
  "parents p = (case path_parent p of None \<Rightarrow> [] | Some d \<Rightarrow> if d = p then [] else d # parents d)"
  by pat_completeness auto

termination
  by (relation "measure length") (auto simp: path_parent_shorter)

declare parents.simps [simp del]

definition validate_key_source_parents :: "env \<Rightarrow> string \<Rightarrow> string \<Rightarrow> (auth_error, unit) host_io" where
  "validate_key_source_parents E path source_name = check_parents E source_name True (parents path)"

definition validate_key_source_file :: "env \<Rightarrow> string \<Rightarrow> string \<Rightarrow> (auth_error, bool) host_io" where
  "validate_key_source_file E path source_name =
     (let invalid = (\<lambda>reason. io_err (AuthInvalid path (source_name @ reason)))
      in io_match (ask (\<lambda>w. w_lstat w path))
           (\<lambda>e. if errno_is e ENOENT then io_ok False
                else io_err (AuthIo path (''cannot stat '' @ source_name) e))
           (\<lambda>m. if \<not> is_regular (fst_mode m) then invalid '' is not a regular file''
                else if MAX_AUTHORIZED_KEYS_BYTES < unat (fst_len m)
                  then invalid ('' exceeds the '' @ display_nat MAX_AUTHORIZED_KEYS_BYTES @ '' byte limit'')
                else if fst_uid m \<noteq> env_euid E then invalid '' is not owned by the daemon user''
                else if fst_mode m AND 0x12 \<noteq> 0 then invalid '' is group or world writable''
                else io_then (validate_key_source_parents E path source_name) (io_ok True)))"

definition read_key_source :: "env \<Rightarrow> string \<Rightarrow> string \<Rightarrow> (auth_error, string option) host_io" where
  "read_key_source E path source_name =
     io_bind (validate_key_source_file E path source_name) (\<lambda>present.
     if \<not> present then io_ok None
     else io_bind (io_map_err (AuthIo path (''cannot open '' @ source_name)) (ask (\<lambda>w. w_open w path))) (\<lambda>f.
       io_bind (io_map_err (AuthIo path (''cannot read '' @ source_name)) (ask (\<lambda>w. w_read w f))) (\<lambda>content.
       let bytes = take (MAX_AUTHORIZED_KEYS_BYTES + 1) content
       in if MAX_AUTHORIZED_KEYS_BYTES < length bytes
          then io_err (AuthInvalid path
                 (source_name @ '' exceeds the '' @ display_nat MAX_AUTHORIZED_KEYS_BYTES @ '' byte limit''))
          else io_ok (Some bytes))))"

subsection \<open>The parser\<close>

record 'k key_lib =
  kl_from_openssh :: "string \<Rightarrow> 'k option"
  kl_is_ed25519 :: "'k \<Rightarrow> bool"
  kl_fingerprint :: "'k \<Rightarrow> string"

definition from_ssh_key :: "'k key_lib \<Rightarrow> 'k \<Rightarrow> key_fingerprint" where
  "from_ssh_key K key = KeyFingerprint (kl_fingerprint K key)"

text \<open>One line: nothing for a blank line or a comment, or the fingerprint of its key.\<close>

definition parse_key_line ::
  "'k key_lib \<Rightarrow> string \<Rightarrow> nat \<Rightarrow> string \<Rightarrow> (auth_error, key_fingerprint option) result" where
  "parse_key_line K path number line =
     (let invalid = (\<lambda>reason. Inl (AuthInvalid path (''line '' @ display_nat number @ reason)));
          trimmed = trim line;
          fields = split_ascii_whitespace trimmed;
          algorithm = (case fields of f # _ \<Rightarrow> f | [] \<Rightarrow> []);
          blob = (case fields of _ # f # _ \<Rightarrow> f | _ \<Rightarrow> [])
      in if MAX_AUTHORIZED_KEYS_LINE_BYTES < length line then invalid '' exceeds the 8 KiB limit''
         else if trimmed = [] \<or> starts_with trimmed ''#'' then Inr None
         else if algorithm \<noteq> ''ssh-ed25519'' \<or> blob = []
           then invalid ('' is not bare '' @ [CHR 0x60] @ ''ssh-ed25519 <base64> [comment]'' @ [CHR 0x60])
         else case kl_from_openssh K trimmed of
                None \<Rightarrow> invalid '' contains an invalid public key''
              | Some key \<Rightarrow>
                  if \<not> kl_is_ed25519 K key then invalid '' is not an Ed25519 key''
                  else Inr (Some (from_ssh_key K key)))"

text \<open>The loop over the lines; \<open>seen\<close> is the hash set beside the list \<open>keys\<close>.\<close>

fun parse_key_lines ::
  "'k key_lib \<Rightarrow> string \<Rightarrow> nat \<Rightarrow> key_fingerprint set \<Rightarrow> key_fingerprint list \<Rightarrow> string list
     \<Rightarrow> (auth_error, key_fingerprint list) result" where
  "parse_key_lines K path number seen keys [] = Inr keys"
| "parse_key_lines K path number seen keys (line # lines) =
     and_then (parse_key_line K path number line) (\<lambda>found.
       case found of
         None \<Rightarrow> parse_key_lines K path (number + 1) seen keys lines
       | Some fp \<Rightarrow>
           if fp \<in> seen
           then Inl (AuthInvalid path (''line '' @ display_nat number @ '' duplicates an earlier key''))
           else parse_key_lines K path (number + 1) (insert fp seen) (keys @ [fp]) lines)"

definition parse_key_source ::
  "'k key_lib \<Rightarrow> string \<Rightarrow> string \<Rightarrow> bool \<Rightarrow> (auth_error, key_fingerprint list) result" where
  "parse_key_source K bytes path allow_empty =
     (if MAX_AUTHORIZED_KEYS_BYTES < length bytes
      then Inl (AuthInvalid path ''file exceeds the 1 MiB limit'')
      else case from_utf8 bytes of
             None \<Rightarrow> Inl (AuthInvalid path ''file is not valid UTF-8'')
           | Some text \<Rightarrow>
               and_then (parse_key_lines K path 1 {} [] (str_lines text)) (\<lambda>keys.
               if keys = [] \<and> \<not> allow_empty
               then Inl (AuthInvalid path ''no valid Ed25519 key found'')
               else Inr keys))"

definition parse_authorized_keys :: "'k key_lib \<Rightarrow> string \<Rightarrow> (auth_error, key_fingerprint list) result" where
  "parse_authorized_keys K bytes = parse_key_source K bytes ''<authorized_keys>'' False"

section \<open>What holds\<close>

subsection \<open>Parsing\<close>

text \<open>The accepted content: every line in bounds, every key line bare, no key twice.\<close>

definition key_line :: "string \<Rightarrow> bool" where
  "key_line l \<longleftrightarrow> l \<noteq> [] \<and> \<not> starts_with l ''#''"

definition key_lines :: "string \<Rightarrow> string list" where
  "key_lines bytes = filter key_line (map trim (str_lines bytes))"

definition bare_key :: "'k key_lib \<Rightarrow> string \<Rightarrow> key_fingerprint \<Rightarrow> bool" where
  "bare_key K line fp \<longleftrightarrow>
     (\<exists>blob rest key. split_ascii_whitespace line = ''ssh-ed25519'' # blob # rest \<and> blob \<noteq> []
        \<and> kl_from_openssh K line = Some key \<and> kl_is_ed25519 K key \<and> fp = from_ssh_key K key)"

definition lists_keys :: "'k key_lib \<Rightarrow> string \<Rightarrow> key_fingerprint list \<Rightarrow> bool" where
  "lists_keys K bytes keys \<longleftrightarrow>
     length bytes \<le> MAX_AUTHORIZED_KEYS_BYTES \<and> from_utf8 bytes \<noteq> None
     \<and> list_all (\<lambda>l. length l \<le> MAX_AUTHORIZED_KEYS_LINE_BYTES) (str_lines bytes)
     \<and> list_all2 (bare_key K) (key_lines bytes) keys \<and> distinct keys"

lemma parse_key_line_None:
  "parse_key_line K path n line = Inr None \<longleftrightarrow>
     length line \<le> MAX_AUTHORIZED_KEYS_LINE_BYTES \<and> (trim line = [] \<or> starts_with (trim line) ''#'')"
  by (auto simp: parse_key_line_def Let_def split: option.splits)

lemma parse_key_line_Some:
  "parse_key_line K path n line = Inr (Some fp) \<longleftrightarrow>
     length line \<le> MAX_AUTHORIZED_KEYS_LINE_BYTES \<and> trim line \<noteq> [] \<and> \<not> starts_with (trim line) ''#''
     \<and> bare_key K (trim line) fp"
proof -
  consider "split_ascii_whitespace (trim line) = []" | f where "split_ascii_whitespace (trim line) = [f]"
    | f g fs where "split_ascii_whitespace (trim line) = f # g # fs"
    by (metis neq_Nil_conv)
  then show ?thesis by cases (auto simp: parse_key_line_def bare_key_def Let_def split: option.splits)
qed

lemma bare_key_unique: "bare_key K l fp \<Longrightarrow> bare_key K l fp' \<longleftrightarrow> fp' = fp"
  by (auto simp: bare_key_def)

lemma parse_key_lines_Inr:
  "parse_key_lines K path n (set keys) keys ls = Inr found \<longleftrightarrow>
     (\<exists>new. found = keys @ new \<and> list_all (\<lambda>l. length l \<le> MAX_AUTHORIZED_KEYS_LINE_BYTES) ls
        \<and> list_all2 (bare_key K) (filter key_line (map trim ls)) new
        \<and> distinct new \<and> set new \<inter> set keys = {})"
proof (induction ls arbitrary: n keys)
  case (Cons line ls)
  consider (bad) e where "parse_key_line K path n line = Inl e"
    | (none) "parse_key_line K path n line = Inr None"
    | (one) fp where "parse_key_line K path n line = Inr (Some fp)"
    by (metis old.sum.exhaust option.exhaust)
  then show ?case
  proof cases
    case bad
    have "\<not> (length line \<le> MAX_AUTHORIZED_KEYS_LINE_BYTES \<and> (key_line (trim line) \<longrightarrow> (\<exists>fp. bare_key K (trim line) fp)))"
      using parse_key_line_None [of K path n line] parse_key_line_Some [of K path n line] bad
      by (auto simp: key_line_def)
    with bad show ?thesis by (auto simp: list_all2_Cons1 and_then_def)
  next
    case none
    then show ?thesis using Cons.IH [of "n + 1" keys] parse_key_line_None [of K path n line]
      by (auto simp: and_then_def key_line_def)
  next
    case (one fp)
    then have key: "key_line (trim line)" and len: "length line \<le> MAX_AUTHORIZED_KEYS_LINE_BYTES"
      and bare: "bare_key K (trim line) fp"
      by (simp_all add: parse_key_line_Some key_line_def)
    show ?thesis
    proof (cases "fp \<in> set keys")
      case True
      with one key bare show ?thesis by (auto simp: and_then_def list_all2_Cons1 bare_key_unique)
    next
      case False
      have "parse_key_lines K path (n + 1) (insert fp (set keys)) (keys @ [fp]) ls = Inr found \<longleftrightarrow>
        (\<exists>new. found = (keys @ [fp]) @ new \<and> list_all (\<lambda>l. length l \<le> MAX_AUTHORIZED_KEYS_LINE_BYTES) ls
          \<and> list_all2 (bare_key K) (filter key_line (map trim ls)) new
          \<and> distinct new \<and> set new \<inter> set (keys @ [fp]) = {})"
        using Cons.IH [of "n + 1" "keys @ [fp]"] by simp
      with False one key len bare show ?thesis by (auto simp: and_then_def list_all2_Cons1 bare_key_unique)
    qed
  qed
qed (auto simp: eq_commute)

lemma parse_key_source_exact:
  "parse_key_source K bytes path allow_empty = Inr keys \<longleftrightarrow>
     lists_keys K bytes keys \<and> (allow_empty \<or> keys \<noteq> [])"
  using parse_key_lines_Inr [of K path 1 "[]" "str_lines bytes"]
  by (auto simp: parse_key_source_def lists_keys_def key_lines_def from_utf8_def and_then_Inr)

subsection \<open>Reading\<close>

text \<open>A run that nothing disturbs sees one world.\<close>

definition quiet :: "host_files \<Rightarrow> bool" where
  "quiet s \<longleftrightarrow> hf_next s = []"

lemma ask_quiet: "quiet s \<Longrightarrow> ask f s = (f (hf_now s), s)"
  by (simp add: ask_def quiet_def)

definition parent_ok :: "env \<Rightarrow> world \<Rightarrow> bool \<Rightarrow> string \<Rightarrow> bool" where
  "parent_ok E w immediate d \<longleftrightarrow>
     (\<exists>l m. w_lstat w d = Inr l \<and> w_stat w d = Inr m \<and> is_directory (fst_mode m) \<and> fst_mode m AND 0x12 = 0
        \<and> (immediate \<longrightarrow> \<not> is_symlink (fst_mode l) \<and> fst_uid m = env_euid E))"

definition safe_parents :: "env \<Rightarrow> world \<Rightarrow> string \<Rightarrow> bool" where
  "safe_parents E w path \<longleftrightarrow>
     (case parents path of [] \<Rightarrow> True | d # ds \<Rightarrow> parent_ok E w True d \<and> list_all (parent_ok E w False) ds)"

definition safe_file :: "env \<Rightarrow> world \<Rightarrow> string \<Rightarrow> bool" where
  "safe_file E w path \<longleftrightarrow>
     (\<exists>m. w_lstat w path = Inr m \<and> is_regular (fst_mode m) \<and> unat (fst_len m) \<le> MAX_AUTHORIZED_KEYS_BYTES
        \<and> fst_uid m = env_euid E \<and> fst_mode m AND 0x12 = 0) \<and> safe_parents E w path"

definition holds_bytes :: "env \<Rightarrow> world \<Rightarrow> string \<Rightarrow> string option \<Rightarrow> bool" where
  "holds_bytes E w path b \<longleftrightarrow>
     (case b of
        None \<Rightarrow> w_lstat w path = Inl (OsError ENOENT)
      | Some bytes \<Rightarrow> safe_file E w path \<and> length bytes \<le> MAX_AUTHORIZED_KEYS_BYTES
          \<and> (\<exists>f. w_open w path = Inr f \<and> w_read w f = Inr bytes))"

lemma check_parent_quiet:
  "quiet s \<Longrightarrow> snd (check_parent E name b d s) = s
     \<and> (fst (check_parent E name b d s) = Inr () \<longleftrightarrow> parent_ok E (hf_now s) b d)"
  by (cases "w_lstat (hf_now s) d"; cases "w_stat (hf_now s) d")
    (auto simp: check_parent_def parent_ok_def Let_def io_simps ask_quiet)

lemma check_parents_quiet:
  "quiet s \<Longrightarrow> snd (check_parents E name b ds s) = s
     \<and> (fst (check_parents E name b ds s) = Inr () \<longleftrightarrow>
        (case ds of [] \<Rightarrow> True | d # ds \<Rightarrow> parent_ok E (hf_now s) b d \<and> list_all (parent_ok E (hf_now s) False) ds))"
proof (induction ds arbitrary: b)
  case (Cons d ds)
  obtain r t where r: "check_parent E name b d s = (r, t)" by force
  then have t: "t = s" and ok: "r = Inr () \<longleftrightarrow> parent_ok E (hf_now s) b d"
    using check_parent_quiet [OF Cons.prems, of E name b d] by auto
  show ?case
  proof (cases r)
    case (Inl e)
    with r t ok show ?thesis by (simp add: io_simps)
  next
    case (Inr u)
    with r t ok Cons.IH [OF Cons.prems, of False] show ?thesis by (cases ds) (auto simp: io_simps)
  qed
qed (simp add: io_simps)

lemma validate_file_quiet:
  assumes "quiet s"
  shows "snd (validate_key_source_file E path name s) = s
     \<and> (fst (validate_key_source_file E path name s) = Inr True \<longleftrightarrow> safe_file E (hf_now s) path)
     \<and> (fst (validate_key_source_file E path name s) = Inr False \<longleftrightarrow> w_lstat (hf_now s) path = Inl (OsError ENOENT))"
proof -
  obtain r t where r: "validate_key_source_parents E path name s = (r, t)" by force
  then have "t = s" and "r = Inr () \<longleftrightarrow> safe_parents E (hf_now s) path"
    using check_parents_quiet [OF assms, of E name True "parents path"]
    by (auto simp: validate_key_source_parents_def safe_parents_def)
  with r show ?thesis
    by (cases "w_lstat (hf_now s) path"; cases r)
      (auto simp: validate_key_source_file_def safe_file_def Let_def io_simps ask_quiet [OF assms] errno_is_def)
qed

lemma read_source_quiet:
  assumes "quiet s"
  shows "snd (read_key_source E path name s) = s
     \<and> (fst (read_key_source E path name s) = Inr b \<longleftrightarrow> holds_bytes E (hf_now s) path b)"
proof -
  obtain r t where r: "validate_key_source_file E path name s = (r, t)" by force
  then have t: "t = s" and yes: "r = Inr True \<longleftrightarrow> safe_file E (hf_now s) path"
    and no: "r = Inr False \<longleftrightarrow> w_lstat (hf_now s) path = Inl (OsError ENOENT)"
    using validate_file_quiet [OF assms, of E path name] by auto
  consider (err) e where "r = Inl e" | (absent) "r = Inr False" | (present) "r = Inr True"
    by (metis (full_types) old.sum.exhaust)
  then show ?thesis
  proof cases
    case present
    with r t yes show ?thesis
      by (cases "w_open (hf_now s) path"; cases "w_read (hf_now s) (projr (w_open (hf_now s) path))"; cases b)
        (auto simp: read_key_source_def holds_bytes_def Let_def io_simps ask_quiet [OF assms] safe_file_def)
  qed (use r t yes no in \<open>auto simp: read_key_source_def holds_bytes_def io_simps split: option.splits\<close>)
qed

end
