(* ===== verification/Key_Store.thy ===== *)
theory Key_Store
  imports Key_Sources BTree_Map Example_Env
begin

text \<open>
  The live key store of \<open>auth.rs\<close>: the snapshot of accepted keys with their roles, and its refresh
  when a key source changes. A refresh is its two phases: the comparison under the read lock and
  the reload under the write lock. A failing lock or blocking task (a panic) is not modelled.
\<close>

section \<open>Model\<close>

subsection \<open>Snapshots\<close>

record auth_snapshot =
  as_keys :: "key_fingerprint list"
  as_principals :: "(key_fingerprint, role) btree_map"
  as_admin_count :: nat

definition add_host_key :: "key_fingerprint \<Rightarrow> auth_snapshot \<Rightarrow> auth_snapshot" where
  "add_host_key fp a =
     (case bt_get (as_principals a) fp of
        Some _ \<Rightarrow> a
      | None \<Rightarrow> a\<lparr>as_principals := bt_insert fp Admin (as_principals a), as_keys := as_keys a @ [fp],
                  as_admin_count := as_admin_count a + 1\<rparr>)"

definition add_allowed_key :: "key_fingerprint \<Rightarrow> auth_snapshot \<Rightarrow> auth_snapshot" where
  "add_allowed_key fp a =
     (case bt_get (as_principals a) fp of
        Some _ \<Rightarrow> a
      | None \<Rightarrow> a\<lparr>as_principals := bt_insert fp Normal (as_principals a), as_keys := as_keys a @ [fp]\<rparr>)"

definition snapshot_of :: "key_fingerprint list \<Rightarrow> key_fingerprint list \<Rightarrow> auth_snapshot" where
  "snapshot_of host_keys allowed_keys =
     fold add_allowed_key allowed_keys
       (fold add_host_key host_keys \<lparr>as_keys = [], as_principals = [], as_admin_count = 0\<rparr>)"

definition load_source ::
  "'k key_lib \<Rightarrow> env \<Rightarrow> string \<Rightarrow> string \<Rightarrow> (auth_error, key_fingerprint list) host_io" where
  "load_source K E path source_name =
     io_bind (read_key_source E path source_name) (\<lambda>found.
     case found of
       Some bytes \<Rightarrow> io_lift (parse_key_source K bytes path True)
     | None \<Rightarrow> io_ok [])"

definition load_snapshot ::
  "'k key_lib \<Rightarrow> env \<Rightarrow> string \<Rightarrow> string \<Rightarrow> (auth_error, auth_snapshot) host_io" where
  "load_snapshot K E host_path allowed_path =
     io_bind (load_source K E host_path ''authorized_keys'') (\<lambda>host_keys.
     io_bind (load_source K E allowed_path ''allowed_keys'') (\<lambda>allowed_keys.
     let snapshot = snapshot_of host_keys allowed_keys
     in if as_keys snapshot = [] then io_err (EmptyAuthSnapshot host_path allowed_path)
        else io_ok snapshot))"

definition authenticate :: "'k key_lib \<Rightarrow> auth_snapshot \<Rightarrow> 'k \<Rightarrow> principal option" where
  "authenticate K a key =
     (if \<not> kl_is_ed25519 K key then None
      else let candidate = from_ssh_key K key
           in map_option (\<lambda>role. \<lparr>pr_fingerprint = candidate, pr_role = role\<rparr>)
                (bt_get (as_principals a) candidate))"

subsection \<open>The store\<close>

datatype file_identity = Absent | Inode u64 u64 int u32 u64

datatype refresh_outcome = Unchanged | Reloaded

record source_identities =
  si_host :: file_identity
  si_allowed :: file_identity

record key_store =
  ks_host_path :: string
  ks_allowed_path :: string
  ks_snapshot :: auth_snapshot
  ks_identities :: source_identities
  ks_revalidate :: bool
  ks_files :: host_files

definition identity_of :: "(io_error, file_stat) result \<Rightarrow> file_identity" where
  "identity_of r =
     (case r of
        Inr m \<Rightarrow> Inode (fst_dev m) (fst_ino m) (fst_ctime_nsec m) (fst_mode m) (fst_len m)
      | Inl _ \<Rightarrow> Absent)"

definition observe_identity :: "string \<Rightarrow> host_files \<Rightarrow> file_identity \<times> host_files" where
  "observe_identity path s = map_prod identity_of id (ask (\<lambda>w. w_lstat w path) s)"

definition observe_sources :: "string \<Rightarrow> string \<Rightarrow> host_files \<Rightarrow> source_identities \<times> host_files" where
  "observe_sources host_path allowed_path s =
     (let (h, t) = observe_identity host_path s;
          (a, u) = observe_identity allowed_path t
      in (\<lparr>si_host = h, si_allowed = a\<rparr>, u))"

definition load_store ::
  "'k key_lib \<Rightarrow> env \<Rightarrow> string \<Rightarrow> string \<Rightarrow> host_files \<Rightarrow> (auth_error, key_store) result" where
  "load_store K E host_path allowed_path files =
     (case load_snapshot K E host_path allowed_path files of
        (Inl e, t) \<Rightarrow> Inl e
      | (Inr snapshot, t) \<Rightarrow>
          let (ids, u) = observe_sources host_path allowed_path t
          in Inr \<lparr>ks_host_path = host_path, ks_allowed_path = allowed_path, ks_snapshot = snapshot,
                  ks_identities = ids, ks_revalidate = False, ks_files = u\<rparr>)"

definition admin_count :: "key_store \<Rightarrow> nat" where
  "admin_count st = as_admin_count (ks_snapshot st)"

definition invalidate :: "key_store \<Rightarrow> key_store" where
  "invalidate st = st\<lparr>ks_revalidate := True\<rparr>"

definition observe_store :: "key_store \<Rightarrow> source_identities \<times> key_store" where
  "observe_store st =
     (let (ids, t) = observe_sources (ks_host_path st) (ks_allowed_path st) (ks_files st)
      in (ids, st\<lparr>ks_files := t\<rparr>))"

text \<open>The reload, under the write lock.\<close>

definition refresh_slow :: "'k key_lib \<Rightarrow> env \<Rightarrow> (key_store, auth_error, refresh_outcome) io" where
  "refresh_slow K E st =
     (let (observed, st) = observe_store st;
          forced = ks_revalidate st;
          st = st\<lparr>ks_revalidate := False\<rparr>
      in if \<not> forced \<and> ks_identities st = observed then (Inr Unchanged, st)
         else case load_snapshot K E (ks_host_path st) (ks_allowed_path st) (ks_files st) of
                (Inr snapshot, t) \<Rightarrow>
                  (Inr Reloaded, st\<lparr>ks_identities := observed, ks_snapshot := snapshot, ks_files := t\<rparr>)
              | (Inl e, t) \<Rightarrow> (Inl e, st\<lparr>ks_identities := observed, ks_files := t\<rparr>))"

definition refresh_if_changed :: "'k key_lib \<Rightarrow> env \<Rightarrow> (key_store, auth_error, refresh_outcome) io" where
  "refresh_if_changed K E st =
     (let (observed, st) = observe_store st
      in if \<not> ks_revalidate st \<and> ks_identities st = observed then (Inr Unchanged, st)
         else refresh_slow K E st)"

definition snapshot_for_auth :: "'k key_lib \<Rightarrow> env \<Rightarrow> key_store \<Rightarrow> auth_snapshot \<times> key_store" where
  "snapshot_for_auth K E st =
     (case refresh_if_changed K E st of (outcome, st') \<Rightarrow> (ks_snapshot st', st'))"

text \<open>
  Refreshing threads side by side. A thread has observed the sources, has found the store not
  invalidated, or waits for the write lock; the host may change the files at any time.
\<close>

datatype refresher = Observed source_identities | Comparing source_identities | Reloading

inductive store_step ::
  "'k key_lib \<Rightarrow> env \<Rightarrow> key_store \<times> (nat \<rightharpoonup> refresher) \<Rightarrow> key_store \<times> (nat \<rightharpoonup> refresher) \<Rightarrow> bool"
  for K E where
  change: "store_step K E (st, T) (st\<lparr>ks_files := files\<rparr>, T)"
| hangup: "store_step K E (st, T) (invalidate st, T)"
| observe: "T t = None \<Longrightarrow> observe_store st = (ids, st') \<Longrightarrow>
    store_step K E (st, T) (st', T(t \<mapsto> Observed ids))"
| forced: "T t = Some (Observed ids) \<Longrightarrow> ks_revalidate st \<Longrightarrow>
    store_step K E (st, T) (st, T(t \<mapsto> Reloading))"
| unforced: "T t = Some (Observed ids) \<Longrightarrow> \<not> ks_revalidate st \<Longrightarrow>
    store_step K E (st, T) (st, T(t \<mapsto> Comparing ids))"
| same: "T t = Some (Comparing ids) \<Longrightarrow> ks_identities st = ids \<Longrightarrow>
    store_step K E (st, T) (st, T(t := None))"
| differs: "T t = Some (Comparing ids) \<Longrightarrow> ks_identities st \<noteq> ids \<Longrightarrow>
    store_step K E (st, T) (st, T(t \<mapsto> Reloading))"
| reload: "T t = Some Reloading \<Longrightarrow> refresh_slow K E st = (outcome, st') \<Longrightarrow>
    store_step K E (st, T) (st', T(t := None))"

section \<open>What holds\<close>

subsection \<open>Snapshots\<close>

text \<open>The keys of a snapshot are those with a role, each once, and the administrators are counted.\<close>

definition snapshot_ok :: "auth_snapshot \<Rightarrow> bool" where
  "snapshot_ok a \<longleftrightarrow>
     distinct (as_keys a) \<and> set (as_keys a) = dom (bt_get (as_principals a))
     \<and> as_admin_count a = card {fp. bt_get (as_principals a) fp = Some Admin}"

lemma admins_finite: "snapshot_ok a \<Longrightarrow> finite {fp. bt_get (as_principals a) fp = Some Admin}"
  by (rule finite_subset [of _ "set (as_keys a)"]) (fastforce simp: snapshot_ok_def, simp)

lemma add_host_key_ok: "snapshot_ok a \<Longrightarrow> snapshot_ok (add_host_key fp a)"
proof (cases "bt_get (as_principals a) fp")
  case None
  assume a: "snapshot_ok a"
  have "{f. ((bt_get (as_principals a))(fp \<mapsto> Admin)) f = Some Admin}
    = insert fp {f. bt_get (as_principals a) f = Some Admin}" by auto
  with None a admins_finite [OF a] show ?thesis
    by (auto simp: add_host_key_def snapshot_ok_def bt_get_insert)
qed (simp add: add_host_key_def)

lemma add_allowed_key_ok: "snapshot_ok a \<Longrightarrow> snapshot_ok (add_allowed_key fp a)"
proof (cases "bt_get (as_principals a) fp")
  case None
  assume a: "snapshot_ok a"
  have "{f. ((bt_get (as_principals a))(fp \<mapsto> Normal)) f = Some Admin} = {f. bt_get (as_principals a) f = Some Admin}"
    using None by auto
  with None a show ?thesis by (auto simp: add_allowed_key_def snapshot_ok_def bt_get_insert)
qed (simp add: add_allowed_key_def)

lemma fold_snapshot_ok:
  "snapshot_ok a \<Longrightarrow> snapshot_ok (fold add_host_key xs a)"
  "snapshot_ok a \<Longrightarrow> snapshot_ok (fold add_allowed_key xs a)"
  by (induction xs arbitrary: a) (auto simp: add_host_key_ok add_allowed_key_ok)

lemma snapshot_of_ok: "snapshot_ok (snapshot_of hk ak)"
  unfolding snapshot_of_def
  by (intro fold_snapshot_ok) (auto simp: snapshot_ok_def)

definition role_in :: "key_fingerprint list \<Rightarrow> key_fingerprint list \<Rightarrow> key_fingerprint \<Rightarrow> role option" where
  "role_in hk ak fp = (if fp \<in> set hk then Some Admin else if fp \<in> set ak then Some Normal else None)"

lemma roles_of_host_keys:
  "bt_get (as_principals (fold add_host_key hk a)) fp =
     (case bt_get (as_principals a) fp of None \<Rightarrow> if fp \<in> set hk then Some Admin else None | Some r \<Rightarrow> Some r)"
  by (induction hk arbitrary: a) (auto simp: add_host_key_def bt_get_insert split: option.splits)

lemma roles_of_allowed_keys:
  "bt_get (as_principals (fold add_allowed_key ak a)) fp =
     (case bt_get (as_principals a) fp of None \<Rightarrow> if fp \<in> set ak then Some Normal else None | Some r \<Rightarrow> Some r)"
  by (induction ak arbitrary: a) (auto simp: add_allowed_key_def bt_get_insert split: option.splits)

lemma roles_of_snapshot: "bt_get (as_principals (snapshot_of hk ak)) = role_in hk ak"
  by (rule ext) (simp add: snapshot_of_def roles_of_host_keys roles_of_allowed_keys role_in_def)

lemma keys_of_snapshot: "set (as_keys (snapshot_of hk ak)) = set hk \<union> set ak"
  using snapshot_of_ok [of hk ak] by (auto simp: snapshot_ok_def roles_of_snapshot role_in_def split: if_splits)

lemma no_keys: "as_keys (snapshot_of hk ak) = [] \<longleftrightarrow> hk @ ak = []"
  using keys_of_snapshot [of hk ak] by (metis Un_empty append_is_Nil_conv set_empty)

lemma authenticate_snapshot:
  "authenticate K (snapshot_of hk ak) key =
     (if kl_is_ed25519 K key
      then map_option (\<lambda>role. \<lparr>pr_fingerprint = from_ssh_key K key, pr_role = role\<rparr>) (role_in hk ak (from_ssh_key K key))
      else None)"
  by (simp add: authenticate_def roles_of_snapshot Let_def)

subsection \<open>Loading\<close>

definition source_keys :: "'k key_lib \<Rightarrow> env \<Rightarrow> world \<Rightarrow> string \<Rightarrow> key_fingerprint list \<Rightarrow> bool" where
  "source_keys K E w path keys \<longleftrightarrow>
     (\<exists>b. holds_bytes E w path b \<and> (case b of None \<Rightarrow> keys = [] | Some bytes \<Rightarrow> lists_keys K bytes keys))"

definition sources_hold ::
  "'k key_lib \<Rightarrow> env \<Rightarrow> world \<Rightarrow> string \<Rightarrow> string \<Rightarrow> key_fingerprint list \<Rightarrow> key_fingerprint list \<Rightarrow> bool" where
  "sources_hold K E w host_path allowed_path hk ak \<longleftrightarrow>
     source_keys K E w host_path hk \<and> source_keys K E w allowed_path ak \<and> hk @ ak \<noteq> []"

lemma load_source_quiet:
  assumes "quiet s"
  shows "snd (load_source K E path name s) = s
     \<and> (fst (load_source K E path name s) = Inr keys \<longleftrightarrow> source_keys K E (hf_now s) path keys)"
proof -
  obtain r t where r: "read_key_source E path name s = (r, t)" by force
  then have "t = s" and "\<And>b. holds_bytes E (hf_now s) path b \<longleftrightarrow> r = Inr b"
    using read_source_quiet [OF assms, of E path name] by auto
  with r show ?thesis
    by (cases r) (auto simp: load_source_def source_keys_def io_simps parse_key_source_exact split: option.split)
qed

lemma load_snapshot_quiet:
  assumes "quiet s"
  shows "snd (load_snapshot K E host_path allowed_path s) = s
     \<and> (fst (load_snapshot K E host_path allowed_path s) = Inr a \<longleftrightarrow>
        (\<exists>hk ak. sources_hold K E (hf_now s) host_path allowed_path hk ak \<and> a = snapshot_of hk ak))"
proof -
  obtain r t where r: "load_source K E host_path ''authorized_keys'' s = (r, t)" by force
  obtain q u where q: "load_source K E allowed_path ''allowed_keys'' s = (q, u)" by force
  have t: "t = s" "u = s" and host: "\<And>hk. source_keys K E (hf_now s) host_path hk \<longleftrightarrow> r = Inr hk"
    and allowed: "\<And>ak. source_keys K E (hf_now s) allowed_path ak \<longleftrightarrow> q = Inr ak"
    using load_source_quiet [OF assms, of K E host_path "''authorized_keys''"]
      load_source_quiet [OF assms, of K E allowed_path "''allowed_keys''"] r q by auto
  show ?thesis
  proof (cases r; cases q)
    fix hk ak assume "r = Inr hk" and "q = Inr ak"
    with r q t host allowed show ?thesis
      by (auto simp: load_snapshot_def sources_hold_def io_simps no_keys Let_def)
  qed (use r q t host allowed in \<open>auto simp: load_snapshot_def sources_hold_def io_simps\<close>)
qed

subsection \<open>Refreshing\<close>

definition identities_in :: "world \<Rightarrow> string \<Rightarrow> string \<Rightarrow> source_identities" where
  "identities_in w host_path allowed_path =
     \<lparr>si_host = identity_of (w_lstat w host_path), si_allowed = identity_of (w_lstat w allowed_path)\<rparr>"

definition stale :: "key_store \<Rightarrow> bool" where
  "stale st \<longleftrightarrow> ks_revalidate st
     \<or> ks_identities st \<noteq> identities_in (hf_now (ks_files st)) (ks_host_path st) (ks_allowed_path st)"

lemma observe_store_quiet:
  "quiet (ks_files st) \<Longrightarrow>
     observe_store st = (identities_in (hf_now (ks_files st)) (ks_host_path st) (ks_allowed_path st), st)"
  by (simp add: observe_store_def observe_sources_def observe_identity_def ask_quiet identities_in_def)

lemma refresh_fresh: "quiet (ks_files st) \<Longrightarrow> \<not> stale st \<Longrightarrow> refresh_if_changed K E st = (Inr Unchanged, st)"
  by (simp add: refresh_if_changed_def observe_store_quiet stale_def)

lemma snapshot_fresh: "quiet (ks_files st) \<Longrightarrow> \<not> stale st \<Longrightarrow> snapshot_for_auth K E st = (ks_snapshot st, st)"
  by (simp add: snapshot_for_auth_def refresh_fresh)

lemma refresh_stale:
  assumes "quiet (ks_files st)" and "stale st"
  shows "refresh_if_changed K E st =
    (let st' = st\<lparr>ks_identities := identities_in (hf_now (ks_files st)) (ks_host_path st) (ks_allowed_path st),
                  ks_revalidate := False\<rparr>
     in case fst (load_snapshot K E (ks_host_path st) (ks_allowed_path st) (ks_files st)) of
          Inr a \<Rightarrow> (Inr Reloaded, st'\<lparr>ks_snapshot := a\<rparr>)
        | Inl e \<Rightarrow> (Inl e, st'))"
proof -
  obtain r where "load_snapshot K E (ks_host_path st) (ks_allowed_path st) (ks_files st) = (r, ks_files st)"
    using load_snapshot_quiet [OF assms(1), of K E "ks_host_path st" "ks_allowed_path st"] by (metis prod.collapse)
  with assms show ?thesis
    by (cases r) (auto simp: refresh_if_changed_def refresh_slow_def observe_store_quiet stale_def Let_def)
qed

lemma snapshot_stale:
  "quiet (ks_files st) \<Longrightarrow> stale st \<Longrightarrow>
     fst (load_snapshot K E (ks_host_path st) (ks_allowed_path st) (ks_files st)) = Inr a \<Longrightarrow>
     fst (snapshot_for_auth K E st) = a"
  by (simp add: snapshot_for_auth_def refresh_stale Let_def)

lemma refresh_settles:
  "quiet (ks_files st) \<Longrightarrow> refresh_if_changed K E st = (r, st') \<Longrightarrow> quiet (ks_files st') \<and> \<not> stale st'"
  by (cases "stale st") (auto simp: refresh_fresh refresh_stale stale_def Let_def split: sum.splits)

subsection \<open>An example\<close>

text \<open>One key file, \<open>/k/a\<close>, with the content, the change time and the size that the arguments say.\<close>

definition example_key_lib :: "string key_lib" where
  "example_key_lib =
     \<lparr>kl_from_openssh = (\<lambda>l. case split_ascii_whitespace l of _ # b # _ \<Rightarrow> Some b | _ \<Rightarrow> None),
      kl_is_ed25519 = (\<lambda>_. True), kl_fingerprint = (\<lambda>k. ''SHA256:'' @ k)\<rparr>"

definition example_stat :: "u32 \<Rightarrow> int \<Rightarrow> int \<Rightarrow> u64 \<Rightarrow> file_stat" where
  "example_stat mode sec nsec len =
     \<lparr>fst_dev = 1, fst_ino = 7, fst_ctime = sec, fst_ctime_nsec = nsec, fst_mode = mode, fst_uid = 1000, fst_len = len\<rparr>"

definition example_world :: "int \<Rightarrow> int \<Rightarrow> string \<Rightarrow> world" where
  "example_world sec nsec content =
     \<lparr>w_lstat = (\<lambda>p. if p = ''/k/h'' then Inl (OsError ENOENT)
                   else if p = ''/k/a'' then Inr (example_stat 0x8180 sec nsec (of_nat (length content)))
                   else Inr (example_stat 0x41C0 0 0 0)),
      w_stat = (\<lambda>p. Inr (example_stat 0x41C0 0 0 0)), w_open = (\<lambda>p. Inr 7), w_read = (\<lambda>f. Inr content)\<rparr>"

definition key_AA :: string where "key_AA = ''ssh-ed25519 AA''"
definition key_BB :: string where "key_BB = ''ssh-ed25519 BB''"

lemma example_parents: "parents ''/k/a'' = [''/k'', ''/'']"
  by (simp add: parents.simps path_parent_def path_start_def trim_back_def starts_with_def Let_def)

lemma example_modes:
  "is_regular 0x8180" "is_directory 0x41C0" "\<not> is_symlink 0x41C0" "(0x8180 :: u32) AND 0x12 = 0" "(0x41C0 :: u32) AND 0x12 = 0"
  by (simp_all add: is_regular_def is_directory_def is_symlink_def S_IFMT_def S_IFREG_def S_IFDIR_def S_IFLNK_def)

lemma example_ascii: "is_ascii key_AA" "is_ascii key_BB"
  by (simp_all add: is_ascii_def key_AA_def key_BB_def)

lemma example_trim: "trim key_AA = key_AA" "trim key_BB = key_BB"
  by (simp_all add: trim_def trim_start_def trim_end_def chunks_ascii example_ascii unchunk_def)
    (simp_all add: key_AA_def key_BB_def is_whitespace_def chunks_ascii is_ascii_def)

lemma example_lines:
  "str_lines key_AA = [key_AA]" "key_lines key_AA = [key_AA]" "from_utf8 key_AA = Some key_AA"
  "split_ascii_whitespace key_AA = [''ssh-ed25519'', ''AA'']"
  "str_lines key_BB = [key_BB]" "key_lines key_BB = [key_BB]" "from_utf8 key_BB = Some key_BB"
  "split_ascii_whitespace key_BB = [''ssh-ed25519'', ''BB'']"
proof -
  show l: "str_lines key_AA = [key_AA]" "str_lines key_BB = [key_BB]"
    by (simp_all add: str_lines_def key_AA_def key_BB_def strip_cr_def strip_suffix_def)
  have "key_line key_AA" "key_line key_BB"
    by (simp_all add: key_line_def key_AA_def key_BB_def starts_with_def)
  then show "key_lines key_AA = [key_AA]" "key_lines key_BB = [key_BB]"
    by (simp_all add: key_lines_def l example_trim)
  show "from_utf8 key_AA = Some key_AA" "from_utf8 key_BB = Some key_BB"
    by (simp_all add: from_utf8_ascii example_ascii)
  show "split_ascii_whitespace key_AA = [''ssh-ed25519'', ''AA'']" "split_ascii_whitespace key_BB = [''ssh-ed25519'', ''BB'']"
    by (simp_all add: split_ascii_whitespace_def chunks_ascii example_ascii)
      (simp_all add: key_AA_def key_BB_def is_ascii_whitespace_def)
qed

lemma example_lengths: "length key_AA = 14" "length key_BB = 14"
  by (simp_all add: key_AA_def key_BB_def)

lemma example_lists:
  "lists_keys example_key_lib key_AA [KeyFingerprint ''SHA256:AA'']"
  "lists_keys example_key_lib key_BB [KeyFingerprint ''SHA256:BB'']"
  by (simp_all add: lists_keys_def example_lines example_lengths bare_key_def example_key_lib_def from_ssh_key_def
      MAX_AUTHORIZED_KEYS_BYTES_def MAX_AUTHORIZED_KEYS_LINE_BYTES_def)

lemma example_world_simps:
  "w_lstat (example_world sec nsec c) ''/k/h'' = Inl (OsError ENOENT)"
  "w_lstat (example_world sec nsec c) ''/k/a'' = Inr (example_stat 0x8180 sec nsec (of_nat (length c)))"
  "w_lstat (example_world sec nsec c) ''/k'' = Inr (example_stat 0x41C0 0 0 0)"
  "w_lstat (example_world sec nsec c) ''/'' = Inr (example_stat 0x41C0 0 0 0)"
  "w_stat (example_world sec nsec c) p = Inr (example_stat 0x41C0 0 0 0)"
  "w_open (example_world sec nsec c) p = Inr 7" "w_read (example_world sec nsec c) f = Inr c"
  by (simp_all add: example_world_def)

lemma example_stat_simps:
  "fst_mode (example_stat mode sec nsec len) = mode" "fst_uid (example_stat mode sec nsec len) = 1000"
  "fst_len (example_stat mode sec nsec len) = len"
  by (simp_all add: example_stat_def)

lemma example_safe: "length c = 14 \<Longrightarrow> safe_file example_env (example_world sec nsec c) ''/k/a''"
  by (simp add: safe_file_def safe_parents_def parent_ok_def example_parents example_world_def example_stat_def
      example_modes MAX_AUTHORIZED_KEYS_BYTES_def)

lemma example_sources:
  "length c = 14 \<Longrightarrow> lists_keys example_key_lib c [fp] \<Longrightarrow>
     sources_hold example_key_lib example_env (example_world sec nsec c) ''/k/h'' ''/k/a'' [] [fp]"
proof -
  assume c: "length c = 14" "lists_keys example_key_lib c [fp]"
  have "holds_bytes example_env (example_world sec nsec c) ''/k/a'' (Some c)"
    using c example_safe by (simp add: holds_bytes_def MAX_AUTHORIZED_KEYS_BYTES_def) (simp add: example_world_def)
  moreover have "holds_bytes example_env (example_world sec nsec c) ''/k/h'' None"
    by (simp add: holds_bytes_def example_world_def)
  ultimately show ?thesis using c by (force simp: sources_hold_def source_keys_def)
qed

lemma load_store_quiet:
  assumes "sources_hold K E w host_path allowed_path hk ak"
  shows "load_store K E host_path allowed_path \<lparr>hf_now = w, hf_next = []\<rparr> =
    Inr \<lparr>ks_host_path = host_path, ks_allowed_path = allowed_path, ks_snapshot = snapshot_of hk ak,
         ks_identities = identities_in w host_path allowed_path, ks_revalidate = False,
         ks_files = \<lparr>hf_now = w, hf_next = []\<rparr>\<rparr>"
proof -
  have q: "quiet \<lparr>hf_now = w, hf_next = []\<rparr>" by (simp add: quiet_def)
  have "load_snapshot K E host_path allowed_path \<lparr>hf_now = w, hf_next = []\<rparr> = (Inr (snapshot_of hk ak), \<lparr>hf_now = w, hf_next = []\<rparr>)"
    using load_snapshot_quiet [OF q, of K E host_path allowed_path] assms by (intro prod_eqI) auto
  then show ?thesis
    by (simp add: load_store_def observe_sources_def observe_identity_def ask_quiet [OF q] identities_in_def)
qed

definition example_boot :: "int \<Rightarrow> int \<Rightarrow> key_store" where
  "example_boot sec nsec =
     \<lparr>ks_host_path = ''/k/h'', ks_allowed_path = ''/k/a'', ks_snapshot = snapshot_of [] [KeyFingerprint ''SHA256:AA''],
      ks_identities = identities_in (example_world sec nsec key_AA) ''/k/h'' ''/k/a'', ks_revalidate = False,
      ks_files = \<lparr>hf_now = example_world sec nsec key_AA, hf_next = []\<rparr>\<rparr>"

lemma example_boot_role: "authenticate example_key_lib (ks_snapshot (example_boot sec nsec)) ''AA'' =
    Some \<lparr>pr_fingerprint = KeyFingerprint ''SHA256:AA'', pr_role = Normal\<rparr>"
  by (simp add: example_boot_def authenticate_snapshot) (simp add: example_key_lib_def from_ssh_key_def role_in_def)

lemma example_boots:
  "load_store example_key_lib example_env ''/k/h'' ''/k/a'' \<lparr>hf_now = example_world sec nsec key_AA, hf_next = []\<rparr>
    = Inr (example_boot sec nsec)"
  using load_store_quiet [OF example_sources [OF example_lengths(1) example_lists(1)]] by (simp add: example_boot_def)

subsection \<open>Every store that can be reached\<close>

definition loaded :: "'k key_lib \<Rightarrow> env \<Rightarrow> string \<Rightarrow> string \<Rightarrow> auth_snapshot \<Rightarrow> bool" where
  "loaded K E host_path allowed_path a \<longleftrightarrow> (\<exists>files. fst (load_snapshot K E host_path allowed_path files) = Inr a)"

definition store_at :: "'k key_lib \<Rightarrow> env \<Rightarrow> string \<Rightarrow> string \<Rightarrow> key_store \<Rightarrow> bool" where
  "store_at K E host_path allowed_path st \<longleftrightarrow>
     ks_host_path st = host_path \<and> ks_allowed_path st = allowed_path
     \<and> loaded K E host_path allowed_path (ks_snapshot st)"

lemma loaded_ok: "fst (load_snapshot K E host_path allowed_path files) = Inr a \<Longrightarrow> snapshot_ok a \<and> as_keys a \<noteq> []"
  by (auto simp: load_snapshot_def io_simps Let_def snapshot_of_ok split: prod.splits sum.splits if_splits)

lemma load_store_at: "load_store K E host_path allowed_path files = Inr st \<Longrightarrow> store_at K E host_path allowed_path st"
  by (auto simp: load_store_def store_at_def loaded_def split: prod.splits sum.splits) (metis fst_conv)

lemma observe_store_frame: "observe_store st = (ids, st') \<Longrightarrow> \<exists>t. st' = st\<lparr>ks_files := t\<rparr>"
  by (auto simp: observe_store_def split: prod.splits)

lemma refresh_slow_at:
  "refresh_slow K E st = (r, st') \<Longrightarrow> store_at K E host_path allowed_path st \<Longrightarrow> store_at K E host_path allowed_path st'"
proof -
  assume r: "refresh_slow K E st = (r, st')" and st: "store_at K E host_path allowed_path st"
  obtain ids t where "observe_store st = (ids, st\<lparr>ks_files := t\<rparr>)"
    using observe_store_frame by (metis surj_pair)
  with r st show ?thesis
    by (auto simp: refresh_slow_def store_at_def loaded_def Let_def split: if_splits prod.splits sum.splits) (metis fst_conv)+
qed

lemma store_step_at:
  "store_step K E c c' \<Longrightarrow> store_at K E host_path allowed_path (fst c) \<Longrightarrow> store_at K E host_path allowed_path (fst c')"
proof (induction rule: store_step.induct)
  case (observe T t st ids st')
  then show ?case using observe_store_frame by (fastforce simp: store_at_def)
next
  case (reload T t st outcome st')
  then show ?case using refresh_slow_at by simp
qed (auto simp: store_at_def invalidate_def)

lemma store_steps_at:
  "(store_step K E)\<^sup>*\<^sup>* c c' \<Longrightarrow> store_at K E host_path allowed_path (fst c) \<Longrightarrow> store_at K E host_path allowed_path (fst c')"
  by (induction rule: rtranclp_induct) (auto intro: store_step_at)

section \<open>The store\<close>

text \<open>
  C22. In an undisturbed world, a store that was invalidated or whose sources changed authenticates
  exactly the keys the two sources list: an Ed25519 key of \<open>authorized_keys\<close> as administrator, one
  of \<open>allowed_keys\<close> only as normal user, any other key not at all. If a source is unsafe or
  malformed, or both are empty, the previous snapshot is served. Either way the next request finds
  nothing to do.
\<close>

theorem roles_follow_key_sources:
  assumes "quiet (ks_files st)" and "stale st" and "snapshot_for_auth K E st = (a, st')"
  shows "(\<forall>hk ak key. sources_hold K E (hf_now (ks_files st)) (ks_host_path st) (ks_allowed_path st) hk ak \<longrightarrow>
            authenticate K a key =
              (if kl_is_ed25519 K key
               then map_option (\<lambda>role. \<lparr>pr_fingerprint = from_ssh_key K key, pr_role = role\<rparr>)
                      (role_in hk ak (from_ssh_key K key))
               else None))
    \<and> ((\<nexists>hk ak. sources_hold K E (hf_now (ks_files st)) (ks_host_path st) (ks_allowed_path st) hk ak) \<longrightarrow>
         a = ks_snapshot st)
    \<and> refresh_if_changed K E st' = (Inr Unchanged, st')"
proof -
  let ?load = "load_snapshot K E (ks_host_path st) (ks_allowed_path st) (ks_files st)"
  let ?hold = "sources_hold K E (hf_now (ks_files st)) (ks_host_path st) (ks_allowed_path st)"
  obtain r where r: "refresh_if_changed K E st = (r, st')" and a: "a = ks_snapshot st'"
    using assms(3) by (auto simp: snapshot_for_auth_def split: prod.splits)
  have load: "fst ?load = Inr x \<longleftrightarrow> (\<exists>hk ak. ?hold hk ak \<and> x = snapshot_of hk ak)" for x
    using load_snapshot_quiet [OF assms(1)] by blast
  have "a = (case fst ?load of Inr x \<Rightarrow> x | Inl e \<Rightarrow> ks_snapshot st)"
    using r a by (auto simp: refresh_stale [OF assms(1,2)] Let_def split: sum.splits)
  then have "?hold hk ak \<Longrightarrow> a = snapshot_of hk ak" and "\<nexists>hk ak. ?hold hk ak \<Longrightarrow> a = ks_snapshot st" for hk ak
    using load by (auto split: sum.splits) (metis sum.sel(2))+
  moreover have "refresh_if_changed K E st' = (Inr Unchanged, st')"
    using refresh_settles [OF assms(1) r] refresh_fresh by blast
  ultimately show ?thesis by (simp add: authenticate_snapshot)
qed

theorem roles_follow_key_sources_witness:
  "authenticate example_key_lib
     (fst (snapshot_for_auth example_key_lib example_env (invalidate (example_boot 5 0))))
     ''AA'' = Some \<lparr>pr_fingerprint = KeyFingerprint ''SHA256:AA'', pr_role = Normal\<rparr>"
proof -
  let ?st = "invalidate (example_boot 5 0)"
  obtain a st' where r: "snapshot_for_auth example_key_lib example_env ?st = (a, st')" by force
  have "quiet (ks_files ?st)" and "stale ?st"
    by (simp_all add: invalidate_def example_boot_def quiet_def stale_def)
  from roles_follow_key_sources [OF this r] example_sources [OF example_lengths(1) example_lists(1), of 5 0] r
  show ?thesis
    by (simp add: invalidate_def example_boot_def) (simp add: example_key_lib_def from_ssh_key_def role_in_def)
qed

text \<open>
  C23. Whatever refreshing threads, hang-up signals and the host do, the store always serves a
  snapshot that one load of its two sources returned: at least one key, each key once, a role for
  every key, and the right count of administrators. A failed refresh never publishes.
\<close>

theorem served_snapshot_was_loaded:
  assumes "load_store K E host_path allowed_path files = Inr st0"
    and "(store_step K E)\<^sup>*\<^sup>* (st0, Map.empty) (st, T)"
  shows "loaded K E host_path allowed_path (ks_snapshot st) \<and> snapshot_ok (ks_snapshot st) \<and> as_keys (ks_snapshot st) \<noteq> []"
proof -
  have "store_at K E host_path allowed_path st"
    using store_steps_at [OF assms(2)] load_store_at [OF assms(1)] by simp
  then show ?thesis by (auto simp: store_at_def loaded_def dest: loaded_ok)
qed

theorem served_snapshot_was_loaded_witness:
  "snapshot_ok (ks_snapshot (invalidate (example_boot 5 0)))"
proof -
  have "load_store example_key_lib example_env ''/k/h'' ''/k/a'' \<lparr>hf_now = example_world 5 0 key_AA, hf_next = []\<rparr>
    = Inr (example_boot 5 0)"
    by (rule example_boots)
  moreover have "(store_step example_key_lib example_env)\<^sup>*\<^sup>* (example_boot 5 0, Map.empty) (invalidate (example_boot 5 0), Map.empty)"
    by (rule r_into_rtranclp) (rule store_step.hangup)
  ultimately show ?thesis using served_snapshot_was_loaded by blast
qed


lemma replicate_7: "replicate 7 x = [x, x, x, x, x, x, x]"
  by (simp add: numeral_eq_Suc)


end
