(* ===== verification/Spec2Isabelle.thy ===== *)
theory Spec2Isabelle
  imports Manager_Lifecycle Key_Store
begin

text \<open>
  A verification library for \<open>shbox\<close>, a daemon that serves isolated sandboxes over SSH. The part
  of the program that decides who owns which sandbox, which subordinate identity it runs under and
  what of it is on disk is modelled; files are named relative to \<open>src/crates/shbox/src\<close>.

  \<^bold>\<open>The program.\<close> A sandbox is a directory below a fixed root with a workspace and a record
  \<open>metadata.toml\<close> (\<open>sandbox/storage.rs\<close>, \<open>sandbox/metadata.rs\<close>). In isolated mode each sandbox holds
  a lease on one subordinate UID and GID, a file of the lease ledger (\<open>sandbox/subid/ledger.rs\<close>);
  the allocator (\<open>sandbox/subid/mod.rs\<close>) chooses the pair from the ranges that \<open>getsubids\<close> reports
  (\<open>sandbox/subid/delegation.rs\<close>). The manager (\<open>sandbox/manager.rs\<close>) claims, lists, deletes and
  launches for authenticated principals (\<open>auth.rs\<close>), keeps counts and running processes in memory, and
  reconciles leases and half-finished deletions when the daemon starts.

  \<^bold>\<open>Conventions.\<close> Rust strings and byte vectors are \<open>string\<close>, a list of bytes; texts are their
  UTF-8 encoding (theory \<open>Rust_Str\<close>). A \<open>Result\<close> is a sum whose left side is the error. Code that
  touches the file system or a shared structure is a function from a state to a result and a new
  state (type \<open>io\<close>, theory \<open>Prelude\<close>), with the judgement \<open>io_valid\<close> for what holds after success and
  after failure. Integers keep their width as words; \<open>usize\<close> counters are natural numbers where no
  bound is in reach and have their wrap-around written out where it is.

  \<^bold>\<open>Parameters.\<close> The record \<open>env\<close> (theory \<open>Platform_Env\<close>) holds what the sources do not define: the
  TOML reader, the texts of error numbers and the daemon's own IDs. Theorems that need the TOML reader
  assume that it reads the documents the code writes (\<open>toml_reads_plain\<close>, \<open>toml_reads_metadata\<close>);
  \<open>Example_Env\<close> defines a reader for which this is proved and the witnesses use it. The process
  launcher, the answers of the delegation query, random tokens and what other threads do during a
  blocking wait are arguments.

  \<^bold>\<open>Theories, from the bottom.\<close>
  \<^item> \<open>Prelude\<close>, \<open>Rust_Str\<close>, \<open>BTree_Map\<close>: results, the Hoare rules, number formats, UTF-8, ordered maps.
  \<^item> \<open>Sandbox_Id\<close>, \<open>Fingerprint\<close>, \<open>Metadata\<close>: the parsers of identifiers, of key fingerprints with their
    base64 decoder, and of sandbox records; each accepts exactly its grammar or its own encoding.
  \<^item> \<open>Delegation_Ranges\<close>, \<open>Delegation\<close>: subordinate ranges, the pool of free IDs as intervals (equal to the
    set of remaining IDs), the \<open>getsubids\<close> reader and the cache.
  \<^item> \<open>Posix\<close>, \<open>Posix_Rules\<close>, \<open>Calm\<close>: a tree of files with descriptor-relative calls. A schedule says which
    call fails and how; \<open>calm\<close> means no more failures.
  \<^item> \<open>Lease_Ledger\<close>, \<open>Lease_Store\<close>, \<open>Subid_Allocator\<close>, \<open>Subid_Rules\<close>, \<open>Subid_Properties\<close>: lease records, the
    store, the allocator. The abstract state is a map from lease IDs to records; each operation,
    under any failure, is one abstract step or none, and IDs are never shared.
  \<^item> \<open>Storage\<close>, \<open>Storage_Rules\<close>, \<open>Storage_Removal\<close>, \<open>Storage_Ops\<close>, \<open>Storage_Properties\<close>: the registry on
    disk. The abstract state maps identifiers to slots (vacant, held by a record, broken).
  \<^item> \<open>Reconcile\<close>, \<open>Reconcile_Properties\<close>: the startup pass over leases.
  \<^item> \<open>Paths\<close>: the managed directories and their validation.
  \<^item> \<open>Manager_Ledger\<close>, \<open>Manager_Invariants\<close>: the manager's memory and the invariant that its counts, its
    process index and its launch limits keep under every interleaving of its critical sections.
  \<^item> \<open>Lifecycle_Locks\<close>: the table of per-sandbox mutexes.
  \<^item> \<open>Manager\<close>, \<open>Manager_Runtime\<close>, \<open>Manager_Rules\<close>: the operations of the manager over storage, allocator
    and memory, and the rules that relate them to slots and leases.

  \<^bold>\<open>Interfaces.\<close> The store below the allocator and the registry below its clients are locales, whose
  laws the interpretations \<open>store\<close> and \<open>disk\<close> discharge for the modelled operations.

  \<^bold>\<open>Fuel and loops.\<close> Recursive removal takes the height of the tree as fuel and is proved not to run
  out. The search for a process token is a partial function; it is proved to end while fewer than
  \<open>2 ^ 64 - 1\<close> processes run. Loops that wait for processes consume a list of wait outcomes, which is
  as long as the deadline allows.

  \<^bold>\<open>Not modelled.\<close> The SSH server and its channels, the WebSocket bridge, the configuration file, the
  key store's refresh, host keys and logging; the platform launchers, whose bodies are system calls.
  Path lookups do not follow links above the last component. Locks of the daemon itself are taken to
  work, so each critical section is one step.
\<close>

section \<open>Sandbox records\<close>


definition example_metadata :: metadata where
  "example_metadata = metadata_active (SandboxId ''demo'') example_owner"

lemma example_metadata_valid: "valid_metadata example_metadata"
  by (simp add: example_metadata_def metadata_active_def valid_metadata_def example_id_valid example_owner_valid)


text \<open>
  C34. Whatever bytes a record file holds, a decoded record names the directory it was found in,
  has a valid identifier and a canonical owner fingerprint, and came from at most 16 KiB.
\<close>

theorem metadata_decode_checks:
  assumes "metadata_decode E bytes i = Inr m"
  shows "md_id m = i \<and> valid_metadata m \<and> length bytes \<le> METADATA_MAX_BYTES"
  using metadata_decode_sound [OF assms] by blast

theorem metadata_decode_checks_witness:
  "md_id example_metadata = SandboxId ''demo'' \<and> valid_metadata example_metadata
     \<and> length (metadata_encode example_env example_metadata) \<le> METADATA_MAX_BYTES"
proof (rule metadata_decode_checks)
  have "md_id example_metadata = SandboxId ''demo''" by (simp add: example_metadata_def metadata_active_def)
  then show "metadata_decode example_env (metadata_encode example_env example_metadata) (SandboxId ''demo'') =
      Inr example_metadata"
    using metadata_decode_encode [OF example_metadata_valid example_reads_metadata [OF example_metadata_valid]]
    by simp
qed

end
